(* ===== verification/Nest_Prelude.thy ===== *)
theory Nest_Prelude
  imports
    Main
    "HOL-Library.Word"
    "HOL-Library.List_Lexorder"
    "HOL-Library.Char_ord"
    "HOL-Library.Product_Lexorder"
    "HOL-Library.Code_Target_Numeral"
begin

text \<open>
  Shared vocabulary of the development: fallible results, saturating machine
  arithmetic, SQL tables as lists of rows, transition systems with invariants,
  and the part of Rust's \<^verbatim>\<open>str\<close> and \<^verbatim>\<open>Path\<close> interface the program uses.

  A Rust \<^verbatim>\<open>str\<close> is the list of its UTF-8 bytes (HOL's \<^typ>\<open>char\<close> is a byte), so
  \<^verbatim>\<open>len()\<close> is \<^const>\<open>length\<close>. Operations of the source that work on Unicode scalar
  values (\<^verbatim>\<open>chars()\<close>, \<^verbatim>\<open>trim()\<close>, \<^verbatim>\<open>is_control()\<close>) go through \<open>utf8_chars\<close>, which
  cuts the bytes at the UTF-8 lead bytes.
\<close>

named_theorems result_simps \<open>inversion of fallible computations\<close>
named_theorems table_simps \<open>effect of table updates\<close>
named_theorems str_defs \<open>definitions unfolded to evaluate string operations\<close>

section \<open>Machine integers\<close>

type_synonym u8 = "8 word"
type_synonym u16 = "16 word"
type_synonym u32 = "32 word"
type_synonym u64 = "64 word"

text \<open>\<^verbatim>\<open>saturating_add\<close>, \<^verbatim>\<open>saturating_sub\<close> and \<^verbatim>\<open>saturating_mul\<close> of the unsigned types.\<close>

definition sat_add :: "'a::len word \<Rightarrow> 'a word \<Rightarrow> 'a word" where
  "sat_add a b = (if unat a + unat b < 2 ^ LENGTH('a) then a + b else - 1)"

definition sat_sub :: "'a::len word \<Rightarrow> 'a word \<Rightarrow> 'a word" where
  "sat_sub a b = (if b \<le> a then a - b else 0)"

definition sat_mul :: "'a::len word \<Rightarrow> 'a word \<Rightarrow> 'a word" where
  "sat_mul a b = (if unat a * unat b < 2 ^ LENGTH('a) then a * b else - 1)"

lemma unat_max_word: "unat (- 1 :: 'a::len word) = 2 ^ LENGTH('a) - 1"
  by (simp add: unat_minus_one unsigned_minus_1_eq_mask mask_eq_exp_minus_1)

lemma unat_less_exp: "unat (w :: 'a::len word) < 2 ^ LENGTH('a)"
  by (rule unsigned_less)

lemma unat_of_nat_small: "n < 2 ^ LENGTH('a) \<Longrightarrow> unat (of_nat n :: 'a::len word) = n"
  by (simp add: unat_of_nat)

lemma unat_sat_add: "unat (sat_add a (b :: 'a::len word)) = min (unat a + unat b) (2 ^ LENGTH('a) - 1)"
proof (cases "unat a + unat b < 2 ^ LENGTH('a)")
  case True
  then show ?thesis by (simp add: sat_add_def unat_word_ariths)
next
  case False
  then show ?thesis by (simp add: sat_add_def unat_max_word)
qed

lemma unat_sat_sub: "unat (sat_sub a b) = unat a - unat b"
  by (auto simp: sat_sub_def unat_sub word_le_nat_alt)

lemma unat_sat_mul: "unat (sat_mul a (b :: 'a::len word)) = min (unat a * unat b) (2 ^ LENGTH('a) - 1)"
proof (cases "unat a * unat b < 2 ^ LENGTH('a)")
  case True
  then show ?thesis by (simp add: sat_mul_def unat_word_ariths)
next
  case False
  then show ?thesis by (simp add: sat_mul_def unat_max_word)
qed

lemma sat_add_ge: "a \<le> sat_add a b"
proof -
  have "unat a < 2 ^ LENGTH('a)" by (rule unsigned_less)
  then have "unat a \<le> unat (sat_add a b)"
    unfolding unat_sat_add by linarith
  then show ?thesis by (simp add: word_le_nat_alt)
qed

lemma sat_sub_le: "sat_sub a b \<le> a"
  by (simp add: word_le_nat_alt unat_sat_sub)

lemma sat_sub_zero [simp]: "sat_sub a 0 = a"
  by (simp add: sat_sub_def)

section \<open>Fallible computations\<close>

text \<open>\<^verbatim>\<open>Result<T, E>\<close> is \<open>'e + 'a\<close>; \<open>rbind\<close> is the \<^verbatim>\<open>?\<close> operator.\<close>

definition rbind :: "'e + 'a \<Rightarrow> ('a \<Rightarrow> 'e + 'b) \<Rightarrow> 'e + 'b" where
  "rbind m f = (case m of Inl e \<Rightarrow> Inl e | Inr x \<Rightarrow> f x)"

definition require :: "bool \<Rightarrow> 'e \<Rightarrow> 'e + unit" where
  "require b e = (if b then Inr () else Inl e)"

definition ok_or :: "'a option \<Rightarrow> 'e \<Rightarrow> 'e + 'a" where
  "ok_or x e = (case x of None \<Rightarrow> Inl e | Some y \<Rightarrow> Inr y)"

definition is_ok :: "'e + 'a \<Rightarrow> bool" where
  "is_ok m = (case m of Inl _ \<Rightarrow> False | Inr _ \<Rightarrow> True)"

fun rcollect :: "('e + 'a) list \<Rightarrow> 'e + 'a list" where
  "rcollect [] = Inr []"
| "rcollect (m # ms) = rbind m (\<lambda>x. rbind (rcollect ms) (\<lambda>xs. Inr (x # xs)))"

lemma rbind_Inl [simp]: "rbind (Inl e) f = Inl e"
  by (simp add: rbind_def)

lemma rbind_Inr [simp]: "rbind (Inr x) f = f x"
  by (simp add: rbind_def)

lemma rbind_eq_Inr [result_simps]: "rbind m f = Inr y \<longleftrightarrow> (\<exists>x. m = Inr x \<and> f x = Inr y)"
  by (cases m) auto

lemma rbind_eq_Inl [result_simps]: "rbind m f = Inl e \<longleftrightarrow> m = Inl e \<or> (\<exists>x. m = Inr x \<and> f x = Inl e)"
  by (cases m) auto

lemma require_eq_Inr [result_simps]: "require b e = Inr u \<longleftrightarrow> b"
  by (simp add: require_def)

lemma require_eq_Inl [result_simps]: "require b e = Inl e' \<longleftrightarrow> \<not> b \<and> e' = e"
  by (auto simp: require_def)

lemma ok_or_eq_Inr [result_simps]: "ok_or x e = Inr y \<longleftrightarrow> x = Some y"
  by (auto simp: ok_or_def split: option.splits)

lemma ok_or_eq_Inl [result_simps]: "ok_or x e = Inl e' \<longleftrightarrow> x = None \<and> e' = e"
  by (auto simp: ok_or_def split: option.splits)

lemma is_ok_simps [simp]: "is_ok (Inr x)" "\<not> is_ok (Inl e)"
  by (simp_all add: is_ok_def)

lemma is_ok_iff: "is_ok m \<longleftrightarrow> (\<exists>x. m = Inr x)"
  by (cases m) auto

section \<open>Tables\<close>

text \<open>
  A table is the list of its rows in insertion order. \<^verbatim>\<open>UPDATE ... WHERE\<close>,
  \<^verbatim>\<open>DELETE ... WHERE\<close> and \<^verbatim>\<open>SELECT COUNT(*) ... WHERE\<close> act on every row that
  satisfies the condition; \<^verbatim>\<open>fetch_optional\<close> on a unique column is \<^const>\<open>find\<close>.
\<close>

definition update_where :: "('r \<Rightarrow> bool) \<Rightarrow> ('r \<Rightarrow> 'r) \<Rightarrow> 'r list \<Rightarrow> 'r list" where
  "update_where p f rows = map (\<lambda>r. if p r then f r else r) rows"

definition delete_where :: "('r \<Rightarrow> bool) \<Rightarrow> 'r list \<Rightarrow> 'r list" where
  "delete_where p rows = filter (\<lambda>r. \<not> p r) rows"

definition count_where :: "('r \<Rightarrow> bool) \<Rightarrow> 'r list \<Rightarrow> nat" where
  "count_where p rows = length (filter p rows)"

text \<open>\<^verbatim>\<open>ORDER BY key DESC\<close>; the program only orders by keys that end in a unique column.\<close>

definition order_desc :: "('r \<Rightarrow> 'k::linorder) \<Rightarrow> 'r list \<Rightarrow> 'r list" where
  "order_desc key rows = rev (sort_key key rows)"

lemma length_update_where [simp]: "length (update_where p f rows) = length rows"
  by (simp add: update_where_def)

lemma update_where_Nil [simp]: "update_where p f [] = []"
  by (simp add: update_where_def)

lemma update_where_Cons [simp]:
  "update_where p f (r # rows) = (if p r then f r else r) # update_where p f rows"
  by (simp add: update_where_def)

lemma update_where_append [simp]:
  "update_where p f (xs @ ys) = update_where p f xs @ update_where p f ys"
  by (simp add: update_where_def)

lemma map_key_update_where [table_simps]:
  assumes "\<And>r. p r \<Longrightarrow> key (f r) = key r"
  shows "map key (update_where p f rows) = map key rows"
  using assms by (simp add: update_where_def)

lemma set_update_where [table_simps]:
  "set (update_where p f rows) = (\<lambda>r. if p r then f r else r) ` set rows"
  by (simp add: update_where_def)

lemma update_where_id: "(\<And>r. r \<in> set rows \<Longrightarrow> \<not> p r) \<Longrightarrow> update_where p f rows = rows"
  by (induction rows) auto

lemma set_delete_where [table_simps, simp]: "set (delete_where p rows) = {r \<in> set rows. \<not> p r}"
  by (simp add: delete_where_def)

lemma delete_where_Nil [simp]: "delete_where p [] = []"
  by (simp add: delete_where_def)

lemma distinct_delete_where: "distinct (map key rows) \<Longrightarrow> distinct (map key (delete_where p rows))"
  by (simp add: delete_where_def distinct_map_filter)

lemma length_delete_where: "length (delete_where p rows) \<le> length rows"
  by (simp add: delete_where_def)

lemma count_where_zero: "count_where p rows = 0 \<longleftrightarrow> (\<forall>r \<in> set rows. \<not> p r)"
  by (auto simp: count_where_def filter_empty_conv)

lemma set_order_desc [simp]: "set (order_desc key rows) = set rows"
  by (simp add: order_desc_def)

lemma length_order_desc [simp]: "length (order_desc key rows) = length rows"
  by (simp add: order_desc_def)

text \<open>\<^verbatim>\<open>ORDER BY key DESC LIMIT n\<close> keeps the greatest keys.\<close>

lemma order_desc_sorted: "sorted_wrt (\<lambda>a b. key b \<le> key a) (order_desc key rows)"
  unfolding order_desc_def sorted_wrt_rev by (metis sorted_sort_key sorted_wrt_map)

lemma order_desc_take_greatest:
  assumes "r \<in> set rows" and "r \<notin> set (take n (order_desc key rows))"
    and "k \<in> set (take n (order_desc key rows))"
  shows "key r \<le> key k"
proof -
  let ?xs = "order_desc key rows"
  have "r \<in> set (take n ?xs @ drop n ?xs)" using assms(1) by simp
  then have "r \<in> set (drop n ?xs)" using assms(2) by (simp del: append_take_drop_id)
  moreover have "sorted_wrt (\<lambda>a b. key b \<le> key a) (take n ?xs @ drop n ?xs)"
    using order_desc_sorted [of key rows] by simp
  ultimately show ?thesis using assms(3) unfolding sorted_wrt_append by blast
qed

lemma set_take_order_desc: "set (take n (order_desc key rows)) \<subseteq> set rows"
  using set_take_subset by fastforce

lemma order_desc_take_greatest_strict:
  assumes "inj_on key (set rows)" and "r \<in> set rows" and "r \<notin> set (take n (order_desc key rows))"
    and "k \<in> set (take n (order_desc key rows))"
  shows "key r < key k"
proof -
  have "k \<in> set rows" using assms(4) set_take_order_desc by fast
  then have "key r \<noteq> key k" using assms by (auto dest: inj_onD)
  with order_desc_take_greatest [OF assms(2-4)] show ?thesis by simp
qed

lemma distinct_key_unique:
  assumes "distinct (map key rows)" and "r \<in> set rows" and "r' \<in> set rows" and "key r = key r'"
  shows "r = r'"
  using assms by (auto simp: distinct_map inj_on_def)

lemma find_key_unique:
  assumes "distinct (map key rows)" and "r \<in> set rows"
  shows "find (\<lambda>x. key x = key r) rows = Some r"
  using assms by (induction rows) (auto simp: image_iff)

lemma find_Some_in: "find p rows = Some r \<Longrightarrow> r \<in> set rows \<and> p r"
  by (auto simp: find_Some_iff)

lemma find_None: "find p rows = None \<longleftrightarrow> (\<forall>r \<in> set rows. \<not> p r)"
  by (auto simp: find_None_iff)

lemma filter_key_le_one:
  assumes "distinct (map key rows)"
  shows "length (filter (\<lambda>r. key r = k) rows) \<le> 1"
  using assms
proof (induction rows)
  case Nil
  then show ?case by simp
next
  case (Cons r rows)
  show ?case
  proof (cases "key r = k")
    case True
    with Cons.prems have "filter (\<lambda>r. key r = k) rows = []"
      by (auto simp: filter_empty_conv image_iff)
    with True show ?thesis by simp
  next
    case False
    with Cons show ?thesis by simp
  qed
qed

lemma hd_order_asc_least:
  assumes "sort_key key rows = r # rest"
  shows "r \<in> set rows" and "r' \<in> set rows \<Longrightarrow> key r \<le> key r'"
proof -
  from assms have s: "set rows = insert r (set rest)"
    by (metis list.simps(15) set_sort)
  then show "r \<in> set rows" by simp
  have "sorted (map key (sort_key key rows))" by (rule sorted_sort_key)
  with assms have "\<forall>x \<in> set rest. key r \<le> key x" by auto
  then show "key r \<le> key r'" if "r' \<in> set rows" using that s by auto
qed

section \<open>Transition systems\<close>

inductive reach :: "('s \<Rightarrow> bool) \<Rightarrow> ('s \<Rightarrow> 's \<Rightarrow> bool) \<Rightarrow> 's \<Rightarrow> bool"
  for init :: "'s \<Rightarrow> bool" and step :: "'s \<Rightarrow> 's \<Rightarrow> bool" where
  reach_init: "init s \<Longrightarrow> reach init step s"
| reach_step: "reach init step s \<Longrightarrow> step s t \<Longrightarrow> reach init step t"

text \<open>
  The contract a stateful component offers its clients: an invariant that holds
  initially and that every step keeps.
\<close>

locale invariant_system =
  fixes init :: "'s \<Rightarrow> bool"
    and step :: "'s \<Rightarrow> 's \<Rightarrow> bool"
    and inv :: "'s \<Rightarrow> bool"
  assumes inv_init: "init s \<Longrightarrow> inv s"
    and inv_step: "inv s \<Longrightarrow> step s t \<Longrightarrow> inv t"
begin

lemma reach_inv: "reach init step s \<Longrightarrow> inv s"
  by (induction rule: reach.induct) (auto intro: inv_init inv_step)

lemma run_inv: "inv s \<Longrightarrow> step\<^sup>*\<^sup>* s t \<Longrightarrow> inv t"
  by (rotate_tac 1, induction rule: rtranclp_induct) (auto intro: inv_step)

end

end
