(* ===== verification/Nest_Str.thy ===== *)
theory Nest_Str
  imports Nest_Prelude
begin

text \<open>
  The part of Rust's \<^verbatim>\<open>str\<close>, \<^verbatim>\<open>char\<close>, integer parsing and \<^verbatim>\<open>std::path\<close> interfaces
  that the program calls, on strings as lists of UTF-8 bytes.
\<close>

type_synonym str = string

section \<open>Bytes and scalar values\<close>

definition byte :: "nat \<Rightarrow> char" where
  "byte n = char_of n"

definition code :: "char \<Rightarrow> nat" where
  "code c = of_char c"

definition newline :: str where
  "newline = [CHR 0x0A]"

definition is_ascii_digit :: "char \<Rightarrow> bool" where
  "is_ascii_digit c = (48 \<le> code c \<and> code c \<le> 57)"

definition is_ascii_upper :: "char \<Rightarrow> bool" where
  "is_ascii_upper c = (65 \<le> code c \<and> code c \<le> 90)"

definition is_ascii_lower :: "char \<Rightarrow> bool" where
  "is_ascii_lower c = (97 \<le> code c \<and> code c \<le> 122)"

definition is_ascii_alphabetic :: "char \<Rightarrow> bool" where
  "is_ascii_alphabetic c = (is_ascii_upper c \<or> is_ascii_lower c)"

definition is_ascii_alphanumeric :: "char \<Rightarrow> bool" where
  "is_ascii_alphanumeric c = (is_ascii_alphabetic c \<or> is_ascii_digit c)"

definition is_ascii_hexdigit :: "char \<Rightarrow> bool" where
  "is_ascii_hexdigit c =
     (is_ascii_digit c \<or> (65 \<le> code c \<and> code c \<le> 70) \<or> (97 \<le> code c \<and> code c \<le> 102))"

text \<open>\<^verbatim>\<open>is_ascii_graphic\<close>: the printable characters other than the space.\<close>

definition is_ascii_graphic :: "char \<Rightarrow> bool" where
  "is_ascii_graphic c = (33 \<le> code c \<and> code c \<le> 126)"

definition is_ascii_control :: "char \<Rightarrow> bool" where
  "is_ascii_control c = (code c < 32 \<or> code c = 127)"

definition to_ascii_lower :: "char \<Rightarrow> char" where
  "to_ascii_lower c = (if is_ascii_upper c then byte (code c + 32) else c)"

definition to_ascii_lowercase :: "str \<Rightarrow> str" where
  "to_ascii_lowercase s = map to_ascii_lower s"

definition eq_ignore_ascii_case :: "str \<Rightarrow> str \<Rightarrow> bool" where
  "eq_ignore_ascii_case s t = (to_ascii_lowercase s = to_ascii_lowercase t)"

text \<open>
  The scalar values of a string: a byte that is not a continuation byte starts
  one, and the continuation bytes that follow belong to it. On well-formed UTF-8,
  which every \<^verbatim>\<open>str\<close> is, these are the encodings of its \<^verbatim>\<open>char\<close>s.
\<close>

definition is_cont :: "char \<Rightarrow> bool" where
  "is_cont c = (128 \<le> code c \<and> code c < 192)"

function utf8_chars :: "str \<Rightarrow> str list" where
  "utf8_chars [] = []"
| "utf8_chars (c # cs) = (c # takeWhile is_cont cs) # utf8_chars (dropWhile is_cont cs)"
  by pat_completeness auto

termination utf8_chars
  by (relation "measure length") (auto simp: less_Suc_eq_le length_dropWhile_le)

text \<open>The length of the encoding a lead byte announces, and strings whose scalar values all have
  their length.\<close>

definition utf8_len :: "char \<Rightarrow> nat" where
  "utf8_len c =
     (if code c < 128 then 1 else if code c < 192 then 0 else if code c < 224 then 2
      else if code c < 240 then 3 else 4)"

definition utf8_ok :: "str \<Rightarrow> bool" where
  "utf8_ok s = list_all (\<lambda>ch. length ch = utf8_len (hd ch)) (utf8_chars s)"

text \<open>
  \<^verbatim>\<open>char::is_whitespace\<close> is the Unicode property \<open>White_Space\<close>, and
  \<^verbatim>\<open>char::is_control\<close> the general category \<open>Cc\<close>, on the encoded scalar value.
\<close>

definition is_whitespace :: "str \<Rightarrow> bool" where
  "is_whitespace ch =
     (case map code ch of
        [a] \<Rightarrow> (9 \<le> a \<and> a \<le> 13) \<or> a = 32
      | [a, b] \<Rightarrow> a = 194 \<and> (b = 133 \<or> b = 160)
      | [a, b, c] \<Rightarrow>
          (a = 225 \<and> b = 154 \<and> c = 128) \<or>
          (a = 226 \<and> b = 128 \<and> ((128 \<le> c \<and> c \<le> 138) \<or> c = 168 \<or> c = 169 \<or> c = 175)) \<or>
          (a = 226 \<and> b = 129 \<and> c = 159) \<or>
          (a = 227 \<and> b = 128 \<and> c = 128)
      | _ \<Rightarrow> False)"

definition is_control :: "str \<Rightarrow> bool" where
  "is_control ch =
     (case map code ch of
        [a] \<Rightarrow> a < 32 \<or> a = 127
      | [a, b] \<Rightarrow> a = 194 \<and> 128 \<le> b \<and> b \<le> 159
      | _ \<Rightarrow> False)"

definition chars_count :: "str \<Rightarrow> nat" where
  "chars_count s = length (utf8_chars s)"

definition take_chars :: "nat \<Rightarrow> str \<Rightarrow> str" where
  "take_chars n s = concat (take n (utf8_chars s))"

definition filter_chars :: "(str \<Rightarrow> bool) \<Rightarrow> str \<Rightarrow> str" where
  "filter_chars p s = concat (filter p (utf8_chars s))"

definition any_char :: "(str \<Rightarrow> bool) \<Rightarrow> str \<Rightarrow> bool" where
  "any_char p s = list_ex p (utf8_chars s)"

definition trim_start :: "str \<Rightarrow> str" where
  "trim_start s = concat (dropWhile is_whitespace (utf8_chars s))"

definition trim_end :: "str \<Rightarrow> str" where
  "trim_end s = concat (rev (dropWhile is_whitespace (rev (utf8_chars s))))"

definition trim :: "str \<Rightarrow> str" where
  "trim s = concat (rev (dropWhile is_whitespace (rev (dropWhile is_whitespace (utf8_chars s)))))"

section \<open>Searching and splitting\<close>

definition starts_with :: "str \<Rightarrow> str \<Rightarrow> bool" where
  "starts_with s p = (take (length p) s = p)"

lemma starts_with_code [code]:
  "starts_with s [] = True"
  "starts_with [] (c # p) = False"
  "starts_with (d # s) (c # p) = (if d = c then starts_with s p else False)"
  by (simp_all add: starts_with_def)

definition ends_with :: "str \<Rightarrow> str \<Rightarrow> bool" where
  "ends_with s p = (length p \<le> length s \<and> drop (length s - length p) s = p)"

definition strip_prefix :: "str \<Rightarrow> str \<Rightarrow> str option" where
  "strip_prefix s p = (if starts_with s p then Some (drop (length p) s) else None)"

definition strip_suffix :: "str \<Rightarrow> str \<Rightarrow> str option" where
  "strip_suffix s p = (if ends_with s p then Some (take (length s - length p) s) else None)"

fun contains :: "str \<Rightarrow> str \<Rightarrow> bool" where
  "contains [] p = (p = [])"
| "contains (c # cs) p = (starts_with (c # cs) p \<or> contains cs p)"

text \<open>\<^verbatim>\<open>split(c)\<close> for an ASCII separator: n occurrences give n + 1 pieces.\<close>

fun split_on :: "char \<Rightarrow> str \<Rightarrow> str list" where
  "split_on c [] = [[]]"
| "split_on c (x # xs) =
     (if x = c then [] # split_on c xs
      else (case split_on c xs of [] \<Rightarrow> [[x]] | p # ps \<Rightarrow> (x # p) # ps))"

text \<open>\<^verbatim>\<open>split_once(c)\<close> and \<^verbatim>\<open>rsplit_once(c)\<close>.\<close>

definition split_once :: "char \<Rightarrow> str \<Rightarrow> (str \<times> str) option" where
  "split_once c s =
     (if c \<in> set s then Some (takeWhile (\<lambda>x. x \<noteq> c) s, tl (dropWhile (\<lambda>x. x \<noteq> c) s)) else None)"

definition rsplit_once :: "char \<Rightarrow> str \<Rightarrow> (str \<times> str) option" where
  "rsplit_once c s =
     (case split_once c (rev s) of None \<Rightarrow> None | Some (a, b) \<Rightarrow> Some (rev b, rev a))"

definition trim_start_matches :: "char \<Rightarrow> str \<Rightarrow> str" where
  "trim_start_matches c s = dropWhile (\<lambda>x. x = c) s"

definition trim_end_matches :: "char \<Rightarrow> str \<Rightarrow> str" where
  "trim_end_matches c s = rev (dropWhile (\<lambda>x. x = c) (rev s))"

definition replace_char :: "char \<Rightarrow> str \<Rightarrow> str \<Rightarrow> str" where
  "replace_char c r s = concat (map (\<lambda>x. if x = c then r else [x]) s)"

fun join :: "str \<Rightarrow> str list \<Rightarrow> str" where
  "join sep [] = []"
| "join sep [p] = p"
| "join sep (p # q # ps) = p @ sep @ join sep (q # ps)"

text \<open>\<^verbatim>\<open>lines()\<close>: a final line terminator does not start another line, and the
  carriage return of a \<^verbatim>\<open>CR LF\<close> terminator is dropped.\<close>

definition strip_cr :: "str \<Rightarrow> str" where
  "strip_cr l = (if l \<noteq> [] \<and> last l = CHR 0x0D then butlast l else l)"

definition str_lines :: "str \<Rightarrow> str list" where
  "str_lines s =
     (let ps = split_on (CHR 0x0A) s
      in map strip_cr (butlast ps) @ (if last ps = [] then [] else [last ps]))"

text \<open>\<^verbatim>\<open>split_whitespace()\<close> gives the maximal runs of other scalar values.\<close>

fun words_of :: "str list \<Rightarrow> str \<Rightarrow> str list" where
  "words_of [] acc = (if acc = [] then [] else [acc])"
| "words_of (ch # chs) acc =
     (if is_whitespace ch then (if acc = [] then words_of chs [] else acc # words_of chs [])
      else words_of chs (acc @ ch))"

definition split_whitespace :: "str \<Rightarrow> str list" where
  "split_whitespace s = words_of (utf8_chars s) []"

section \<open>Integers\<close>

text \<open>Decimal printing of unsigned and signed values.\<close>

fun nat_to_str :: "nat \<Rightarrow> str" where
  "nat_to_str n = (if n < 10 then [byte (48 + n)] else nat_to_str (n div 10) @ [byte (48 + n mod 10)])"

declare nat_to_str.simps [simp del]

definition int_to_str :: "int \<Rightarrow> str" where
  "int_to_str i = (if i < 0 then ''-'' @ nat_to_str (nat (- i)) else nat_to_str (nat i))"

definition digits_value :: "str \<Rightarrow> nat" where
  "digits_value s = foldl (\<lambda>v c. v * 10 + (code c - 48)) 0 s"

text \<open>\<^verbatim>\<open>str::parse\<close> of an unsigned integer below \<open>bound\<close>: an optional plus sign and at
  least one digit.\<close>

definition parse_unsigned :: "nat \<Rightarrow> str \<Rightarrow> nat option" where
  "parse_unsigned bound s =
     (let d = (if starts_with s ''+'' then drop 1 s else s)
      in if d \<noteq> [] \<and> list_all is_ascii_digit d \<and> digits_value d < bound
         then Some (digits_value d) else None)"

definition parse_u64 :: "str \<Rightarrow> u64 option" where
  "parse_u64 s = map_option of_nat (parse_unsigned (2 ^ 64) s)"

definition parse_i64 :: "str \<Rightarrow> int option" where
  "parse_i64 s =
     (if starts_with s ''-'' then
        (let d = drop 1 s
         in if d \<noteq> [] \<and> list_all is_ascii_digit d \<and> digits_value d \<le> 2 ^ 63
            then Some (- int (digits_value d)) else None)
      else map_option int (parse_unsigned (2 ^ 63) s))"

section \<open>Paths\<close>

text \<open>
  \<^verbatim>\<open>Path::components\<close> on Unix: repeated separators and interior \<open>.\<close> segments are
  skipped, a leading \<open>.\<close> is kept when the path is relative.
\<close>

datatype path_component = RootDir | CurDir | ParentDir | Normal str

fun segment_components :: "str list \<Rightarrow> path_component list" where
  "segment_components [] = []"
| "segment_components (s # ss) =
     (if s = [] \<or> s = ''.'' then segment_components ss
      else if s = ''..'' then ParentDir # segment_components ss
      else Normal s # segment_components ss)"

definition path_components :: "str \<Rightarrow> path_component list" where
  "path_components p =
     (if starts_with p ''/'' then RootDir # segment_components (split_on CHR ''/'' p)
      else (case split_on CHR ''/'' p of
              [] \<Rightarrow> []
            | s # ss \<Rightarrow> (if s = ''.'' then CurDir # segment_components ss else segment_components (s # ss))))"

lemmas str_eval =
  byte_def code_def newline_def is_ascii_digit_def is_ascii_upper_def is_ascii_lower_def
  is_ascii_alphabetic_def is_ascii_alphanumeric_def is_ascii_hexdigit_def is_ascii_graphic_def
  is_ascii_control_def to_ascii_lower_def to_ascii_lowercase_def is_cont_def is_whitespace_def
  is_control_def trim_def trim_start_def trim_end_def starts_with_def ends_with_def
  split_once_def trim_start_matches_def nat_to_str.simps int_to_str_def digits_value_def
  chars_count_def take_chars_def filter_chars_def any_char_def

section \<open>Facts about scalar values\<close>

lemma concat_utf8_chars [simp]: "concat (utf8_chars s) = s"
  by (induction s rule: utf8_chars.induct) auto

lemma utf8_chars_Nil_iff [simp]: "utf8_chars s = [] \<longleftrightarrow> s = []"
  by (cases s) auto

lemma utf8_chars_nonempty: "ch \<in> set (utf8_chars s) \<Longrightarrow> ch \<noteq> []"
  by (induction s rule: utf8_chars.induct) auto

lemma utf8_chars_conts: "ch \<in> set (utf8_chars s) \<Longrightarrow> b \<in> set (tl ch) \<Longrightarrow> is_cont b"
  by (induction s rule: utf8_chars.induct) (auto dest: set_takeWhileD)

lemma dropWhile_hd: "dropWhile p xs = [] \<or> \<not> p (hd (dropWhile p xs))"
  by (induction xs) auto

lemma utf8_chars_lead:
  "s = [] \<or> \<not> is_cont (hd s) \<Longrightarrow> ch \<in> set (utf8_chars s) \<Longrightarrow> \<not> is_cont (hd ch)"
proof (induction s rule: utf8_chars.induct)
  case (2 c cs)
  note IH = 2(1)
  from 2(3) consider "ch = c # takeWhile is_cont cs" | "ch \<in> set (utf8_chars (dropWhile is_cont cs))"
    unfolding utf8_chars.simps by auto
  then show ?case
  proof cases
    case 1
    with 2(2) show ?thesis by simp
  next
    case 2
    then show ?thesis using IH [OF dropWhile_hd] by simp
  qed
qed simp

lemma takeWhile_boundary:
  assumes "ys = [] \<or> \<not> p (hd ys)"
  shows "takeWhile p (takeWhile p xs @ ys) = takeWhile p xs"
    and "dropWhile p (takeWhile p xs @ ys) = ys"
proof -
  have "takeWhile p ys = []" and "dropWhile p ys = ys" using assms by (cases ys; simp)+
  moreover have "\<And>x. x \<in> set (takeWhile p xs) \<Longrightarrow> p x" by (rule set_takeWhileD [THEN conjunct2])
  ultimately show "takeWhile p (takeWhile p xs @ ys) = takeWhile p xs"
    and "dropWhile p (takeWhile p xs @ ys) = ys"
    by (simp_all add: takeWhile_append2 dropWhile_append2)
qed

lemma utf8_chars_chunk:
  assumes "set ys \<subseteq> set (utf8_chars (dropWhile is_cont cs))"
  shows "utf8_chars (c # takeWhile is_cont cs @ concat ys) =
           (c # takeWhile is_cont cs) # utf8_chars (concat ys)"
proof -
  have "concat ys = [] \<or> \<not> is_cont (hd (concat ys))"
  proof (cases ys)
    case (Cons y ys')
    then have y: "y \<in> set (utf8_chars (dropWhile is_cont cs))" using assms by simp
    then have "y \<noteq> []" by (rule utf8_chars_nonempty)
    moreover have "\<not> is_cont (hd y)" using dropWhile_hd y by (rule utf8_chars_lead)
    ultimately show ?thesis using Cons by simp
  qed simp
  from takeWhile_boundary [of "concat ys" is_cont, OF this] show ?thesis by (simp only: utf8_chars.simps)
qed

lemma utf8_chars_filter [simp]: "utf8_chars (concat (filter p (utf8_chars s))) = filter p (utf8_chars s)"
proof (induction s rule: utf8_chars.induct)
  case (2 c cs)
  have "set (filter p (utf8_chars (dropWhile is_cont cs))) \<subseteq> set (utf8_chars (dropWhile is_cont cs))"
    by auto
  from utf8_chars_chunk [OF this] 2 show ?case by auto
qed simp

lemma utf8_chars_take [simp]: "utf8_chars (concat (take n (utf8_chars s))) = take n (utf8_chars s)"
proof (induction s arbitrary: n rule: utf8_chars.induct)
  case (2 c cs)
  show ?case
  proof (cases n)
    case (Suc k)
    have "set (take k (utf8_chars (dropWhile is_cont cs))) \<subseteq> set (utf8_chars (dropWhile is_cont cs))"
      by (rule set_take_subset)
    from utf8_chars_chunk [OF this] 2 Suc show ?thesis by auto
  qed simp
qed simp

lemma utf8_chars_drop [simp]: "utf8_chars (concat (drop n (utf8_chars s))) = drop n (utf8_chars s)"
proof (induction s arbitrary: n rule: utf8_chars.induct)
  case (2 c cs)
  show ?case
  proof (cases n)
    case 0
    then show ?thesis using concat_utf8_chars [of "c # cs"] by (simp del: concat_utf8_chars)
  next
    case (Suc k)
    then show ?thesis using 2 by simp
  qed
qed simp

lemma dropWhile_is_drop: "dropWhile p xs = drop (length (takeWhile p xs)) xs"
  by (simp add: dropWhile_eq_drop)

lemma rev_dropWhile_rev: "rev (dropWhile p (rev xs)) = take (length xs - length (takeWhile p (rev xs))) xs"
  by (simp add: dropWhile_eq_drop rev_drop)

lemma utf8_chars_dropWhile [simp]:
  "utf8_chars (concat (dropWhile p (utf8_chars s))) = dropWhile p (utf8_chars s)"
  by (simp add: dropWhile_is_drop)

lemma trim_via_start_end: "trim s = trim_end (trim_start s)"
  by (simp add: trim_def trim_end_def trim_start_def)

lemma utf8_chars_trim_end:
  "utf8_chars (trim_end s) = rev (dropWhile is_whitespace (rev (utf8_chars s)))"
  by (simp add: trim_end_def rev_dropWhile_rev)

lemma utf8_chars_trim:
  "utf8_chars (trim s) =
     rev (dropWhile is_whitespace (rev (dropWhile is_whitespace (utf8_chars s))))"
  by (simp only: trim_via_start_end utf8_chars_trim_end) (simp add: trim_start_def)

lemma dropWhile_idem: "dropWhile p (dropWhile p xs) = dropWhile p xs"
  by (induction xs) auto

lemma hd_dropWhile_not: "dropWhile p xs \<noteq> [] \<Longrightarrow> \<not> p (hd (dropWhile p xs))"
  by (induction xs) auto

lemma dropWhile_trimmed:
  "dropWhile p (rev (dropWhile p (rev (dropWhile p xs)))) = rev (dropWhile p (rev (dropWhile p xs)))"
proof -
  define ys where "ys = dropWhile p xs"
  define zs where "zs = rev (dropWhile p (rev ys))"
  have "\<exists>us. ys = zs @ us"
    by (metis zs_def rev_append rev_rev_ident takeWhile_dropWhile_id)
  then obtain us where us: "ys = zs @ us" by blast
  have "zs = [] \<or> \<not> p (hd zs)"
    using hd_dropWhile_not [of p xs] us unfolding ys_def by (cases zs) auto
  then have "dropWhile p zs = zs" by (cases zs) auto
  then show ?thesis by (simp add: zs_def ys_def)
qed

lemma trim_idem [simp]: "trim (trim s) = trim s"
proof -
  have "trim (trim s) =
    concat (rev (dropWhile is_whitespace (rev (dropWhile is_whitespace (utf8_chars (trim s))))))"
    by (simp add: trim_def [of "trim s"])
  also have "\<dots> = concat (utf8_chars (trim s))"
    by (simp only: utf8_chars_trim dropWhile_trimmed rev_rev_ident dropWhile_idem)
  finally show ?thesis by simp
qed

lemma trim_Nil [simp]: "trim [] = []"
  by (simp add: trim_def)

lemma trim_length: "length (trim s) \<le> length s"
proof -
  have "length (concat (dropWhile q cs)) \<le> length (concat cs)"
    and "length (concat (rev (dropWhile q (rev cs)))) \<le> length (concat cs)" for q and cs :: "str list"
    by (metis concat_append length_append le_add2 takeWhile_dropWhile_id)
       (metis concat_append length_append le_add1 rev_append rev_rev_ident takeWhile_dropWhile_id)
  then show ?thesis by (metis concat_utf8_chars order_trans trim_def)
qed

lemma trim_subset: "set (trim s) \<subseteq> set s"
proof
  fix c assume "c \<in> set (trim s)"
  then obtain ch where "c \<in> set ch" and "ch \<in> set (utf8_chars s)"
    by (auto simp: trim_def dest!: set_dropWhileD)
  then have "c \<in> set (concat (utf8_chars s))" unfolding set_concat by blast
  then show "c \<in> set s" by simp
qed

lemma chars_count_take_chars: "chars_count (take_chars n s) \<le> n"
  by (simp add: chars_count_def take_chars_def)

lemma take_chars_id: "chars_count s \<le> n \<Longrightarrow> take_chars n s = s"
  by (simp add: chars_count_def take_chars_def)

lemma chars_count_le_length: "chars_count s \<le> length s"
proof (induction s rule: utf8_chars.induct)
  case (2 c cs)
  then show ?case
    using length_dropWhile_le [of is_cont cs] by (simp add: chars_count_def)
qed (simp add: chars_count_def)

lemma filter_chars_all: "\<not> any_char (\<lambda>ch. \<not> p ch) (filter_chars p s)"
  by (simp add: any_char_def filter_chars_def list_ex_iff)

section \<open>Facts about searching and splitting\<close>

lemma starts_with_iff: "starts_with s p \<longleftrightarrow> (\<exists>t. s = p @ t)"
  unfolding starts_with_def by (metis append_eq_conv_conj append_take_drop_id)

lemma starts_with_append [simp]: "starts_with (p @ t) p"
  by (auto simp: starts_with_iff)

lemma ends_with_append [simp]: "ends_with (t @ p) p"
  by (simp add: ends_with_def)

lemma ends_with_iff: "ends_with s p \<longleftrightarrow> (\<exists>t. s = t @ p)"
  unfolding ends_with_def by (metis append_take_drop_id diff_add_inverse2 append_eq_conv_conj
    length_append le_add2)

lemma split_on_nonempty [simp]: "split_on c s \<noteq> []"
  by (induction s) (auto split: list.splits)

lemma split_on_no_sep: "p \<in> set (split_on c s) \<Longrightarrow> c \<notin> set p"
  by (induction s arbitrary: p) (auto split: list.splits if_splits)

lemma split_on_atom: "c \<notin> set s \<Longrightarrow> split_on c s = [s]"
  by (induction s) auto

lemma join_Cons: "ps \<noteq> [] \<Longrightarrow> join sep (p # ps) = p @ sep @ join sep ps"
  by (cases ps) auto

lemma join_Cons_head: "join sep ((x # p) # ps) = x # join sep (p # ps)"
  by (cases ps) auto

lemma join_split_on [simp]: "join [c] (split_on c s) = s"
proof (induction s)
  case (Cons x xs)
  then show ?case
    by (auto simp: join_Cons join_Cons_head split: list.splits)
qed simp

lemma split_on_append_sep: "c \<notin> set p \<Longrightarrow> split_on c (p @ c # s) = p # split_on c s"
  by (induction p) auto

lemma split_on_set: "p \<in> set (split_on c s) \<Longrightarrow> set p \<subseteq> set s"
  by (induction s arbitrary: p) (fastforce split: list.splits if_splits)+

section \<open>ASCII strings\<close>

lemma code_byte [simp]: "n < 256 \<Longrightarrow> code (byte n) = n"
  by (simp add: code_def byte_def)

lemma code_less: "code c < 256"
  unfolding code_def by (metis of_char_mod_256 mod_less_divisor zero_less_numeral)

lemma code_inject [simp]: "code c = code d \<longleftrightarrow> c = d"
  by (simp add: code_def)

lemma byte_code [simp]: "byte (code c) = c"
  by (simp add: code_def byte_def)

lemma code_to_ascii_lower:
  "code (to_ascii_lower c) = (if 65 \<le> code c \<and> code c \<le> 90 then code c + 32 else code c)"
  by (simp add: to_ascii_lower_def is_ascii_upper_def)

lemma to_ascii_lower_idem [simp]: "to_ascii_lower (to_ascii_lower c) = to_ascii_lower c"
  by (simp add: code_to_ascii_lower flip: code_inject)

lemma to_ascii_lowercase_idem [simp]: "to_ascii_lowercase (to_ascii_lowercase s) = to_ascii_lowercase s"
  by (simp add: to_ascii_lowercase_def)

lemma is_cont_lower [simp]: "is_cont (to_ascii_lower c) = is_cont c"
  by (simp add: is_cont_def code_to_ascii_lower)

lemma is_whitespace_lower [simp]: "is_whitespace (map to_ascii_lower ch) = is_whitespace ch"
  by (cases ch; cases "tl ch"; cases "tl (tl ch)"; cases "tl (tl (tl ch))")
     (auto simp: is_whitespace_def code_to_ascii_lower)

lemma utf8_chars_lower: "utf8_chars (to_ascii_lowercase s) = map to_ascii_lowercase (utf8_chars s)"
  by (induction s rule: utf8_chars.induct)
     (auto simp: to_ascii_lowercase_def takeWhile_map dropWhile_map o_def)

lemma dropWhile_lower:
  "dropWhile is_whitespace (map to_ascii_lowercase chs) = map to_ascii_lowercase (dropWhile is_whitespace chs)"
  by (induction chs) (auto simp: to_ascii_lowercase_def)

lemma trim_lower: "trim (to_ascii_lowercase s) = to_ascii_lowercase (trim s)"
  unfolding trim_def utf8_chars_lower dropWhile_lower rev_map
  by (simp add: dropWhile_lower rev_map map_concat to_ascii_lowercase_def [abs_def])

lemma utf8_chars_ascii: "\<forall>c \<in> set s. code c < 128 \<Longrightarrow> utf8_chars s = map (\<lambda>c. [c]) s"
proof (induction s)
  case (Cons c s)
  then have "\<not> is_cont (hd s)" if "s \<noteq> []" using that by (cases s) (auto simp: is_cont_def)
  with Cons show ?case by (cases s) auto
qed simp

lemma trim_visible:
  assumes "\<forall>c \<in> set s. 33 \<le> code c \<and> code c < 128"
  shows "trim s = s"
proof -
  have u: "utf8_chars s = map (\<lambda>c. [c]) s" using assms by (intro utf8_chars_ascii) auto
  have d: "dropWhile is_whitespace (map (\<lambda>c. [c]) t) = map (\<lambda>c. [c]) t"
    if "\<forall>c \<in> set t. 33 \<le> code c \<and> code c < 128" for t
    using that by (cases t) (auto simp: is_whitespace_def)
  have "trim s = concat (rev (dropWhile is_whitespace (map (\<lambda>c. [c]) (rev s))))"
    using assms by (simp add: trim_def u d rev_map)
  also have "\<dots> = s" using assms by (simp add: d rev_map)
  finally show ?thesis .
qed

lemma join_Nil_split_on: "join [] (split_on c s) = filter (\<lambda>x. x \<noteq> c) s"
proof (induction s)
  case (Cons x xs)
  then show ?case
    by (auto simp: join_Cons join_Cons_head split: list.splits)
qed simp

lemma list_all_take_drop: "list_all p s \<Longrightarrow> list_all p (take n (drop k s))"
  by (auto simp: list_all_iff dest!: in_set_takeD in_set_dropD)

section \<open>Decimal round trip\<close>

lemma nat_to_str_digits: "list_all is_ascii_digit (nat_to_str n) \<and> nat_to_str n \<noteq> []"
proof (induction n rule: nat_to_str.induct)
  case (1 n)
  then show ?case
    by (subst (1 2) nat_to_str.simps) (auto simp: is_ascii_digit_def [abs_def])
qed

lemma digits_value_snoc: "digits_value (s @ [c]) = digits_value s * 10 + (code c - 48)"
  by (simp add: digits_value_def)

lemma digits_value_nat_to_str [simp]: "digits_value (nat_to_str n) = n"
proof (induction n rule: nat_to_str.induct)
  case (1 n)
  show ?case
  proof (cases "n < 10")
    case True
    then show ?thesis by (subst nat_to_str.simps) (simp add: digits_value_def)
  next
    case False
    with 1 show ?thesis by (subst nat_to_str.simps) (simp add: digits_value_snoc)
  qed
qed

lemma ascii_digit_visible: "is_ascii_digit c \<Longrightarrow> 33 \<le> code c \<and> code c < 128"
  by (simp add: is_ascii_digit_def)

lemma trim_nat_to_str [simp]: "trim (nat_to_str n) = nat_to_str n"
  using nat_to_str_digits [of n] by (intro trim_visible) (auto simp: list_all_iff dest: ascii_digit_visible)

lemma parse_unsigned_nat_to_str: "n < bound \<Longrightarrow> parse_unsigned bound (nat_to_str n) = Some n"
proof -
  assume "n < bound"
  have "\<not> starts_with (nat_to_str n) ''+''"
    using nat_to_str_digits [of n]
    by (cases "nat_to_str n") (auto simp: starts_with_def is_ascii_digit_def code_def)
  with \<open>n < bound\<close> nat_to_str_digits [of n] show ?thesis
    by (simp add: parse_unsigned_def)
qed

lemma parse_u64_unat [simp]: "parse_u64 (nat_to_str (unat w)) = Some w"
  using unat_less_exp [of w] by (simp add: parse_u64_def parse_unsigned_nat_to_str)

lemma nat_to_str_inject [simp]: "nat_to_str m = nat_to_str n \<longleftrightarrow> m = n"
  by (metis digits_value_nat_to_str)

end
