(* ===== verification/Nest_Models.thy ===== *)
theory Nest_Models
  imports Nest_Str
begin

text \<open>
  The error type of \<^verbatim>\<open>src/src/error.rs\<close> and the data of \<^verbatim>\<open>src/src/models.rs\<close>: devices,
  boot profiles, build jobs, cache artifacts, boot events and the requests that
  create or change them, with the three input normalisers of that file.
\<close>

section \<open>Errors (error.rs)\<close>

text \<open>
  The database errors the statements of the program can meet on a healthy
  connection, and the kinds of input/output error the program tells apart.
\<close>

datatype sqlx_error = RowNotFound | UniqueViolation | ForeignKeyViolation | CheckViolation
datatype io_error = IoNotFound | IoNotADirectory | IoLoop | IoInvalidInput | IoInvalidData | IoOther

datatype app_error =
    Sqlx sqlx_error
  | Io io_error
  | Validation str
  | NotFound
  | Unauthorized
  | Forbidden
  | Config str
  | UnsafePath

type_synonym 'a app_result = "app_error + 'a"

fun status_code :: "app_error \<Rightarrow> nat" where
  "status_code (Validation _) = 400"
| "status_code NotFound = 404"
| "status_code Unauthorized = 401"
| "status_code Forbidden = 403"
| "status_code UnsafePath = 403"
| "status_code (Config _) = 500"
| "status_code (Sqlx _) = 500"
| "status_code (Io _) = 500"

fun error_code :: "app_error \<Rightarrow> str" where
  "error_code (Validation _) = ''validation_error''"
| "error_code NotFound = ''not_found''"
| "error_code Unauthorized = ''unauthorized''"
| "error_code Forbidden = ''forbidden''"
| "error_code UnsafePath = ''unsafe_path''"
| "error_code (Config _) = ''configuration_error''"
| "error_code (Sqlx _) = ''database_error''"
| "error_code (Io _) = ''io_error''"

fun response_message :: "app_error \<Rightarrow> str" where
  "response_message (Sqlx _) = ''internal server error''"
| "response_message (Io _) = ''internal server error''"
| "response_message (Config _) = ''internal server error''"
| "response_message (Validation m) = ''invalid request: '' @ m"
| "response_message NotFound = ''not found''"
| "response_message Unauthorized = ''unauthorized''"
| "response_message Forbidden = ''forbidden''"
| "response_message UnsafePath = ''path is not allowed''"

record error_body =
  body_code :: str
  body_message :: str

definition into_response :: "app_error \<Rightarrow> nat \<times> error_body" where
  "into_response e = (status_code e, \<lparr> body_code = error_code e, body_message = response_message e \<rparr>)"

section \<open>Data (models.rs)\<close>

text \<open>JSON documents (\<^verbatim>\<open>serde_json::Value\<close>); the members of an object are ordered by their keys.\<close>

datatype json = JNull | JBool bool | JNum int | JStr str | JArr "json list" | JObj "(str \<times> json) list"

record device =
  dev_id :: int
  dev_mac :: str
  dev_hostname :: "str option"
  dev_serial_number :: "str option"
  dev_last_seen_at :: "str option"
  dev_last_selected_profile_id :: "int option"
  dev_notes :: str
  dev_tags :: "str list"
  dev_default_profile_id :: "int option"
  dev_one_time_profile_id :: "int option"
  dev_one_time_consumed_at :: "str option"
  dev_created_at :: str
  dev_updated_at :: str

datatype boot_profile_type = LocalDisk | NestInstaller | CustomIpxe

record boot_profile =
  prof_id :: int
  prof_managed_profile_id :: "str option"
  prof_name :: str
  prof_description :: str
  prof_type :: boot_profile_type
  prof_enabled :: bool
  prof_is_default :: bool
  prof_one_time :: bool
  prof_raw_script :: "str option"
  prof_created_at :: str
  prof_updated_at :: str

fun profile_type_as_str :: "boot_profile_type \<Rightarrow> str" where
  "profile_type_as_str LocalDisk = ''local_disk''"
| "profile_type_as_str NestInstaller = ''nest_installer''"
| "profile_type_as_str CustomIpxe = ''custom_ipxe''"

definition profile_type_from_str :: "str \<Rightarrow> boot_profile_type app_result" where
  "profile_type_from_str value =
     (if value = ''local_disk'' then Inr LocalDisk
      else if value = ''nest_installer'' then Inr NestInstaller
      else if value = ''custom_ipxe'' then Inr CustomIpxe
      else Inl (Validation (''unsupported boot profile type '' @ [CHR 0x27] @ value @ [CHR 0x27])))"

record build_job =
  job_id :: int
  job_managed_job_id :: "str option"
  job_requested_artifact_type :: str
  job_build_spec :: json
  job_target :: str
  job_system :: str
  job_input_revision :: str
  job_input_config_hash :: str
  job_status :: str
  job_progress_percent :: "int option"
  job_progress_stage :: "str option"
  job_progress_message :: "str option"
  job_logs :: str
  job_error :: str
  job_rejection_code :: str
  job_output_path :: str
  job_output_sha256 :: str
  job_output_size_bytes :: int
  job_exit_code :: "int option"
  job_cache_metadata :: json
  job_started_at :: "str option"
  job_completed_at :: "str option"
  job_cancel_requested_at :: "str option"
  job_created_at :: str
  job_updated_at :: str

record cache_artifact =
  art_id :: int
  art_managed_artifact_id :: "str option"
  art_artifact_type :: str
  art_hash :: str
  art_size_bytes :: int
  art_path :: str
  art_store_path :: str
  art_narinfo_path :: str
  art_nar_url :: str
  art_file_hash :: str
  art_nar_hash :: str
  art_nar_size_bytes :: int
  art_closure_size_bytes :: int
  art_closure_file_size_bytes :: int
  art_compression :: str
  art_references :: json
  art_serving_url :: str
  art_source_build_job_id :: "str option"
  art_cache_metadata :: json
  art_created_at :: str
  art_updated_at :: str

record create_build_job_request =
  cbj_requested_artifact_type :: str
  cbj_build_spec :: "json option"
  cbj_target :: "str option"
  cbj_system :: "str option"
  cbj_input_revision :: str
  cbj_input_config_hash :: str
  cbj_cache_metadata :: "json option"

record create_cache_artifact_request =
  cca_artifact_type :: str
  cca_hash :: str
  cca_size_bytes :: int
  cca_path :: str
  cca_store_path :: "str option"
  cca_narinfo_path :: "str option"
  cca_nar_url :: "str option"
  cca_file_hash :: "str option"
  cca_nar_hash :: "str option"
  cca_nar_size_bytes :: "int option"
  cca_closure_size_bytes :: "int option"
  cca_closure_file_size_bytes :: "int option"
  cca_compression :: "str option"
  cca_references :: "json option"
  cca_serving_url :: "str option"
  cca_source_build_job_id :: "str option"
  cca_cache_metadata :: "json option"

record boot_event =
  ev_id :: int
  ev_device_id :: "int option"
  ev_mac :: "str option"
  ev_serial_number :: "str option"
  ev_ip_address :: "str option"
  ev_user_agent :: "str option"
  ev_selected_profile_id :: "int option"
  ev_selected_profile_name :: "str option"
  ev_known_device :: bool
  ev_created_at :: str

record new_boot_event =
  nev_device_id :: "int option"
  nev_mac :: "str option"
  nev_serial_number :: "str option"
  nev_ip_address :: "str option"
  nev_user_agent :: "str option"
  nev_selected_profile_id :: "int option"
  nev_selected_profile_name :: "str option"
  nev_known_device :: bool

record create_device_request =
  cdr_mac :: str
  cdr_hostname :: "str option"
  cdr_serial_number :: "str option"
  cdr_notes :: "str option"
  cdr_tags :: "str list option"
  cdr_default_profile_id :: "int option"
  cdr_one_time_profile_id :: "int option"

record update_device_request =
  udr_hostname :: "str option option"
  udr_serial_number :: "str option option"
  udr_notes :: "str option"
  udr_tags :: "str list option"
  udr_default_profile_id :: "int option option"
  udr_one_time_profile_id :: "int option option"

record create_boot_profile_request =
  cbp_name :: str
  cbp_description :: "str option"
  cbp_profile_type :: boot_profile_type
  cbp_enabled :: "bool option"
  cbp_is_default :: "bool option"
  cbp_one_time :: "bool option"
  cbp_raw_script :: "str option"

record update_boot_profile_request =
  ubp_name :: "str option"
  ubp_description :: "str option"
  ubp_profile_type :: "boot_profile_type option"
  ubp_enabled :: "bool option"
  ubp_is_default :: "bool option"
  ubp_one_time :: "bool option"
  ubp_raw_script :: "str option option"

text \<open>The five octet separators are put back by slicing the twelve digits in pairs.\<close>

definition mac_compact :: "str \<Rightarrow> str" where
  "mac_compact input =
     to_ascii_lowercase (join [] (split_on CHR '':'' (replace_char CHR ''-'' '':'' (trim input))))"

definition normalize_mac :: "str \<Rightarrow> str app_result" where
  "normalize_mac input =
     (let compact = mac_compact input
      in if length compact \<noteq> 12 \<or> \<not> list_all is_ascii_hexdigit compact
         then Inl (Validation (''invalid MAC address '' @ [CHR 0x27] @ input @ [CHR 0x27]))
         else Inr (join '':'' (map (\<lambda>idx. take 2 (drop (idx * 2) compact)) [0..<6])))"

definition clean_optional_string :: "str option \<Rightarrow> str option" where
  "clean_optional_string value =
     (case value of None \<Rightarrow> None
      | Some s \<Rightarrow> (let trimmed = trim s in if trimmed = [] then None else Some trimmed))"

definition clean_tags :: "str list \<Rightarrow> str list" where
  "clean_tags tags =
     remdups_adj (sort (filter (\<lambda>tag. tag \<noteq> []) (map (\<lambda>tag. to_ascii_lowercase (trim tag)) tags)))"

section \<open>Canonical hardware addresses\<close>

text \<open>Six pairs of lower-case hexadecimal digits separated by colons.\<close>

definition lower_hex :: "char \<Rightarrow> bool" where
  "lower_hex c = (is_ascii_hexdigit c \<and> \<not> is_ascii_upper c)"

definition canonical_mac :: "str \<Rightarrow> bool" where
  "canonical_mac m =
     (length m = 17 \<and>
      list_all (\<lambda>i. if i mod 3 = 2 then m ! i = CHR '':'' else lower_hex (m ! i)) [0..<17])"

definition mac_digits :: "str \<Rightarrow> str" where
  "mac_digits s = filter (\<lambda>c. c \<noteq> CHR '':'' \<and> c \<noteq> CHR ''-'') s"

definition mac_of_digits :: "str \<Rightarrow> str" where
  "mac_of_digits d = join '':'' (map (\<lambda>idx. take 2 (drop (idx * 2) d)) [0..<6])"

lemma length_12:
  assumes "length (xs :: 'a list) = 12"
  obtains a b c d e f g h i j k l where "xs = [a, b, c, d, e, f, g, h, i, j, k, l]"
proof -
  define f where "f = (!) xs"
  have "xs = map f [0..<12]" using assms by (metis map_nth f_def)
  also have "\<dots> = [f 0, f 1, f 2, f 3, f 4, f 5, f 6, f 7, f 8, f 9, f 10, f 11]"
    by (simp add: upt_rec numeral_eq_Suc)
  finally show thesis by (rule that)
qed

lemma length_17:
  assumes "length (xs :: 'a list) = 17"
  obtains a b c d e f g h i j k l m n p q r where "xs = [a, b, c, d, e, f, g, h, i, j, k, l, m, n, p, q, r]"
proof -
  define f where "f = (!) xs"
  have "xs = map f [0..<17]" using assms by (metis map_nth f_def)
  also have "\<dots> = [f 0, f 1, f 2, f 3, f 4, f 5, f 6, f 7, f 8, f 9, f 10, f 11, f 12, f 13, f 14, f 15, f 16]"
    by (simp add: upt_rec numeral_eq_Suc)
  finally show thesis by (rule that)
qed

lemma to_ascii_lower_sep: "to_ascii_lower c = CHR '':'' \<longleftrightarrow> c = CHR '':''"
  "to_ascii_lower c = CHR ''-'' \<longleftrightarrow> c = CHR ''-''"
  by (auto simp: code_to_ascii_lower simp flip: code_inject split: if_splits) (auto simp: code_def)

lemma mac_compact_alt: "mac_compact input = to_ascii_lowercase (mac_digits (trim input))"
proof -
  have "filter (\<lambda>x. x \<noteq> CHR '':'') (replace_char CHR ''-'' '':'' s) = mac_digits s" for s
    by (induction s) (auto simp: replace_char_def mac_digits_def)
  then show ?thesis by (simp add: mac_compact_def join_Nil_split_on)
qed

lemma lower_hex_not_sep: "lower_hex c \<Longrightarrow> c \<noteq> CHR '':'' \<and> c \<noteq> CHR ''-''"
  by (auto simp: lower_hex_def is_ascii_hexdigit_def is_ascii_digit_def code_def)

lemma lower_hex_visible: "lower_hex c \<Longrightarrow> 33 \<le> code c \<and> code c < 128"
  by (auto simp: lower_hex_def is_ascii_hexdigit_def is_ascii_digit_def)

lemma lower_hex_lower [simp]: "lower_hex c \<Longrightarrow> to_ascii_lower c = c"
  by (simp add: lower_hex_def to_ascii_lower_def)

lemma hexdigit_lower: "is_ascii_hexdigit (to_ascii_lower c) \<Longrightarrow> lower_hex (to_ascii_lower c)"
  by (auto simp: lower_hex_def is_ascii_upper_def code_to_ascii_lower)

lemma canonical_macE:
  assumes "canonical_mac m"
  obtains a b c d e f g h i j k l where
    "m = [a, b, CHR '':'', c, d, CHR '':'', e, f, CHR '':'', g, h, CHR '':'', i, j, CHR '':'', k, l]"
    "list_all lower_hex [a, b, c, d, e, f, g, h, i, j, k, l]"
proof -
  from assms have "length m = 17" by (simp add: canonical_mac_def)
  then obtain a b c d e f g h i j k l n p q r s where
    m: "m = [a, b, c, d, e, f, g, h, i, j, k, l, n, p, q, r, s]"
    by (rule length_17)
  from assms show thesis
    by (intro that [of a b d e g h j k n p r s]) (simp_all add: m canonical_mac_def upt_rec)
qed

lemma mac_of_digits_12:
  "mac_of_digits [a, b, c, d, e, f, g, h, i, j, k, l] =
     [a, b, CHR '':'', c, d, CHR '':'', e, f, CHR '':'', g, h, CHR '':'', i, j, CHR '':'', k, l]"
  by (simp add: mac_of_digits_def upt_rec)

lemma mac_digits_17:
  assumes "list_all lower_hex [a, b, c, d, e, f, g, h, i, j, k, l]"
  shows "mac_digits [a, b, CHR '':'', c, d, CHR '':'', e, f, CHR '':'', g, h, CHR '':'', i, j, CHR '':'', k, l] =
           [a, b, c, d, e, f, g, h, i, j, k, l]"
  using assms by (simp add: mac_digits_def lower_hex_not_sep)

lemma canonical_mac_digits:
  assumes "canonical_mac m"
  shows "m = mac_of_digits (mac_digits m)" and "length (mac_digits m) = 12"
    and "list_all lower_hex (mac_digits m)" and "\<forall>c \<in> set m. c = CHR '':'' \<or> lower_hex c"
proof -
  obtain a b c d e f g h i j k l where
    m: "m = [a, b, CHR '':'', c, d, CHR '':'', e, f, CHR '':'', g, h, CHR '':'', i, j, CHR '':'', k, l]"
    and lh: "list_all lower_hex [a, b, c, d, e, f, g, h, i, j, k, l]"
    using assms by (rule canonical_macE)
  show "m = mac_of_digits (mac_digits m)" unfolding m mac_digits_17 [OF lh] mac_of_digits_12 ..
  show "length (mac_digits m) = 12" unfolding m mac_digits_17 [OF lh] by simp
  show "list_all lower_hex (mac_digits m)" unfolding m mac_digits_17 [OF lh] by (rule lh)
  show "\<forall>c \<in> set m. c = CHR '':'' \<or> lower_hex c" using lh unfolding m by simp
qed

lemma canonical_mac_of_digits:
  assumes "length d = 12" and "list_all lower_hex d"
  shows "canonical_mac (mac_of_digits d)" and "mac_digits (mac_of_digits d) = d"
proof -
  obtain a b c e f g h i j k l n where d: "d = [a, b, c, e, f, g, h, i, j, k, l, n]"
    using assms(1) by (rule length_12)
  show "canonical_mac (mac_of_digits d)"
    using assms(2) unfolding d mac_of_digits_12 canonical_mac_def by (simp add: upt_rec)
  show "mac_digits (mac_of_digits d) = d"
    using assms(2) unfolding d mac_of_digits_12 by (rule mac_digits_17)
qed

lemma canonical_mac_trim:
  assumes "canonical_mac m"
  shows "trim m = m"
proof (intro trim_visible ballI)
  fix c assume "c \<in> set m"
  then consider "c = CHR '':''" | "lower_hex c" using canonical_mac_digits(4) [OF assms] by blast
  then show "33 \<le> code c \<and> code c < 128"
    by cases (simp add: code_def, rule lower_hex_visible)
qed

lemma canonical_mac_compact:
  assumes "canonical_mac m"
  shows "mac_compact m = mac_digits m"
proof -
  have "to_ascii_lowercase (mac_digits m) = mac_digits m"
    using canonical_mac_digits(3) [OF assms] by (simp add: to_ascii_lowercase_def list_all_iff map_idI)
  with canonical_mac_trim [OF assms] show ?thesis by (simp add: mac_compact_alt)
qed

lemma mac_compact_lower_hex:
  "list_all is_ascii_hexdigit (mac_compact s) \<Longrightarrow> list_all lower_hex (mac_compact s)"
  by (auto simp: mac_compact_alt to_ascii_lowercase_def list_all_iff hexdigit_lower)

lemma normalize_mac_ok:
  assumes "length (mac_compact s) = 12" and "list_all is_ascii_hexdigit (mac_compact s)"
  shows "normalize_mac s = Inr (mac_of_digits (mac_compact s))"
  using assms by (simp add: normalize_mac_def mac_of_digits_def Let_def)

lemma normalize_mac_err:
  "\<not> (length (mac_compact s) = 12 \<and> list_all is_ascii_hexdigit (mac_compact s)) \<Longrightarrow>
     normalize_mac s = Inl (Validation (''invalid MAC address '' @ [CHR 0x27] @ s @ [CHR 0x27]))"
  by (auto simp: normalize_mac_def Let_def)

text \<open>What the normaliser returns, as a relation between its argument and its result.\<close>

lemma normalize_mac_eq_Inr:
  "normalize_mac s = Inr m \<longleftrightarrow> canonical_mac m \<and> mac_digits m = mac_compact s"
proof
  assume ok: "normalize_mac s = Inr m"
  then have len: "length (mac_compact s) = 12" and hex: "list_all is_ascii_hexdigit (mac_compact s)"
    by (metis normalize_mac_err sum.distinct(1))+
  then have "m = mac_of_digits (mac_compact s)" using ok normalize_mac_ok by simp
  then show "canonical_mac m \<and> mac_digits m = mac_compact s"
    using canonical_mac_of_digits [OF len] mac_compact_lower_hex [OF hex] by simp
next
  assume *: "canonical_mac m \<and> mac_digits m = mac_compact s"
  then have "length (mac_compact s) = 12" and "list_all is_ascii_hexdigit (mac_compact s)"
    using canonical_mac_digits(2,3) [of m] by (auto simp: list_all_iff lower_hex_def)
  with * show "normalize_mac s = Inr m"
    by (metis normalize_mac_ok canonical_mac_digits(1))
qed

lemma normalize_mac_canonical [simp]: "canonical_mac m \<Longrightarrow> normalize_mac m = Inr m"
  by (simp add: normalize_mac_eq_Inr canonical_mac_compact)

lemma clean_optional_string_idem [simp]:
  "clean_optional_string (clean_optional_string v) = clean_optional_string v"
  by (auto simp: clean_optional_string_def Let_def split: option.splits)

lemma clean_optional_string_Some:
  "clean_optional_string v = Some s \<Longrightarrow> s \<noteq> [] \<and> trim s = s"
  by (auto simp: clean_optional_string_def Let_def split: option.splits if_splits)

lemma profile_type_roundtrip: "profile_type_from_str (profile_type_as_str t) = Inr t"
  by (cases t) (simp_all add: profile_type_from_str_def)

end
