(* ===== verification/Nest_Assets.thy ===== *)
theory Nest_Assets
  imports Nest_Models
begin

text \<open>
  Static files (\<^verbatim>\<open>src/src/assets.rs\<close>): the path sanitiser, asset URLs, byte ranges,
  the binary-cache member filter and the file server.

  The file system is the map from the absolute names of the existing entries to
  what they are; \<open>fs_resolve\<close> is the kernel's path walk, with its limit of 40
  symbolic links. A request is served from one file system state: changes between
  the calls of one request are not modelled. \<^verbatim>\<open>urlencoding::encode\<close> and the MIME table
  are parameters. A request's \<^verbatim>\<open>Range\<close> header is given as decoded text.
\<close>

section \<open>File systems\<close>

datatype fs_node = FileNode str | DirNode | LinkNode str

type_synonym fs = "str list \<Rightarrow> fs_node option"

definition link_limit :: nat where
  "link_limit = 40"

function fs_resolve :: "nat \<Rightarrow> fs \<Rightarrow> str list \<Rightarrow> path_component list \<Rightarrow> io_error + str list" where
  "fs_resolve n fs cur [] = Inr cur"
| "fs_resolve n fs cur (RootDir # cs) = fs_resolve n fs [] cs"
| "fs_resolve n fs cur (CurDir # cs) = fs_resolve n fs cur cs"
| "fs_resolve n fs cur (ParentDir # cs) = fs_resolve n fs (butlast cur) cs"
| "fs_resolve n fs cur (Normal s # cs) =
     (case fs (cur @ [s]) of
        None \<Rightarrow> Inl IoNotFound
      | Some (FileNode _) \<Rightarrow> (if cs = [] then Inr (cur @ [s]) else Inl IoNotADirectory)
      | Some DirNode \<Rightarrow> fs_resolve n fs (cur @ [s]) cs
      | Some (LinkNode t) \<Rightarrow>
          (case n of 0 \<Rightarrow> Inl IoLoop | Suc m \<Rightarrow> fs_resolve m fs cur (path_components t @ cs)))"
  by pat_completeness auto

termination fs_resolve
  by (relation "measures [\<lambda>(n, _, _, _). n, \<lambda>(_, _, _, cs). length cs]") auto

definition has_nul :: "path_component list \<Rightarrow> bool" where
  "has_nul cs = list_ex (\<lambda>c. case c of Normal s \<Rightarrow> CHR 0x00 \<in> set s | _ \<Rightarrow> False) cs"

definition fs_canonicalize :: "fs \<Rightarrow> path_component list \<Rightarrow> io_error + str list" where
  "fs_canonicalize fs p = (if has_nul p then Inl IoInvalidInput else fs_resolve link_limit fs [] p)"

text \<open>\<^verbatim>\<open>symlink_metadata\<close> follows every link but the last component.\<close>

definition fs_lstat :: "fs \<Rightarrow> path_component list \<Rightarrow> io_error + fs_node" where
  "fs_lstat fs p =
     (if has_nul p then Inl IoInvalidInput
      else case p of
        [] \<Rightarrow> Inl IoNotFound
      | _ \<Rightarrow> rbind (fs_resolve link_limit fs [] (butlast p))
              (\<lambda>d. case last p of
                     Normal s \<Rightarrow> ok_or (fs (d @ [s])) IoNotFound
                   | _ \<Rightarrow> Inr DirNode))"

section \<open>Paths and URLs\<close>

definition nix_base32_alphabet :: str where
  "nix_base32_alphabet = ''0123456789abcdfghijklmnpqrsvwxyz''"

definition nar_compression_suffixes :: "str list" where
  "nar_compression_suffixes = [''.xz'', ''.bz2'', ''.zst'', ''.gz'', ''.lzip'', ''.lz4'', ''.br'']"

fun push_normal_components :: "path_component list \<Rightarrow> str list \<Rightarrow> str list app_result" where
  "push_normal_components [] out = Inr out"
| "push_normal_components (Normal part # cs) out = push_normal_components cs (out @ [part])"
| "push_normal_components (_ # cs) out = Inl UnsafePath"

definition sanitize_relative_path :: "str \<Rightarrow> str list app_result" where
  "sanitize_relative_path input =
     (let trimmed = trim input
      in if starts_with trimmed ''/'' \<or> starts_with trimmed [CHR 0x5C] then Inl UnsafePath
         else if trimmed = [] then Inl UnsafePath
         else rbind (push_normal_components (path_components trimmed) [])
                (\<lambda>out. if out = [] then Inl UnsafePath else Inr out))"

definition asset_url :: "(str \<Rightarrow> str) \<Rightarrow> str \<Rightarrow> str \<Rightarrow> str app_result" where
  "asset_url urlencode public_base_url relative_path =
     rbind (sanitize_relative_path relative_path) (\<lambda>safe_path.
       Inr (trim_end_matches CHR ''/'' public_base_url @ ''/files/'' @
            join ''/'' (map urlencode safe_path)))"

section \<open>Byte ranges\<close>

text \<open>\<open>Inl ()\<close> is the unsatisfiable range, \<open>Inr None\<close> the whole file.\<close>

definition parse_byte_range :: "str option \<Rightarrow> u64 \<Rightarrow> unit + (u64 \<times> u64) option" where
  "parse_byte_range range_hdr file_len =
     (case Option.bind range_hdr (\<lambda>r. let v = trim r in if v = [] then None else Some v) of
        None \<Rightarrow> Inr None
      | Some rng \<Rightarrow>
          rbind (ok_or (strip_prefix rng ''bytes='') ()) (\<lambda>spec.
            if CHR '','' \<in> set spec \<or> file_len = 0 then Inl ()
            else rbind (ok_or (split_once CHR ''-'' spec) ()) (\<lambda>(start, end).
              let start = trim start; end = trim end
              in if start = [] then
                   rbind (ok_or (parse_u64 end) ()) (\<lambda>suffix_len.
                     if suffix_len = 0 then Inl ()
                     else Inr (Some (sat_sub file_len suffix_len, file_len - 1)))
                 else
                   rbind (ok_or (parse_u64 start) ()) (\<lambda>start.
                     if file_len \<le> start then Inl ()
                     else rbind (if end = [] then Inr (file_len - 1)
                                 else rbind (ok_or (parse_u64 end) ()) (\<lambda>e. Inr (min e (file_len - 1))))
                       (\<lambda>end. if end < start then Inl () else Inr (Some (start, end)))))))"

section \<open>Serving files\<close>

record http_response =
  resp_status :: nat
  resp_headers :: "(str \<times> str) list"
  resp_body :: str

definition u64_to_str :: "u64 \<Rightarrow> str" where
  "u64_to_str w = nat_to_str (unat w)"

text \<open>Conversions of an input/output error: by \<^verbatim>\<open>?\<close>, and with the missing entry told apart.\<close>

definition io_err :: "io_error + 'a \<Rightarrow> 'a app_result" where
  "io_err m = (case m of Inl err \<Rightarrow> Inl (Io err) | Inr x \<Rightarrow> Inr x)"

definition io_err_not_found :: "io_error + 'a \<Rightarrow> 'a app_result" where
  "io_err_not_found m =
     (case m of Inl err \<Rightarrow> Inl (if err = IoNotFound then NotFound else Io err) | Inr x \<Rightarrow> Inr x)"

fun reject_symlinks_from :: "fs \<Rightarrow> path_component list \<Rightarrow> path_component list \<Rightarrow> unit app_result" where
  "reject_symlinks_from fs current [] = Inr ()"
| "reject_symlinks_from fs current (Normal part # cs) =
     (let current = current @ [Normal part]
      in rbind (io_err_not_found (fs_lstat fs current)) (\<lambda>metadata.
           case metadata of
             LinkNode _ \<Rightarrow> Inl UnsafePath
           | _ \<Rightarrow> reject_symlinks_from fs current cs))"
| "reject_symlinks_from fs current (_ # cs) = Inl UnsafePath"

definition reject_symlink_components :: "fs \<Rightarrow> path_component list \<Rightarrow> path_component list \<Rightarrow> unit app_result" where
  "reject_symlink_components fs root full_path =
     (if take (length root) full_path = root
      then reject_symlinks_from fs root (drop (length root) full_path)
      else Inl UnsafePath)"

text \<open>
  Opening for reading with \<^verbatim>\<open>O_NOFOLLOW\<close>: the opened entry is what the path walk
  reaches; a directory opens too and is told apart by its metadata.
\<close>

definition open_regular_file_no_symlink :: "fs \<Rightarrow> str list \<Rightarrow> fs_node app_result" where
  "open_regular_file_no_symlink fs path =
     (case fs_lstat fs (RootDir # map Normal path) of
        Inr (LinkNode _) \<Rightarrow> Inl UnsafePath
      | Inr node \<Rightarrow> Inr node
      | Inl IoLoop \<Rightarrow> Inl UnsafePath
      | Inl IoNotFound \<Rightarrow> Inl NotFound
      | Inl err \<Rightarrow> Inl (Io err))"

definition range_not_satisfiable_response :: "u64 \<Rightarrow> http_response" where
  "range_not_satisfiable_response file_len =
     \<lparr> resp_status = 416,
       resp_headers = [(''accept-ranges'', ''bytes''), (''content-range'', ''bytes */'' @ u64_to_str file_len)],
       resp_body = [] \<rparr>"

definition range_response :: "str \<Rightarrow> str option \<Rightarrow> str \<Rightarrow> http_response" where
  "range_response content_type range_hdr content =
     (let file_len = of_nat (length content) :: u64
      in case parse_byte_range range_hdr file_len of
           Inr (Some (start, end)) \<Rightarrow>
             (let len = end - start + 1
              in \<lparr> resp_status = 206,
                   resp_headers =
                     [(''content-type'', content_type), (''accept-ranges'', ''bytes''),
                      (''content-range'', ''bytes '' @ u64_to_str start @ ''-'' @ u64_to_str end @ ''/'' @ u64_to_str file_len),
                      (''content-length'', u64_to_str len)],
                   resp_body = take (unat len) (drop (unat start) content) \<rparr>)
         | Inr None \<Rightarrow>
             \<lparr> resp_status = 200,
               resp_headers =
                 [(''content-type'', content_type), (''accept-ranges'', ''bytes''),
                  (''content-length'', u64_to_str file_len)],
               resp_body = content \<rparr>
         | Inl _ \<Rightarrow> range_not_satisfiable_response file_len)"

definition serve_file_from_root ::
  "(str list \<Rightarrow> str) \<Rightarrow> fs \<Rightarrow> path_component list \<Rightarrow> str \<Rightarrow> str option \<Rightarrow> http_response app_result" where
  "serve_file_from_root mime fs root requested_path range_hdr =
     rbind (sanitize_relative_path requested_path) (\<lambda>safe_path.
     let full_path = root @ map Normal safe_path
     in rbind (reject_symlink_components fs root full_path) (\<lambda>_.
        rbind (io_err (fs_canonicalize fs root)) (\<lambda>root_canonical.
        rbind (io_err_not_found (fs_canonicalize fs full_path)) (\<lambda>full_canonical.
          if take (length root_canonical) full_canonical \<noteq> root_canonical then Inl UnsafePath
          else rbind (open_regular_file_no_symlink fs full_canonical) (\<lambda>node.
            case node of
              FileNode content \<Rightarrow> Inr (range_response (mime full_canonical) range_hdr content)
            | _ \<Rightarrow> Inl NotFound)))))"

section \<open>Binary-cache members\<close>

definition binary_cache_member_cache_control :: "str \<Rightarrow> str" where
  "binary_cache_member_cache_control requested_path =
     (if starts_with requested_path ''nar/'' then ''public, max-age=31536000, immutable''
      else ''public, max-age=60'')"

definition valid_nix_base32 :: "str \<Rightarrow> nat \<Rightarrow> bool" where
  "valid_nix_base32 value expected_len =
     (length value = expected_len \<and> list_all (\<lambda>b. List.member nix_base32_alphabet b) value)"

fun find_map :: "('a \<Rightarrow> 'b option) \<Rightarrow> 'a list \<Rightarrow> 'b option" where
  "find_map f [] = None"
| "find_map f (x # xs) = (case f x of Some y \<Rightarrow> Some y | None \<Rightarrow> find_map f xs)"

definition valid_nar_member_filename :: "str \<Rightarrow> bool" where
  "valid_nar_member_filename filename =
     (case (case strip_suffix filename ''.nar'' of
              Some v \<Rightarrow> Some v
            | None \<Rightarrow> find_map (\<lambda>compression.
                Option.bind (strip_suffix filename compression) (\<lambda>value. strip_suffix value ''.nar''))
                nar_compression_suffixes) of
        None \<Rightarrow> False
      | Some without_nar \<Rightarrow> valid_nix_base32 without_nar 52)"

definition is_binary_cache_member_path :: "str \<Rightarrow> bool" where
  "is_binary_cache_member_path requested_path =
     (if trim requested_path \<noteq> requested_path \<or> contains requested_path ''//'' \<or>
         \<not> is_ok (sanitize_relative_path requested_path) then False
      else (case split_on CHR ''/'' requested_path of
              [filename] \<Rightarrow>
                filename = ''nix-cache-info'' \<or>
                (case strip_suffix filename ''.narinfo'' of
                   None \<Rightarrow> False | Some hash \<Rightarrow> valid_nix_base32 hash 32)
            | [dir, filename] \<Rightarrow> dir = ''nar'' \<and> valid_nar_member_filename filename
            | _ \<Rightarrow> False))"

definition insert_header :: "str \<Rightarrow> str \<Rightarrow> http_response \<Rightarrow> http_response" where
  "insert_header name value r =
     r \<lparr> resp_headers := filter (\<lambda>(n, _). n \<noteq> name) (resp_headers r) @ [(name, value)] \<rparr>"

definition serve_binary_cache_member_from_root ::
  "(str list \<Rightarrow> str) \<Rightarrow> fs \<Rightarrow> path_component list \<Rightarrow> str \<Rightarrow> str option \<Rightarrow> http_response app_result" where
  "serve_binary_cache_member_from_root mime fs root requested_path range_hdr =
     (if \<not> is_binary_cache_member_path requested_path then Inl NotFound
      else rbind (serve_file_from_root mime fs root requested_path range_hdr) (\<lambda>response.
        Inr (insert_header ''cache-control'' (binary_cache_member_cache_control requested_path) response)))"

definition redirect_to :: "str \<Rightarrow> http_response" where
  "redirect_to location =
     \<lparr> resp_status = 303, resp_headers = [(''location'', location)], resp_body = [] \<rparr>"

section \<open>Sanitised paths\<close>

definition kept_segment :: "str \<Rightarrow> bool" where
  "kept_segment s = (s \<noteq> [] \<and> s \<noteq> ''.'')"

lemma segment_components_alt:
  "segment_components ss = map (\<lambda>s. if s = ''..'' then ParentDir else Normal s) (filter kept_segment ss)"
  by (induction ss) (auto simp: kept_segment_def)

lemma push_normal_append: "push_normal_components (map Normal ps @ cs) out = push_normal_components cs (out @ ps)"
  by (induction ps arbitrary: out) auto

lemma push_normal_components_eq_Inr:
  "push_normal_components cs out = Inr ps \<longleftrightarrow> (\<exists>qs. cs = map Normal qs \<and> ps = out @ qs)"
proof (induction cs out rule: push_normal_components.induct)
  case (2 part cs out)
  then show ?case by (auto simp: Cons_eq_map_conv)
qed auto

lemma map_parent_Normal:
  "map (\<lambda>s. if s = ''..'' then ParentDir else Normal s) xs = map Normal qs \<longleftrightarrow> ''..'' \<notin> set xs \<and> qs = xs"
  by (induction xs arbitrary: qs) (auto simp: Cons_eq_map_conv)

lemma sanitize_relative_path_eq_Inr:
  "sanitize_relative_path s = Inr parts \<longleftrightarrow>
     \<not> starts_with (trim s) ''/'' \<and> \<not> starts_with (trim s) [CHR 0x5C] \<and>
     hd (split_on CHR ''/'' (trim s)) \<noteq> ''.'' \<and> ''..'' \<notin> set (split_on CHR ''/'' (trim s)) \<and>
     parts = filter kept_segment (split_on CHR ''/'' (trim s)) \<and> parts \<noteq> []"
proof -
  define segs where "segs = split_on CHR ''/'' (trim s)"
  have ne: "segs \<noteq> []" by (simp add: segs_def)
  have empty: "trim s = [] \<Longrightarrow> segs = [[]]" by (simp add: segs_def)
  have dd: "''..'' \<in> set (filter kept_segment segs) \<longleftrightarrow> ''..'' \<in> set segs"
    by (auto simp: kept_segment_def)
  have pc: "path_components (trim s) =
      (if hd segs = ''.'' then CurDir # segment_components (tl segs) else segment_components segs)"
    if "\<not> starts_with (trim s) ''/''"
    using that ne by (cases segs) (auto simp: path_components_def segs_def)
  show ?thesis
    unfolding sanitize_relative_path_def Let_def segs_def [symmetric]
    using ne empty dd
    by (auto simp: pc result_simps push_normal_components_eq_Inr segment_components_alt map_parent_Normal
        Cons_eq_map_conv kept_segment_def split: if_splits)
qed

lemma sanitized_part:
  assumes "sanitize_relative_path s = Inr parts" and "p \<in> set parts"
  shows "p \<noteq> [] \<and> p \<noteq> ''.'' \<and> p \<noteq> ''..'' \<and> CHR ''/'' \<notin> set p"
  using assms split_on_no_sep [of p "CHR ''/''" "trim s"]
  by (auto simp: sanitize_relative_path_eq_Inr kept_segment_def)

section \<open>Byte ranges stay inside the file\<close>

lemma unat_pred: "n \<noteq> 0 \<Longrightarrow> unat (n - 1 :: u64) = unat n - 1 \<and> 0 < unat n"
  by (simp add: unat_minus_one unat_gt_0)

lemma parse_byte_range_bounds:
  assumes "parse_byte_range r n = Inr (Some (start, end))"
  shows "start \<le> end \<and> end < n"
proof -
  have pos: "n - 1 < n" "a \<le> n - 1 \<Longrightarrow> a < n" if "n \<noteq> 0" for a
    using unat_pred [OF that] by (auto simp: word_less_nat_alt word_le_nat_alt)
  have "sat_sub n k \<le> n - 1" if "n \<noteq> 0" "k \<noteq> 0" for k
    using unat_pred [OF that(1)] unat_pred [OF that(2)] unfolding word_le_nat_alt unat_sat_sub
    by linarith
  with assms pos show ?thesis
    by (auto simp: parse_byte_range_def Let_def result_simps not_less min_def
        split: option.splits if_splits prod.splits)
qed

lemma range_len:
  assumes "start \<le> end" and "end < (n :: u64)"
  shows "unat (end - start + 1) = unat end - unat start + 1"
proof -
  have "unat (end - start) = unat end - unat start" using assms(1) by (rule unat_sub)
  moreover have "unat end < unat n" and "unat n < 2 ^ 64"
    using assms(2) unat_less_exp [of n] by (auto simp: word_less_nat_alt)
  ultimately show ?thesis by (simp add: unat_word_ariths)
qed

lemma range_response_cases:
  assumes "length content < 2 ^ 64"
  obtains (partial) start len where
      "resp_status (range_response ct r content) = 206"
      "0 < len" "start + len \<le> length content"
      "resp_body (range_response ct r content) = take len (drop start content)"
      "map_of (resp_headers (range_response ct r content)) ''content-length'' = Some (nat_to_str len)"
  | (whole) "resp_status (range_response ct r content) = 200"
      "resp_body (range_response ct r content) = content"
      "map_of (resp_headers (range_response ct r content)) ''content-length'' = Some (nat_to_str (length content))"
  | (unsat) "resp_status (range_response ct r content) = 416" "resp_body (range_response ct r content) = []"
proof -
  let ?n = "of_nat (length content) :: u64"
  have n: "unat ?n = length content" using assms by (simp add: unat_of_nat_small)
  consider (a) start "end" where "parse_byte_range r ?n = Inr (Some (start, end))"
    | (b) "parse_byte_range r ?n = Inr None" | (c) "parse_byte_range r ?n = Inl ()"
    by (cases "parse_byte_range r ?n") (auto, metis not_None_eq surj_pair)
  then show thesis
  proof cases
    case a
    from parse_byte_range_bounds [OF a] have *: "start \<le> end" "end < ?n" by auto
    then have "unat start \<le> unat end" and "unat end < length content"
      using n by (auto simp: word_le_nat_alt word_less_nat_alt)
    then show thesis
      using a range_len [OF *] by (intro partial [of "unat end - unat start + 1" "unat start"])
        (simp_all add: range_response_def u64_to_str_def)
  next
    case b
    then show thesis by (intro whole) (simp_all add: range_response_def u64_to_str_def n)
  next
    case c
    then show thesis by (intro unsat) (simp_all add: range_response_def range_not_satisfiable_response_def)
  qed
qed

section \<open>Path walks\<close>

text \<open>Every proper prefix of a resolved name is a directory.\<close>

definition dirs :: "fs \<Rightarrow> str list \<Rightarrow> bool" where
  "dirs fs p = (\<forall>k. 0 < k \<and> k \<le> length p \<longrightarrow> fs (take k p) = Some DirNode)"

lemma dirs_Nil [simp]: "dirs fs []"
  by (simp add: dirs_def)

lemma dirs_snoc: "dirs fs (p @ [s]) \<longleftrightarrow> dirs fs p \<and> fs (p @ [s]) = Some DirNode"
  by (auto simp: dirs_def le_Suc_eq)

lemma dirs_butlast: "dirs fs p \<Longrightarrow> dirs fs (butlast p)"
  by (cases p rule: rev_cases) (auto simp: dirs_snoc)

lemma fs_resolve_shape:
  "fs_resolve n fs cur cs = Inr p \<Longrightarrow> dirs fs cur \<Longrightarrow>
     dirs fs p \<or> (p \<noteq> [] \<and> dirs fs (butlast p) \<and> (\<exists>c. fs p = Some (FileNode c)))"
proof (induction n fs cur cs rule: fs_resolve.induct)
  case (5 n fs cur s cs)
  then show ?case
    by (auto simp: dirs_snoc split: option.splits fs_node.splits if_splits nat.splits)
qed (auto simp: dirs_butlast)

lemma fs_resolve_dirs: "dirs fs (cur @ q) \<Longrightarrow> fs_resolve n fs cur (map Normal q) = Inr (cur @ q)"
proof (induction q arbitrary: cur)
  case (Cons s q)
  then have "fs (take (Suc (length cur)) (cur @ s # q)) = Some DirNode"
    unfolding dirs_def by (metis Suc_leI length_append length_Cons less_add_Suc1 add_Suc_right zero_less_Suc)
  then have "fs (cur @ [s]) = Some DirNode" by simp
  with Cons show ?case by simp
qed simp

lemma fs_resolve_append:
  "fs_resolve n fs cur (xs @ ys) = Inr p \<Longrightarrow>
     \<exists>d m. fs_resolve n fs cur xs = Inr d \<and> fs_resolve m fs d ys = Inr p"
proof (induction n fs cur xs rule: fs_resolve.induct)
  case (5 n fs cur s cs)
  then show ?case
    by (auto split: option.splits fs_node.splits if_splits nat.splits)
qed auto

lemma io_err_eq_Inr [result_simps]: "io_err m = Inr x \<longleftrightarrow> m = Inr x"
  "io_err_not_found m = Inr x \<longleftrightarrow> m = Inr x"
  by (auto simp: io_err_def io_err_not_found_def split: sum.splits)

lemma case_file_eq_Inr:
  "(case node of FileNode c \<Rightarrow> Inr (f c) | _ \<Rightarrow> Inl e) = Inr x \<longleftrightarrow> (\<exists>c. node = FileNode c \<and> f c = x)"
  by (cases node) auto

lemma case_link_eq_Inr:
  "(case node of LinkNode _ \<Rightarrow> Inl e | _ \<Rightarrow> m) = Inr x \<longleftrightarrow> (\<forall>t. node \<noteq> LinkNode t) \<and> m = Inr x"
  by (cases node) auto

lemma fs_lstat_snoc:
  "fs_lstat fs (cur @ [Normal s]) =
     (if has_nul (cur @ [Normal s]) then Inl IoInvalidInput
      else rbind (fs_resolve link_limit fs [] cur) (\<lambda>d. ok_or (fs (d @ [s])) IoNotFound))"
  by (cases cur) (simp_all add: fs_lstat_def)

text \<open>When no component below the root is a link, the walk adds exactly the requested names.\<close>

lemma reject_symlinks_from_exact:
  assumes "reject_symlinks_from fs cur (map Normal parts) = Inr ()"
    and "fs_resolve link_limit fs [] cur = Inr d"
    and "fs_resolve link_limit fs [] (cur @ map Normal parts) = Inr p"
  shows "p = d @ parts"
  using assms
proof (induction parts arbitrary: cur d)
  case (Cons s parts)
  let ?cur' = "cur @ [Normal s]"
  have node: "\<exists>node. fs (d @ [s]) = Some node \<and> (\<forall>t. node \<noteq> LinkNode t)"
    and rest: "reject_symlinks_from fs ?cur' (map Normal parts) = Inr ()"
    using Cons.prems(1,2)
    by (auto simp: Let_def fs_lstat_snoc case_link_eq_Inr result_simps split: if_splits)
  have full: "fs_resolve link_limit fs [] (?cur' @ map Normal parts) = Inr p"
    using Cons.prems(3) by simp
  then obtain e where e: "fs_resolve link_limit fs [] ?cur' = Inr e"
    using fs_resolve_append by blast
  then obtain m where "fs_resolve m fs d [Normal s] = Inr e"
    using fs_resolve_append [OF e] Cons.prems(2) by auto
  then have "e = d @ [s]"
    using node by (auto split: fs_node.splits)
  with Cons.IH [OF rest _ full] e show ?case by simp
qed simp

lemma has_nul_append [simp]: "has_nul (xs @ ys) \<longleftrightarrow> has_nul xs \<or> has_nul ys"
  by (simp add: has_nul_def)

lemma fs_canonicalize_eq_Inr:
  "fs_canonicalize fs p = Inr q \<longleftrightarrow> \<not> has_nul p \<and> fs_resolve link_limit fs [] p = Inr q"
  by (auto simp: fs_canonicalize_def)

text \<open>The opened entry is the one the canonical name stands for.\<close>

lemma open_canonical:
  assumes "fs_resolve link_limit fs [] p = Inr q"
    and "open_regular_file_no_symlink fs q = Inr (FileNode content)"
  shows "fs q = Some (FileNode content)"
proof (cases q rule: rev_cases)
  case Nil
  then show ?thesis
    using assms(2) by (auto simp: open_regular_file_no_symlink_def fs_lstat_def has_nul_def
        split: if_splits)
next
  case (snoc d s)
  have "dirs fs d"
    using fs_resolve_shape [OF assms(1)] snoc by (auto simp: dirs_snoc)
  then have "fs_resolve link_limit fs [] (RootDir # map Normal d) = Inr d"
    using fs_resolve_dirs [of fs "[]" d link_limit] by simp
  then have "fs_lstat fs ((RootDir # map Normal d) @ [Normal s]) =
      (if has_nul ((RootDir # map Normal d) @ [Normal s]) then Inl IoInvalidInput
       else ok_or (fs (d @ [s])) IoNotFound)"
    unfolding fs_lstat_snoc by simp
  with assms(2) snoc show ?thesis
    by (auto simp: open_regular_file_no_symlink_def ok_or_def
        split: sum.splits if_splits option.splits fs_node.splits io_error.splits)
qed

text \<open>A successful response is a regular file at exactly the sanitised name below the root.\<close>

lemma serve_file_from_root_ok:
  assumes "serve_file_from_root mime fs root path r = Inr resp"
  obtains parts base content where
    "sanitize_relative_path path = Inr parts" "fs_canonicalize fs root = Inr base"
    "fs (base @ parts) = Some (FileNode content)"
    "resp = range_response (mime (base @ parts)) r content"
proof -
  from assms obtain parts base full content where
    parts: "sanitize_relative_path path = Inr parts"
    and rej: "reject_symlink_components fs root (root @ map Normal parts) = Inr ()"
    and base: "fs_canonicalize fs root = Inr base"
    and full: "fs_canonicalize fs (root @ map Normal parts) = Inr full"
    and opened: "open_regular_file_no_symlink fs full = Inr (FileNode content)"
    and resp: "resp = range_response (mime full) r content"
    by (auto simp: serve_file_from_root_def Let_def result_simps case_file_eq_Inr split: if_splits)
  have "full = base @ parts"
  proof (rule reject_symlinks_from_exact)
    show "reject_symlinks_from fs root (map Normal parts) = Inr ()"
      using rej by (simp add: reject_symlink_components_def)
  qed (use base full in \<open>simp_all add: fs_canonicalize_eq_Inr\<close>)
  moreover have "fs full = Some (FileNode content)"
    using full opened by (auto simp: fs_canonicalize_eq_Inr intro: open_canonical)
  ultimately show thesis using that parts base resp by simp
qed

section \<open>Binary-cache names\<close>

definition nar_filename :: "str \<Rightarrow> str \<Rightarrow> str" where
  "nar_filename hash suffix = hash @ ''.nar'' @ suffix"

lemma strip_suffix_eq_Some: "strip_suffix s p = Some t \<longleftrightarrow> s = t @ p"
  by (auto simp: strip_suffix_def ends_with_iff)

lemma find_map_eq_Some: "find_map f xs = Some y \<Longrightarrow> \<exists>x \<in> set xs. f x = Some y"
  by (induction xs) (auto split: option.splits)

lemma valid_nar_member_filename_shape:
  "valid_nar_member_filename f \<Longrightarrow>
     \<exists>hash suffix. f = nar_filename hash suffix \<and> valid_nix_base32 hash 52 \<and>
       suffix \<in> set ([] # nar_compression_suffixes)"
  unfolding valid_nar_member_filename_def nar_filename_def
  by (fastforce simp: strip_suffix_eq_Some Option.bind_eq_Some_conv split: option.splits dest!: find_map_eq_Some)

lemma is_binary_cache_member_path_shape:
  assumes "is_binary_cache_member_path p"
  shows "p = ''nix-cache-info'' \<or>
         (\<exists>hash. p = hash @ ''.narinfo'' \<and> valid_nix_base32 hash 32) \<or>
         (\<exists>hash suffix. p = ''nar/'' @ nar_filename hash suffix \<and> valid_nix_base32 hash 52 \<and>
            suffix \<in> set ([] # nar_compression_suffixes))"
proof -
  have j: "join ''/'' (split_on CHR ''/'' p) = p" by simp
  from assms consider (one) f where "split_on CHR ''/'' p = [f]"
      "f = ''nix-cache-info'' \<or> (\<exists>hash. f = hash @ ''.narinfo'' \<and> valid_nix_base32 hash 32)"
    | (two) f where "split_on CHR ''/'' p = [''nar'', f]" "valid_nar_member_filename f"
    by (auto simp: is_binary_cache_member_path_def strip_suffix_eq_Some
        split: if_splits list.splits option.splits)
  then show ?thesis
  proof cases
    case one
    then show ?thesis using j by auto
  next
    case two
    then have "p = ''nar/'' @ f" using j by simp
    with valid_nar_member_filename_shape [OF two(2)] show ?thesis by blast
  qed
qed

section \<open>Properties\<close>

text \<open>The path sanitiser accepts a path exactly when, trimmed, it has no leading
  separator, no leading dot segment, no parent segment and at least one name, and it
  returns the names in order; no returned name is empty, a dot segment or contains a
  separator.\<close>

theorem sanitize_relative_path_spec:
  "(sanitize_relative_path s = Inr parts \<longleftrightarrow>
     \<not> starts_with (trim s) ''/'' \<and> \<not> starts_with (trim s) [CHR 0x5C] \<and>
     hd (split_on CHR ''/'' (trim s)) \<noteq> ''.'' \<and> ''..'' \<notin> set (split_on CHR ''/'' (trim s)) \<and>
     parts = filter kept_segment (split_on CHR ''/'' (trim s)) \<and> parts \<noteq> []) \<and>
   (\<nexists>p. p \<in> set (case sanitize_relative_path s of Inr ps \<Rightarrow> ps | Inl _ \<Rightarrow> []) \<and>
        (p = [] \<or> p = ''.'' \<or> p = ''..'' \<or> CHR ''/'' \<in> set p))"
proof (intro conjI notI)
  assume "\<exists>p. p \<in> set (case sanitize_relative_path s of Inr ps \<Rightarrow> ps | Inl _ \<Rightarrow> []) \<and>
        (p = [] \<or> p = ''.'' \<or> p = ''..'' \<or> CHR ''/'' \<in> set p)"
  then obtain p ps where "sanitize_relative_path s = Inr ps" "p \<in> set ps"
    "p = [] \<or> p = ''.'' \<or> p = ''..'' \<or> CHR ''/'' \<in> set p"
    by (cases "sanitize_relative_path s") auto
  with sanitized_part show False by blast
qed (rule sanitize_relative_path_eq_Inr)

text \<open>C3: every successful file response is the (possibly sliced) content of the regular
  file at exactly the sanitised name below the resolved root; no symbolic link below the
  root is followed.\<close>

theorem served_file_is_below_root:
  assumes "serve_file_from_root mime fs root path r = Inr resp"
  shows "\<exists>parts base content. sanitize_relative_path path = Inr parts \<and>
           fs_canonicalize fs root = Inr base \<and> fs (base @ parts) = Some (FileNode content) \<and>
           resp = range_response (mime (base @ parts)) r content"
  using serve_file_from_root_ok [OF assms] by metis

theorem served_file_is_below_root_witness:
  "\<exists>resp parts base content.
     serve_file_from_root (\<lambda>_. ''text/plain'')
       (\<lambda>p. if p = [''srv''] then Some DirNode
            else if p = [''srv'', ''a''] then Some (FileNode ''abc'') else None)
       [RootDir, Normal ''srv''] ''a'' (Some ''bytes=1-'') = Inr resp \<and>
     resp_body resp = ''bc'' \<and> sanitize_relative_path ''a'' = Inr parts \<and>
     resp = range_response ''text/plain'' (Some ''bytes=1-'') content"
proof -
  let ?fs = "\<lambda>p. if p = [''srv''] then Some DirNode
            else if p = [''srv'', ''a''] then Some (FileNode ''abc'') else None"
  have ok: "serve_file_from_root (\<lambda>_. ''text/plain'') ?fs [RootDir, Normal ''srv''] ''a'' (Some ''bytes=1-'') =
    Inr \<lparr> resp_status = 206,
          resp_headers = [(''content-type'', ''text/plain''), (''accept-ranges'', ''bytes''),
                          (''content-range'', ''bytes 1-2/3''), (''content-length'', ''2'')],
          resp_body = ''bc'' \<rparr>" by code_simp
  from served_file_is_below_root [OF ok] ok show ?thesis by auto
qed

text \<open>C35: a satisfiable byte range is a non-empty interval inside the file, the body is that
  slice and the length header states its length; a response without a range is the whole
  file; an unsatisfiable range has an empty body.\<close>

theorem range_response_spec:
  assumes "length content < 2 ^ 64"
  shows "case parse_byte_range r (of_nat (length content)) of
           Inr (Some (start, end)) \<Rightarrow>
             start \<le> end \<and> unat end < length content \<and>
             resp_status (range_response ct r content) = 206 \<and>
             resp_body (range_response ct r content) =
               take (unat end - unat start + 1) (drop (unat start) content) \<and>
             map_of (resp_headers (range_response ct r content)) ''content-length'' =
               Some (nat_to_str (length (resp_body (range_response ct r content))))
         | Inr None \<Rightarrow>
             resp_status (range_response ct r content) = 200 \<and>
             resp_body (range_response ct r content) = content \<and>
             map_of (resp_headers (range_response ct r content)) ''content-length'' = Some (nat_to_str (length content))
         | Inl _ \<Rightarrow> resp_status (range_response ct r content) = 416 \<and> resp_body (range_response ct r content) = []"
proof -
  let ?n = "of_nat (length content) :: u64"
  have n: "unat ?n = length content" using assms by (simp add: unat_of_nat_small)
  show ?thesis
  proof (cases "parse_byte_range r ?n")
    case (Inl u)
    then show ?thesis by (simp add: range_response_def range_not_satisfiable_response_def)
  next
    case (Inr o')
    show ?thesis
    proof (cases o')
      case None
      then show ?thesis using Inr by (simp add: range_response_def u64_to_str_def n)
    next
      case (Some se)
      obtain start "end" where se: "se = (start, end)" by (rule prod.exhaust)
      have b: "start \<le> end" "end < ?n"
        using parse_byte_range_bounds [of r ?n start "end"] Inr Some se by simp_all
      have le: "unat start \<le> unat end" and lt: "unat end < length content"
        using b n by (simp_all add: word_le_nat_alt word_less_nat_alt)
      have "length (take (unat end - unat start + 1) (drop (unat start) content)) = unat end - unat start + 1"
        using le lt by simp
      then show ?thesis
        using Inr Some se b(1) lt by (simp add: range_response_def u64_to_str_def range_len [OF b] del: length_take length_drop)
    qed
  qed
qed

theorem range_response_spec_witness:
  "length ''abcdef'' < 2 ^ 64 \<and> parse_byte_range (Some ''bytes=2-'') (of_nat (length ''abcdef'')) = Inr (Some (2, 5)) \<and>
   resp_body (range_response ''text/plain'' (Some ''bytes=2-'') ''abcdef'') = ''cdef''"
proof -
  have l: "length ''abcdef'' < (2::nat) ^ 64" by simp
  have p: "parse_byte_range (Some ''bytes=2-'') (of_nat (length ''abcdef'')) = Inr (Some (2, 5))" by code_simp
  have "resp_body (range_response ''text/plain'' (Some ''bytes=2-'') ''abcdef'') =
      take (unat (5 :: u64) - unat (2 :: u64) + 1) (drop (unat (2 :: u64)) ''abcdef'')"
    using range_response_spec [where r = "Some ''bytes=2-''" and ct = "''text/plain''", OF l, unfolded p] by simp
  with p l show ?thesis by simp
qed

text \<open>The unauthenticated cache route serves only the three name shapes of a Nix static
  binary cache: the cache description, a store-hash narinfo, and a file-hash NAR with one of
  the known compression suffixes.\<close>

theorem binary_cache_serves_members_only:
  assumes "serve_binary_cache_member_from_root mime fs root path r = Inr resp"
  shows "path = ''nix-cache-info'' \<or>
         (\<exists>hash. path = hash @ ''.narinfo'' \<and> valid_nix_base32 hash 32) \<or>
         (\<exists>hash suffix. path = ''nar/'' @ nar_filename hash suffix \<and> valid_nix_base32 hash 52 \<and>
            suffix \<in> set ([] # nar_compression_suffixes))"
  using assms by (intro is_binary_cache_member_path_shape)
    (auto simp: serve_binary_cache_member_from_root_def split: if_splits)

theorem binary_cache_serves_members_only_witness:
  "\<exists>resp. serve_binary_cache_member_from_root (\<lambda>_. ''text/plain'')
     (\<lambda>p. if p = [''srv''] then Some DirNode
          else if p = [''srv'', ''00000000000000000000000000000000.narinfo''] then Some (FileNode ''abc'') else None)
     [RootDir, Normal ''srv''] ''00000000000000000000000000000000.narinfo'' None = Inr resp \<and>
   (\<exists>hash. ''00000000000000000000000000000000.narinfo'' = hash @ ''.narinfo'' \<and> valid_nix_base32 hash 32)"
proof -
  let ?s = "serve_binary_cache_member_from_root (\<lambda>_. ''text/plain'')
     (\<lambda>p. if p = [''srv''] then Some DirNode
          else if p = [''srv'', ''00000000000000000000000000000000.narinfo''] then Some (FileNode ''abc'') else None)
     [RootDir, Normal ''srv''] ''00000000000000000000000000000000.narinfo'' None"
  have "is_ok ?s" by code_simp
  then obtain resp where resp: "?s = Inr resp" unfolding is_ok_iff by (elim exE)
  from binary_cache_serves_members_only [OF resp]
  have "\<exists>hash. ''00000000000000000000000000000000.narinfo'' = hash @ ''.narinfo'' \<and> valid_nix_base32 hash 32"
    by (elim disjE) simp_all
  with resp show ?thesis by (intro exI [of _ resp] conjI)
qed

end
