(* ===== verification/Nest_Db.thy ===== *)
theory Nest_Db
  imports Nest_Models
begin

text \<open>
  Database code: a function of \<^verbatim>\<open>src/src/db.rs\<close> takes the store and returns its result
  with the store it leaves, also when it fails (statements before the failing one
  stay executed unless the code runs them in a transaction). The error type is a parameter:
  \<^verbatim>\<open>db.rs\<close> fails with an \<^verbatim>\<open>AppError\<close>, other modules with errors of their own. A small Hoare logic over
  these functions carries the invariant proofs of the stores.
\<close>

named_theorems db_rules \<open>triples of the statements of a store\<close>

type_synonym ('s, 'e, 'a) edb = "'s \<Rightarrow> ('e + 'a) \<times> 's"

type_synonym ('s, 'a) db = "('s, app_error, 'a) edb"

definition db_ret :: "'a \<Rightarrow> ('s, 'e, 'a) edb" where
  "db_ret x s = (Inr x, s)"

definition db_err :: "'e \<Rightarrow> ('s, 'e, 'a) edb" where
  "db_err e s = (Inl e, s)"

definition db_lift :: "'e + 'a \<Rightarrow> ('s, 'e, 'a) edb" where
  "db_lift r s = (r, s)"

text \<open>A query: reads the store.\<close>

definition db_get :: "('s \<Rightarrow> 'a) \<Rightarrow> ('s, 'e, 'a) edb" where
  "db_get f s = (Inr (f s), s)"

definition db_bind :: "('s, 'e, 'a) edb \<Rightarrow> ('a \<Rightarrow> ('s, 'e, 'b) edb) \<Rightarrow> ('s, 'e, 'b) edb" where
  "db_bind m f s = (case m s of (Inl e, s') \<Rightarrow> (Inl e, s') | (Inr x, s') \<Rightarrow> f x s')"

definition db_then :: "('s, 'e, 'a) edb \<Rightarrow> ('s, 'e, 'b) edb \<Rightarrow> ('s, 'e, 'b) edb" where
  "db_then m k = db_bind m (\<lambda>_. k)"

text \<open>A transaction: a failure restores the store it started from.\<close>

definition db_transaction :: "('s, 'e, 'a) edb \<Rightarrow> ('s, 'e, 'a) edb" where
  "db_transaction m s = (case m s of (Inl e, _) \<Rightarrow> (Inl e, s) | (Inr x, s') \<Rightarrow> (Inr x, s'))"

text \<open>A call whose failure the caller handles: the outcome as a value.\<close>

definition db_try :: "('s, 'e, 'a) edb \<Rightarrow> ('s, 'e, 'e + 'a) edb" where
  "db_try m s = (case m s of (r, s') \<Rightarrow> (Inr r, s'))"

lemma db_try_simp [simp]: "m s = (r, s') \<Longrightarrow> db_try m s = (Inr r, s')" by (simp add: db_try_def)
lemma db_ret_simp [simp]: "db_ret x s = (Inr x, s)" by (simp add: db_ret_def)
lemma db_err_simp [simp]: "db_err e s = (Inl e, s)" by (simp add: db_err_def)
lemma db_lift_simp [simp]: "db_lift r s = (r, s)" by (simp add: db_lift_def)
lemma db_get_simp [simp]: "db_get f s = (Inr (f s), s)" by (simp add: db_get_def)

lemma db_bind_err [simp]: "m s = (Inl e, s') \<Longrightarrow> db_bind m f s = (Inl e, s')"
  by (simp add: db_bind_def)

lemma db_bind_ok [simp]: "m s = (Inr x, s') \<Longrightarrow> db_bind m f s = f x s'"
  by (simp add: db_bind_def)

lemma db_then_err [simp]: "m s = (Inl e, s') \<Longrightarrow> db_then m k s = (Inl e, s')"
  by (simp add: db_then_def)

lemma db_then_ok [simp]: "m s = (Inr x, s') \<Longrightarrow> db_then m k s = k s'"
  by (simp add: db_then_def)

lemma db_bind_eq_Inr [result_simps]:
  "db_bind m f s = (Inr y, t) \<longleftrightarrow> (\<exists>x s'. m s = (Inr x, s') \<and> f x s' = (Inr y, t))"
  by (auto simp: db_bind_def split: prod.splits sum.splits)

lemma db_bind_eq_Inl [result_simps]:
  "db_bind m f s = (Inl e, t) \<longleftrightarrow>
     m s = (Inl e, t) \<or> (\<exists>x s'. m s = (Inr x, s') \<and> f x s' = (Inl e, t))"
  by (auto simp: db_bind_def split: prod.splits sum.splits)

lemma db_bind_lift_eq_Inr: "db_bind (db_lift r) f s = (Inr y, t) \<longleftrightarrow> (\<exists>x. r = Inr x \<and> f x s = (Inr y, t))"
  by (auto simp: db_bind_def split: sum.splits)

lemma db_then_lift_eq_Inr: "db_then (db_lift r) k s = (Inr y, t) \<longleftrightarrow> (\<exists>x. r = Inr x \<and> k s = (Inr y, t))"
  by (auto simp: db_then_def db_bind_def split: sum.splits)

lemmas lift_eq_Inr = db_bind_lift_eq_Inr db_then_lift_eq_Inr

lemma db_then_eq_Inr [result_simps]:
  "db_then m k s = (Inr y, t) \<longleftrightarrow> (\<exists>x s'. m s = (Inr x, s') \<and> k s' = (Inr y, t))"
  by (simp add: db_then_def db_bind_eq_Inr)

lemma db_then_eq_Inl [result_simps]:
  "db_then m k s = (Inl e, t) \<longleftrightarrow> m s = (Inl e, t) \<or> (\<exists>x s'. m s = (Inr x, s') \<and> k s' = (Inl e, t))"
  by (simp add: db_then_def db_bind_eq_Inl)

section \<open>Triples\<close>

text \<open>\<open>triple P m Q E\<close>: from a store in \<open>P\<close>, success gives \<open>Q\<close> and failure gives \<open>E\<close>.\<close>

definition triple :: "('s \<Rightarrow> bool) \<Rightarrow> ('s, 'e, 'a) edb \<Rightarrow> ('a \<Rightarrow> 's \<Rightarrow> bool) \<Rightarrow> ('s \<Rightarrow> bool) \<Rightarrow> bool" where
  "triple P m Q E = (\<forall>s. P s \<longrightarrow> (case m s of (Inl e, s') \<Rightarrow> E s' | (Inr x, s') \<Rightarrow> Q x s'))"

text \<open>Every outcome keeps the predicate.\<close>

definition keeps :: "('s \<Rightarrow> bool) \<Rightarrow> ('s, 'e, 'a) edb \<Rightarrow> bool" where
  "keeps P m = triple P m (\<lambda>_. P) P"

lemma keeps_iff: "keeps P m \<longleftrightarrow> (\<forall>s. P s \<longrightarrow> P (snd (m s)))"
  by (auto simp: keeps_def triple_def split: prod.splits sum.splits) (metis surjective_pairing)

lemma keepsD: "keeps P m \<Longrightarrow> P s \<Longrightarrow> m s = (r, t) \<Longrightarrow> P t"
  unfolding keeps_iff by (metis snd_conv)

lemma keeps_snd: "keeps P m \<Longrightarrow> P s \<Longrightarrow> P (snd (m s))"
  by (simp add: keeps_iff)

lemma triple_bind:
  "triple P m R E \<Longrightarrow> (\<And>x. triple (R x) (f x) Q E) \<Longrightarrow> triple P (db_bind m f) Q E"
  by (fastforce simp: triple_def db_bind_def split: prod.splits sum.splits)

lemma triple_weaken: "triple P m Q E \<Longrightarrow> (\<And>s. P' s \<Longrightarrow> P s) \<Longrightarrow> (\<And>x s. Q x s \<Longrightarrow> Q' x s) \<Longrightarrow> triple P' m Q' E"
  by (fastforce simp: triple_def split: prod.splits sum.splits)

lemma keeps_ret [db_rules, intro]: "keeps P (db_ret x)" by (simp add: keeps_iff)
lemma keeps_err [db_rules, intro]: "keeps P (db_err e)" by (simp add: keeps_iff)
lemma keeps_lift [db_rules, intro]: "keeps P (db_lift r)" by (simp add: keeps_iff)
lemma keeps_get [db_rules, intro]: "keeps P (db_get f)" by (simp add: keeps_iff)

lemma keeps_bind [db_rules, intro]: "keeps P m \<Longrightarrow> (\<And>x. keeps P (f x)) \<Longrightarrow> keeps P (db_bind m f)"
  unfolding keeps_def by (rule triple_bind)

lemma keeps_then [db_rules, intro]: "keeps P m \<Longrightarrow> keeps P k \<Longrightarrow> keeps P (db_then m k)"
  unfolding db_then_def by (rule keeps_bind)

lemma keeps_if [db_rules, intro]: "(b \<Longrightarrow> keeps P m) \<Longrightarrow> (\<not> b \<Longrightarrow> keeps P k) \<Longrightarrow> keeps P (if b then m else k)"
  by simp

lemma keeps_option [db_rules, intro]:
  "(x = None \<Longrightarrow> keeps P m) \<Longrightarrow> (\<And>y. x = Some y \<Longrightarrow> keeps P (f y)) \<Longrightarrow>
     keeps P (case x of None \<Rightarrow> m | Some y \<Rightarrow> f y)"
  by (cases x) simp_all

lemma keeps_transaction [db_rules, intro]: "keeps P m \<Longrightarrow> keeps P (db_transaction m)"
  by (auto simp: keeps_iff db_transaction_def split: prod.splits sum.splits)

lemma keeps_try [db_rules, intro]: "keeps P m \<Longrightarrow> keeps P (db_try m)"
  by (auto simp: keeps_iff db_try_def split: prod.splits)

lemma keeps_sum [db_rules, intro]:
  "(\<And>e. x = Inl e \<Longrightarrow> keeps P (f e)) \<Longrightarrow> (\<And>y. x = Inr y \<Longrightarrow> keeps P (g y)) \<Longrightarrow>
     keeps P (case x of Inl e \<Rightarrow> f e | Inr y \<Rightarrow> g y)"
  by (cases x) simp_all

lemma keeps_prod [db_rules, intro]: "(\<And>a b. x = (a, b) \<Longrightarrow> keeps P (f a b)) \<Longrightarrow> keeps P (case x of (a, b) \<Rightarrow> f a b)"
  by (cases x) simp

text \<open>A store-dependent continuation after a check that reads the store.\<close>

lemma keeps_bind_get:
  "(\<And>s. P s \<Longrightarrow> P (snd (f (g s) s))) \<Longrightarrow> keeps P (db_bind (db_get g) f)"
  by (simp add: keeps_iff db_bind_def)

lemma keeps_bind_lift [db_rules, intro]:
  "(\<And>x. r = Inr x \<Longrightarrow> keeps P (f x)) \<Longrightarrow> keeps P (db_bind (db_lift r) f)"
  by (cases r) (auto simp: keeps_iff db_bind_def)

lemma keeps_then_lift [db_rules, intro]:
  "(\<And>x. r = Inr x \<Longrightarrow> keeps P k) \<Longrightarrow> keeps P (db_then (db_lift r) k)"
  by (cases r) (auto simp: keeps_iff db_then_def db_bind_def)

text \<open>A check that leaves the store alone and establishes a fact about it.\<close>

definition checks :: "('s, 'e, 'a) edb \<Rightarrow> ('s \<Rightarrow> bool) \<Rightarrow> bool" where
  "checks m Q = (\<forall>s. snd (m s) = s \<and> (\<forall>x. fst (m s) = Inr x \<longrightarrow> Q s))"

lemma checks_cases:
  assumes "checks m Q"
  obtains e where "m s = (Inl e, s)" | x where "m s = (Inr x, s)" "Q s"
proof (cases "fst (m s)")
  case (Inl e)
  with assms have "m s = (Inl e, s)" unfolding checks_def by (metis prod.collapse)
  then show thesis by (rule that)
next
  case (Inr x)
  with assms have "m s = (Inr x, s)" "Q s" unfolding checks_def by (metis prod.collapse)+
  then show thesis by (rule that)
qed

lemma keeps_check:
  assumes "checks m Q" and "\<And>s. P s \<Longrightarrow> Q s \<Longrightarrow> P (snd (k s))"
  shows "keeps P (db_then m k)"
proof (unfold keeps_iff, intro allI impI)
  fix s assume "P s"
  then show "P (snd (db_then m k s))"
    using assms(2) by (cases rule: checks_cases [OF assms(1), of s]) auto
qed

lemma checks_then:
  assumes "checks m Q" and "checks k R"
  shows "checks (db_then m k) (\<lambda>s. Q s \<and> R s)"
  unfolding checks_def
proof (intro allI)
  fix s
  show "snd (db_then m k s) = s \<and> (\<forall>x. fst (db_then m k s) = Inr x \<longrightarrow> Q s \<and> R s)"
    by (cases rule: checks_cases [OF assms(1), of s]; cases rule: checks_cases [OF assms(2), of s]) auto
qed

lemma checks_lift: "checks (db_lift r) (\<lambda>_. \<exists>x. r = Inr x)"
  by (simp add: checks_def)

lemma check_step:
  "checks m Q \<Longrightarrow> P s \<Longrightarrow> (Q s \<Longrightarrow> P (snd (k s))) \<Longrightarrow> P (snd (db_then m k s))"
  by (cases rule: checks_cases [of m Q s]) auto

lemma then_step: "P (snd (m s)) \<Longrightarrow> keeps P k \<Longrightarrow> P (snd (db_then m k s))"
  by (cases "m s"; cases "fst (m s)") (auto simp: keeps_iff)

lemma bind_step: "P (snd (m s)) \<Longrightarrow> (\<And>x. keeps P (f x)) \<Longrightarrow> P (snd (db_bind m f s))"
  by (cases "m s"; cases "fst (m s)") (auto simp: keeps_iff)

end
