(* ===== verification/Nest_Store.thy ===== *)
theory Nest_Store
  imports Nest_Db
begin

text \<open>
  Devices, boot profiles and boot events (\<^verbatim>\<open>src/src/db.rs\<close>, the first part, with the
  validators it calls). A table is the list of its rows in insertion order with the
  last \<^verbatim>\<open>AUTOINCREMENT\<close> number. A statement that would break a unique index or a
  foreign key of the migrations fails and changes nothing; deleting a row sets the
  references to it to null. The \<open>tags\<close> column holds the list its JSON text encodes, so
  the text \<^verbatim>\<open>'[]'\<close> is the empty list. \<open>now\<close> is the instant \<^verbatim>\<open>now_rfc3339\<close> returns.
\<close>

section \<open>The store\<close>

record device_row = device +
  row_managed_client_id :: "str option"
  row_managed_device_id :: "str option"
  row_reinstall_request_id :: "str option"

record store =
  st_devices :: "device_row list"
  st_device_seq :: int
  st_profiles :: "boot_profile list"
  st_profile_seq :: int
  st_events :: "boot_event list"
  st_event_seq :: int

type_synonym 'a store_db = "(store, 'a) db"

definition max_boot_events_retained :: int where "max_boot_events_retained = 10000"
definition max_auto_discovered_devices_retained :: int where "max_auto_discovered_devices_retained = 2000"
definition max_device_hostname_chars :: nat where "max_device_hostname_chars = 253"
definition max_device_serial_chars :: nat where "max_device_serial_chars = 128"
definition max_device_notes_chars :: nat where "max_device_notes_chars = 2000"
definition max_device_tags :: nat where "max_device_tags = 50"
definition max_device_tag_chars :: nat where "max_device_tag_chars = 64"
definition max_profile_description_chars :: nat where "max_profile_description_chars = 2000"
definition max_profile_raw_script_bytes :: nat where "max_profile_raw_script_bytes = 64 * 1024"

text \<open>The model value of a row (\<^verbatim>\<open>Device::from\<close>).\<close>

definition device_of :: "device_row \<Rightarrow> device" where
  "device_of r = device.truncate r"

section \<open>Constraints of the schema\<close>

definition somes :: "'a option list \<Rightarrow> 'a list" where
  "somes xs = List.map_filter (\<lambda>x. x) xs"

definition mac_key :: "device_row \<Rightarrow> str" where
  "mac_key r = to_ascii_lowercase (dev_mac r)"

definition devices_unique :: "device_row list \<Rightarrow> bool" where
  "devices_unique rows =
     (distinct (map mac_key rows) \<and> distinct (somes (map dev_serial_number rows)) \<and>
      distinct (somes (map row_managed_client_id rows)))"

definition profile_exists :: "boot_profile list \<Rightarrow> int option \<Rightarrow> bool" where
  "profile_exists profiles ref = (case ref of None \<Rightarrow> True | Some i \<Rightarrow> list_ex (\<lambda>p. prof_id p = i) profiles)"

definition device_exists :: "device_row list \<Rightarrow> int option \<Rightarrow> bool" where
  "device_exists devices ref = (case ref of None \<Rightarrow> True | Some i \<Rightarrow> list_ex (\<lambda>d. dev_id d = i) devices)"

definition device_fk :: "boot_profile list \<Rightarrow> device_row \<Rightarrow> bool" where
  "device_fk profiles r =
     (profile_exists profiles (dev_last_selected_profile_id r) \<and>
      profile_exists profiles (dev_default_profile_id r) \<and>
      profile_exists profiles (dev_one_time_profile_id r))"

definition profiles_unique :: "boot_profile list \<Rightarrow> bool" where
  "profiles_unique rows =
     (length (filter prof_is_default rows) \<le> 1 \<and> distinct (somes (map prof_managed_profile_id rows)))"

definition event_fk :: "store \<Rightarrow> boot_event \<Rightarrow> bool" where
  "event_fk s e =
     (device_exists (st_devices s) (ev_device_id e) \<and> profile_exists (st_profiles s) (ev_selected_profile_id e))"

text \<open>Writing a table: the statement's new rows against the constraints.\<close>

definition write_devices :: "(store \<Rightarrow> device_row list) \<Rightarrow> unit store_db" where
  "write_devices f s =
     (let rows = f s
      in if \<not> devices_unique rows then (Inl (Sqlx UniqueViolation), s)
         else if \<not> list_all (device_fk (st_profiles s)) rows then (Inl (Sqlx ForeignKeyViolation), s)
         else (Inr (), s \<lparr> st_devices := rows \<rparr>))"

definition write_profiles :: "(store \<Rightarrow> boot_profile list) \<Rightarrow> unit store_db" where
  "write_profiles f s =
     (let rows = f s
      in if \<not> profiles_unique rows then (Inl (Sqlx UniqueViolation), s)
         else (Inr (), s \<lparr> st_profiles := rows \<rparr>))"

text \<open>\<^verbatim>\<open>INSERT\<close> gives the row the next number of the table.\<close>

definition insert_device :: "(int \<Rightarrow> device_row) \<Rightarrow> int store_db" where
  "insert_device mk s =
     (let i = st_device_seq s + 1
      in case write_devices (\<lambda>s. st_devices s @ [mk i]) s of
           (Inl e, s') \<Rightarrow> (Inl e, s')
         | (Inr _, s') \<Rightarrow> (Inr i, s' \<lparr> st_device_seq := i \<rparr>))"

definition insert_profile :: "(int \<Rightarrow> boot_profile) \<Rightarrow> int store_db" where
  "insert_profile mk s =
     (let i = st_profile_seq s + 1
      in case write_profiles (\<lambda>s. st_profiles s @ [mk i]) s of
           (Inl e, s') \<Rightarrow> (Inl e, s')
         | (Inr _, s') \<Rightarrow> (Inr i, s' \<lparr> st_profile_seq := i \<rparr>))"

definition insert_event :: "(int \<Rightarrow> boot_event) \<Rightarrow> int store_db" where
  "insert_event mk s =
     (let i = st_event_seq s + 1
      in if \<not> event_fk s (mk i) then (Inl (Sqlx ForeignKeyViolation), s)
         else (Inr i, s \<lparr> st_events := st_events s @ [mk i], st_event_seq := i \<rparr>))"

definition update_devices :: "(device_row \<Rightarrow> bool) \<Rightarrow> (device_row \<Rightarrow> device_row) \<Rightarrow> unit store_db" where
  "update_devices p f = write_devices (\<lambda>s. update_where p f (st_devices s))"

text \<open>\<^verbatim>\<open>DELETE\<close> with \<^verbatim>\<open>ON DELETE SET NULL\<close> on the referring columns; the number of rows.\<close>

definition null_ref :: "(int \<Rightarrow> bool) \<Rightarrow> int option \<Rightarrow> int option" where
  "null_ref gone ref = (case ref of None \<Rightarrow> None | Some i \<Rightarrow> if gone i then None else Some i)"

definition delete_devices :: "(store \<Rightarrow> device_row \<Rightarrow> bool) \<Rightarrow> nat store_db" where
  "delete_devices q s =
     (let p = q s; gone = (\<lambda>i. list_ex (\<lambda>r. p r \<and> dev_id r = i) (st_devices s))
      in (Inr (count_where p (st_devices s)),
          s \<lparr> st_devices := delete_where p (st_devices s),
              st_events := map (\<lambda>e. e \<lparr> ev_device_id := null_ref gone (ev_device_id e) \<rparr>) (st_events s) \<rparr>))"

definition delete_profiles :: "(boot_profile \<Rightarrow> bool) \<Rightarrow> nat store_db" where
  "delete_profiles p s =
     (let gone = (\<lambda>i. list_ex (\<lambda>r. p r \<and> prof_id r = i) (st_profiles s))
      in (Inr (count_where p (st_profiles s)),
          s \<lparr> st_profiles := delete_where p (st_profiles s),
              st_devices := map (\<lambda>d. d \<lparr> dev_last_selected_profile_id := null_ref gone (dev_last_selected_profile_id d),
                                         dev_default_profile_id := null_ref gone (dev_default_profile_id d),
                                         dev_one_time_profile_id := null_ref gone (dev_one_time_profile_id d) \<rparr>)
                              (st_devices s),
              st_events := map (\<lambda>e. e \<lparr> ev_selected_profile_id := null_ref gone (ev_selected_profile_id e) \<rparr>)
                             (st_events s) \<rparr>))"

section \<open>Validators\<close>

definition clean_str_ref :: "str \<Rightarrow> str option" where
  "clean_str_ref value = (let trimmed = trim value in if trimmed = [] then None else Some trimmed)"

definition validate_limited_text :: "str \<Rightarrow> str \<Rightarrow> nat \<Rightarrow> bool \<Rightarrow> unit app_result" where
  "validate_limited_text value field max_chars allow_control =
     (if max_chars < chars_count value
      then Inl (Validation (field @ '' must be '' @ nat_to_str max_chars @ '' characters or fewer''))
      else if \<not> allow_control \<and> any_char is_control value
      then Inl (Validation (field @ '' must not contain control characters''))
      else Inr ())"

definition validate_limited_optional_text :: "str option \<Rightarrow> str \<Rightarrow> nat \<Rightarrow> bool \<Rightarrow> unit app_result" where
  "validate_limited_optional_text value field max_chars allow_control =
     (case value of None \<Rightarrow> Inr () | Some v \<Rightarrow> validate_limited_text v field max_chars allow_control)"

fun validate_tag_list :: "str list \<Rightarrow> unit app_result" where
  "validate_tag_list [] = Inr ()"
| "validate_tag_list (tag # tags) =
     rbind (validate_limited_text tag ''device tag'' max_device_tag_chars False) (\<lambda>_. validate_tag_list tags)"

definition validate_device_tags :: "str list \<Rightarrow> unit app_result" where
  "validate_device_tags tags =
     (if max_device_tags < length tags
      then Inl (Validation (''device tags must include '' @ nat_to_str max_device_tags @ '' entries or fewer''))
      else validate_tag_list tags)"

definition validate_device_metadata :: "str option \<Rightarrow> str option \<Rightarrow> str \<Rightarrow> str list \<Rightarrow> unit app_result" where
  "validate_device_metadata hostname serial_number notes tags =
     rbind (validate_limited_optional_text hostname ''device hostname'' max_device_hostname_chars False) (\<lambda>_.
     rbind (validate_limited_optional_text serial_number ''device serial number'' max_device_serial_chars False) (\<lambda>_.
     rbind (validate_limited_text notes ''device notes'' max_device_notes_chars True) (\<lambda>_.
     validate_device_tags tags)))"

definition profile_fields_have_boot_action :: "boot_profile_type \<Rightarrow> str option \<Rightarrow> bool" where
  "profile_fields_have_boot_action profile_type raw_script =
     (case profile_type of
        LocalDisk \<Rightarrow> True
      | NestInstaller \<Rightarrow> True
      | CustomIpxe \<Rightarrow> (case raw_script of None \<Rightarrow> False | Some value \<Rightarrow> trim value \<noteq> []))"

definition validate_assignable_profile_fields :: "str \<Rightarrow> bool \<Rightarrow> boot_profile_type \<Rightarrow> str option \<Rightarrow> unit app_result" where
  "validate_assignable_profile_fields field enabled profile_type raw_script =
     (if \<not> enabled then Inl (Validation (field @ '' must target an enabled profile''))
      else if \<not> profile_fields_have_boot_action profile_type raw_script
      then Inl (Validation (field @ '' must target a profile with a runnable boot action''))
      else Inr ())"

definition validate_assignable_profile :: "boot_profile \<Rightarrow> str \<Rightarrow> unit app_result" where
  "validate_assignable_profile profile field =
     validate_assignable_profile_fields field (prof_enabled profile) (prof_type profile) (prof_raw_script profile)"

definition validate_profile_assignment_id :: "int option \<Rightarrow> str \<Rightarrow> unit store_db" where
  "validate_profile_assignment_id profile_id field =
     (case profile_id of
        None \<Rightarrow> db_ret ()
      | Some i \<Rightarrow>
          db_bind (db_get (\<lambda>s. find (\<lambda>p. prof_id p = i) (st_profiles s))) (\<lambda>row.
          db_bind (db_lift (ok_or row (Validation (field @ '' references an unknown boot profile'')))) (\<lambda>profile.
          db_lift (validate_assignable_profile profile field))))"

definition validate_profile_shape :: "boot_profile_type \<Rightarrow> str option \<Rightarrow> unit app_result" where
  "validate_profile_shape profile_type raw_script =
     (if profile_type \<noteq> CustomIpxe \<and> (case raw_script of None \<Rightarrow> False | Some value \<Rightarrow> trim value \<noteq> [])
      then Inl (Validation ''raw_script is only supported for custom_ipxe profiles'')
      else Inr ())"

definition validate_profile_has_no_device_assignments :: "int \<Rightarrow> unit store_db" where
  "validate_profile_has_no_device_assignments profile_id =
     db_bind (db_get (\<lambda>s. count_where (\<lambda>d. dev_default_profile_id d = Some profile_id \<or>
                                            dev_one_time_profile_id d = Some profile_id) (st_devices s)))
       (\<lambda>assigned_count.
          if 0 < assigned_count
          then db_err (Validation ''assigned profile must remain enabled and runnable'') else db_ret ())"

definition validate_profile_name :: "str \<Rightarrow> unit app_result" where
  "validate_profile_name name =
     (let trimmed = trim name
      in if trimmed = [] then Inl (Validation ''profile name is required'')
         else if 120 < length trimmed then Inl (Validation ''profile name must be 120 characters or fewer'')
         else if any_char is_control trimmed
         then Inl (Validation ''profile name must not contain control characters'')
         else Inr ())"

definition validate_profile_description :: "str option \<Rightarrow> unit app_result" where
  "validate_profile_description value =
     (if (case value of None \<Rightarrow> False | Some v \<Rightarrow> max_profile_description_chars < chars_count v)
      then Inl (Validation (''profile description must be '' @ nat_to_str max_profile_description_chars @
                            '' characters or fewer''))
      else Inr ())"

definition validate_profile_raw_script :: "str option \<Rightarrow> unit app_result" where
  "validate_profile_raw_script value =
     (if (case value of None \<Rightarrow> False | Some v \<Rightarrow> max_profile_raw_script_bytes < length (trim v))
      then Inl (Validation (''profile raw_script must be '' @ nat_to_str max_profile_raw_script_bytes @
                            '' bytes or fewer''))
      else Inr ())"

definition clear_default_profiles :: "unit store_db" where
  "clear_default_profiles =
     write_profiles (\<lambda>s. update_where (\<lambda>_. True) (\<lambda>p. p \<lparr> prof_is_default := False \<rparr>) (st_profiles s))"

section \<open>Devices\<close>

text \<open>\<^verbatim>\<open>COALESCE(last_seen_at, created_at)\<close>.\<close>

definition seen_or_created :: "device_row \<Rightarrow> str" where
  "seen_or_created r = (case dev_last_seen_at r of Some t \<Rightarrow> t | None \<Rightarrow> dev_created_at r)"

definition list_devices :: "device list store_db" where
  "list_devices =
     db_get (\<lambda>s. map device_of (order_desc seen_or_created (order_desc dev_mac (st_devices s))))"

definition get_device :: "int \<Rightarrow> device store_db" where
  "get_device i =
     db_bind (db_get (\<lambda>s. find (\<lambda>r. dev_id r = i) (st_devices s))) (\<lambda>row.
     db_bind (db_lift (ok_or row NotFound)) (\<lambda>r. db_ret (device_of r)))"

definition get_device_by_mac :: "str \<Rightarrow> device option store_db" where
  "get_device_by_mac mac =
     db_bind (db_lift (normalize_mac mac)) (\<lambda>mac.
     db_get (\<lambda>s. map_option device_of (find (\<lambda>r. eq_ignore_ascii_case (dev_mac r) mac) (st_devices s))))"

definition get_device_by_serial :: "str \<Rightarrow> device option store_db" where
  "get_device_by_serial serial =
     (let serial = trim serial
      in if serial = [] \<or> 128 < length serial then db_ret None
         else db_get (\<lambda>s. map_option device_of (find (\<lambda>r. dev_serial_number r = Some serial) (st_devices s))))"

definition seen_device_serial_number :: "int \<Rightarrow> str option \<Rightarrow> str option \<Rightarrow> str option store_db" where
  "seen_device_serial_number existing_id existing_serial incoming_serial =
     (case (existing_serial, Option.bind incoming_serial clean_str_ref) of
        (None, Some serial) \<Rightarrow>
          db_bind (get_device_by_serial serial) (\<lambda>found.
            case found of
              Some serial_device \<Rightarrow>
                (if dev_id serial_device \<noteq> existing_id then db_ret None else db_ret (Some serial))
            | None \<Rightarrow> db_ret (Some serial))
      | (value, _) \<Rightarrow> db_ret value)"

text \<open>Rows that only network discovery wrote.\<close>

definition auto_discovered :: "device_row \<Rightarrow> bool" where
  "auto_discovered r =
     (row_managed_client_id r = None \<and> dev_last_seen_at r \<noteq> None \<and> dev_hostname r = None \<and>
      dev_default_profile_id r = None \<and> dev_one_time_profile_id r = None \<and> dev_notes r = [] \<and> dev_tags r = [])"

definition retained_auto_ids :: "int \<Rightarrow> device_row list \<Rightarrow> int list" where
  "retained_auto_ids max_devices rows =
     map dev_id (take (nat (max max_devices 1))
       (order_desc (\<lambda>r. (seen_or_created r, dev_id r)) (filter auto_discovered rows)))"

definition prune_auto_discovered_devices :: "int \<Rightarrow> unit store_db" where
  "prune_auto_discovered_devices max_devices =
     db_then (delete_devices (\<lambda>s r. auto_discovered r \<and>
                dev_id r \<notin> set (retained_auto_ids max_devices (st_devices s))))
       (db_ret ())"

definition new_device_row :: "str \<Rightarrow> str \<Rightarrow> int \<Rightarrow> device_row" where
  "new_device_row mac now i =
     \<lparr> dev_id = i, dev_mac = mac, dev_hostname = None, dev_serial_number = None, dev_last_seen_at = None,
       dev_last_selected_profile_id = None, dev_notes = [], dev_tags = [], dev_default_profile_id = None,
       dev_one_time_profile_id = None, dev_one_time_consumed_at = None, dev_created_at = now, dev_updated_at = now,
       row_managed_client_id = None, row_managed_device_id = None, row_reinstall_request_id = None \<rparr>"

definition upsert_seen_device_with_retention :: "str \<Rightarrow> str \<Rightarrow> str option \<Rightarrow> int \<Rightarrow> (device \<times> bool) store_db" where
  "upsert_seen_device_with_retention now mac serial_number max_auto_devices =
     db_bind (db_lift (normalize_mac mac)) (\<lambda>mac.
     db_bind (get_device_by_mac mac) (\<lambda>existing.
       case existing of
         Some existing \<Rightarrow>
           db_bind (seen_device_serial_number (dev_id existing) (dev_serial_number existing) serial_number) (\<lambda>serial.
           db_then (update_devices (\<lambda>r. dev_id r = dev_id existing)
                      (\<lambda>r. r \<lparr> dev_last_seen_at := Some now, dev_serial_number := serial, dev_updated_at := now \<rparr>))
           (db_bind (get_device (dev_id existing)) (\<lambda>d. db_ret (d, True))))
       | None \<Rightarrow>
           db_bind (case Option.bind serial_number clean_str_ref of
                      Some serial \<Rightarrow> get_device_by_serial serial | None \<Rightarrow> db_ret None) (\<lambda>by_serial.
             case by_serial of
               Some existing \<Rightarrow>
                 db_then (update_devices (\<lambda>r. dev_id r = dev_id existing)
                            (\<lambda>r. r \<lparr> dev_last_seen_at := Some now, dev_updated_at := now \<rparr>))
                 (db_bind (get_device (dev_id existing)) (\<lambda>d. db_ret (d, True)))
             | None \<Rightarrow>
                 db_then (insert_device (\<lambda>i. (new_device_row mac now i)
                            \<lparr> dev_serial_number := Option.bind serial_number clean_str_ref, dev_last_seen_at := Some now \<rparr>))
                 (db_bind (get_device_by_mac mac) (\<lambda>device.
                  db_bind (db_lift (ok_or device NotFound)) (\<lambda>device.
                  db_then (prune_auto_discovered_devices max_auto_devices) (db_ret (device, False))))))))"

definition upsert_seen_device :: "str \<Rightarrow> str \<Rightarrow> str option \<Rightarrow> (device \<times> bool) store_db" where
  "upsert_seen_device now mac serial_number =
     upsert_seen_device_with_retention now mac serial_number max_auto_discovered_devices_retained"

definition touch_device_seen :: "str \<Rightarrow> int \<Rightarrow> device store_db" where
  "touch_device_seen now device_id =
     db_then (update_devices (\<lambda>r. dev_id r = device_id)
                (\<lambda>r. r \<lparr> dev_last_seen_at := Some now, dev_updated_at := now \<rparr>))
       (get_device device_id)"

definition unclaimed :: "device_row \<Rightarrow> bool" where
  "unclaimed r =
     (row_managed_client_id r = None \<and> row_managed_device_id r = None \<and> row_reinstall_request_id r = None \<and>
      dev_last_seen_at r \<noteq> None \<and> dev_hostname r = None \<and> dev_default_profile_id r = None \<and>
      dev_one_time_profile_id r = None \<and> dev_one_time_consumed_at r = None \<and>
      dev_last_selected_profile_id r = None \<and> dev_notes r = [] \<and> dev_tags r = [])"

definition remove_unclaimed_auto_discovered_device :: "int \<Rightarrow> bool store_db" where
  "remove_unclaimed_auto_discovered_device device_id =
     db_bind (delete_devices (\<lambda>_ r. dev_id r = device_id \<and> unclaimed r)) (\<lambda>removed. db_ret (removed = 1))"

definition create_device :: "str \<Rightarrow> create_device_request \<Rightarrow> device store_db" where
  "create_device now input =
     db_bind (db_lift (normalize_mac (cdr_mac input))) (\<lambda>mac.
     let hostname = clean_optional_string (cdr_hostname input);
         serial_number = clean_optional_string (cdr_serial_number input);
         notes = (case cdr_notes input of None \<Rightarrow> [] | Some n \<Rightarrow> n);
         tags = clean_tags (case cdr_tags input of None \<Rightarrow> [] | Some t \<Rightarrow> t)
     in db_then (db_lift (validate_device_metadata hostname serial_number notes tags))
       (db_then (validate_profile_assignment_id (cdr_default_profile_id input) ''device default_profile_id'')
       (db_then (validate_profile_assignment_id (cdr_one_time_profile_id input) ''device one_time_profile_id'')
       (db_then (insert_device (\<lambda>i. (new_device_row mac now i)
                   \<lparr> dev_hostname := hostname, dev_serial_number := serial_number, dev_notes := notes,
                     dev_tags := tags, dev_default_profile_id := cdr_default_profile_id input,
                     dev_one_time_profile_id := cdr_one_time_profile_id input \<rparr>))
       (db_bind (get_device_by_mac mac) (\<lambda>device. db_lift (ok_or device NotFound)))))))"

definition unwrap_or :: "'a option \<Rightarrow> 'a \<Rightarrow> 'a" where
  "unwrap_or x d = (case x of None \<Rightarrow> d | Some v \<Rightarrow> v)"

definition update_device :: "str \<Rightarrow> int \<Rightarrow> update_device_request \<Rightarrow> device store_db" where
  "update_device now i input =
     db_bind (get_device i) (\<lambda>current.
     let hostname = unwrap_or (map_option clean_optional_string (udr_hostname input)) (dev_hostname current);
         serial_number = unwrap_or (map_option clean_optional_string (udr_serial_number input)) (dev_serial_number current);
         notes = unwrap_or (udr_notes input) (dev_notes current);
         tags = unwrap_or (map_option clean_tags (udr_tags input)) (dev_tags current);
         default_profile_id = unwrap_or (udr_default_profile_id input) (dev_default_profile_id current);
         one_time_profile_id = unwrap_or (udr_one_time_profile_id input) (dev_one_time_profile_id current)
     in db_then (db_lift (validate_device_metadata hostname serial_number notes tags))
       (db_then (validate_profile_assignment_id default_profile_id ''device default_profile_id'')
       (db_then (validate_profile_assignment_id one_time_profile_id ''device one_time_profile_id'')
       (db_then (update_devices (\<lambda>r. dev_id r = i)
                   (\<lambda>r. r \<lparr> dev_hostname := hostname, dev_serial_number := serial_number, dev_notes := notes,
                            dev_tags := tags, dev_default_profile_id := default_profile_id,
                            dev_one_time_profile_id := one_time_profile_id, dev_updated_at := now \<rparr>))
       (get_device i)))))"

definition delete_device :: "int \<Rightarrow> unit store_db" where
  "delete_device i =
     db_bind (delete_devices (\<lambda>_ r. dev_id r = i)) (\<lambda>affected.
       if affected = 0 then db_err NotFound else db_ret ())"

definition set_device_last_selected :: "str \<Rightarrow> int \<Rightarrow> int \<Rightarrow> unit store_db" where
  "set_device_last_selected now device_id profile_id =
     update_devices (\<lambda>r. dev_id r = device_id)
       (\<lambda>r. r \<lparr> dev_last_selected_profile_id := Some profile_id, dev_updated_at := now \<rparr>)"

definition consume_one_time_profile :: "str \<Rightarrow> int \<Rightarrow> int \<Rightarrow> unit store_db" where
  "consume_one_time_profile now device_id profile_id =
     update_devices (\<lambda>r. dev_id r = device_id \<and> dev_one_time_profile_id r = Some profile_id)
       (\<lambda>r. r \<lparr> dev_one_time_profile_id := None, dev_one_time_consumed_at := Some now,
                dev_last_selected_profile_id := Some profile_id, dev_updated_at := now \<rparr>)"

section \<open>Boot profiles\<close>

definition list_profiles :: "boot_profile list store_db" where
  "list_profiles = db_get (\<lambda>s. sort_key prof_name (st_profiles s))"

definition list_enabled_profiles :: "boot_profile list store_db" where
  "list_enabled_profiles =
     db_get (\<lambda>s. let named = sort_key prof_name (filter prof_enabled (st_profiles s))
                 in filter prof_is_default named @ filter (\<lambda>p. \<not> prof_is_default p) named)"

definition get_profile :: "int \<Rightarrow> boot_profile store_db" where
  "get_profile i =
     db_bind (db_get (\<lambda>s. find (\<lambda>p. prof_id p = i) (st_profiles s))) (\<lambda>row. db_lift (ok_or row NotFound))"

definition create_profile :: "str \<Rightarrow> create_boot_profile_request \<Rightarrow> boot_profile store_db" where
  "create_profile now input =
     db_then (db_lift (validate_profile_name (cbp_name input)))
     (let description = unwrap_or (cbp_description input) [];
          enabled = unwrap_or (cbp_enabled input) True;
          is_default = unwrap_or (cbp_is_default input) False;
          one_time = unwrap_or (cbp_one_time input) False;
          raw_script = clean_optional_string (cbp_raw_script input)
      in db_then (db_lift (validate_profile_description (Some description)))
        (db_then (db_lift (validate_profile_raw_script raw_script))
        (db_then (db_lift (validate_profile_shape (cbp_profile_type input) raw_script))
        (db_then (if is_default
                  then db_then (db_lift (validate_assignable_profile_fields ''default profile'' enabled
                                           (cbp_profile_type input) raw_script))
                         clear_default_profiles
                  else db_ret ())
        (db_bind (insert_profile (\<lambda>i.
           \<lparr> prof_id = i, prof_managed_profile_id = None, prof_name = trim (cbp_name input),
             prof_description = description, prof_type = cbp_profile_type input, prof_enabled = enabled,
             prof_is_default = is_default, prof_one_time = one_time, prof_raw_script = raw_script,
             prof_created_at = now, prof_updated_at = now \<rparr>))
         get_profile)))))"

definition update_profile :: "str \<Rightarrow> int \<Rightarrow> update_boot_profile_request \<Rightarrow> boot_profile store_db" where
  "update_profile now i input =
     db_bind (get_profile i) (\<lambda>current.
     let name = unwrap_or (ubp_name input) (prof_name current)
     in db_then (db_lift (validate_profile_name name))
       (let description = unwrap_or (ubp_description input) (prof_description current);
            profile_type = unwrap_or (ubp_profile_type input) (prof_type current);
            enabled = unwrap_or (ubp_enabled input) (prof_enabled current);
            is_default = unwrap_or (ubp_is_default input) (prof_is_default current);
            one_time = unwrap_or (ubp_one_time input) (prof_one_time current);
            raw_script = unwrap_or (map_option clean_optional_string (ubp_raw_script input)) (prof_raw_script current)
        in db_then (db_lift (validate_profile_description (Some description)))
          (db_then (db_lift (validate_profile_raw_script raw_script))
          (db_then (db_lift (validate_profile_shape profile_type raw_script))
          (db_then (if is_default
                    then db_then (db_lift (validate_assignable_profile_fields ''default profile'' enabled
                                             profile_type raw_script))
                           clear_default_profiles
                    else if \<not> profile_fields_have_boot_action profile_type raw_script \<or> \<not> enabled
                    then validate_profile_has_no_device_assignments i
                    else db_ret ())
          (db_then (write_profiles (\<lambda>s. update_where (\<lambda>p. prof_id p = i)
                      (\<lambda>p. p \<lparr> prof_name := trim name, prof_description := description, prof_type := profile_type,
                               prof_enabled := enabled, prof_is_default := is_default, prof_one_time := one_time,
                               prof_raw_script := raw_script, prof_updated_at := now \<rparr>) (st_profiles s)))
           (get_profile i)))))))"

definition delete_profile :: "int \<Rightarrow> unit store_db" where
  "delete_profile i =
     db_bind (delete_profiles (\<lambda>p. prof_id p = i)) (\<lambda>affected.
       if affected = 0 then db_err NotFound else db_ret ())"

section \<open>Boot events\<close>

definition get_boot_event :: "int \<Rightarrow> boot_event store_db" where
  "get_boot_event i =
     db_bind (db_get (\<lambda>s. find (\<lambda>e. ev_id e = i) (st_events s))) (\<lambda>row. db_lift (ok_or row NotFound))"

definition chosen_event :: "boot_event \<Rightarrow> bool" where
  "chosen_event e = (ev_known_device e \<and> ev_selected_profile_id e \<noteq> None)"

definition retained_event_ids :: "int \<Rightarrow> boot_event list \<Rightarrow> int list" where
  "retained_event_ids max_events events =
     map ev_id (take (nat (max max_events 1)) (order_desc ev_id events)) @
     map ev_id (take (nat (max max_events 1)) (order_desc ev_id (filter chosen_event events)))"

definition prune_boot_events :: "int \<Rightarrow> unit store_db" where
  "prune_boot_events max_events s =
     (Inr (), s \<lparr> st_events :=
        delete_where (\<lambda>e. ev_id e \<notin> set (retained_event_ids max_events (st_events s))) (st_events s) \<rparr>)"

definition new_event_row :: "str \<Rightarrow> new_boot_event \<Rightarrow> int \<Rightarrow> boot_event" where
  "new_event_row now event i =
     \<lparr> ev_id = i, ev_device_id = nev_device_id event, ev_mac = nev_mac event,
       ev_serial_number = nev_serial_number event, ev_ip_address = nev_ip_address event,
       ev_user_agent = nev_user_agent event, ev_selected_profile_id = nev_selected_profile_id event,
       ev_selected_profile_name = nev_selected_profile_name event,
       ev_known_device = nev_known_device event, ev_created_at = now \<rparr>"

definition insert_boot_event_with_retention :: "str \<Rightarrow> new_boot_event \<Rightarrow> int \<Rightarrow> boot_event store_db" where
  "insert_boot_event_with_retention now event max_events =
     db_bind (insert_event (new_event_row now event)) (\<lambda>i.
     db_bind (get_boot_event i) (\<lambda>event.
     db_then (prune_boot_events max_events) (db_ret event)))"

definition insert_boot_event :: "str \<Rightarrow> new_boot_event \<Rightarrow> boot_event store_db" where
  "insert_boot_event now event = insert_boot_event_with_retention now event max_boot_events_retained"

definition list_boot_events :: "int \<Rightarrow> boot_event list store_db" where
  "list_boot_events limit =
     db_get (\<lambda>s. take (nat (max 1 (min 500 limit))) (order_desc ev_created_at (st_events s)))"

section \<open>The store invariant\<close>

definition runnable :: "boot_profile \<Rightarrow> bool" where
  "runnable p = (prof_enabled p \<and> profile_fields_have_boot_action (prof_type p) (prof_raw_script p))"

definition assignment_ok :: "boot_profile list \<Rightarrow> int option \<Rightarrow> bool" where
  "assignment_ok profiles ref =
     (case ref of None \<Rightarrow> True | Some i \<Rightarrow> list_ex (\<lambda>p. prof_id p = i \<and> runnable p) profiles)"

definition device_ok :: "boot_profile list \<Rightarrow> device_row \<Rightarrow> bool" where
  "device_ok profiles d =
     (canonical_mac (dev_mac d) \<and> device_fk profiles d \<and>
      assignment_ok profiles (dev_default_profile_id d) \<and> assignment_ok profiles (dev_one_time_profile_id d))"

definition devices_inv :: "store \<Rightarrow> bool" where
  "devices_inv s =
     (distinct (map dev_id (st_devices s)) \<and> list_all (\<lambda>d. dev_id d \<le> st_device_seq s) (st_devices s) \<and>
      devices_unique (st_devices s) \<and> list_all (device_ok (st_profiles s)) (st_devices s))"

definition profiles_inv :: "store \<Rightarrow> bool" where
  "profiles_inv s =
     (distinct (map prof_id (st_profiles s)) \<and> list_all (\<lambda>p. prof_id p \<le> st_profile_seq s) (st_profiles s) \<and>
      profiles_unique (st_profiles s) \<and> list_all (\<lambda>p. prof_is_default p \<longrightarrow> runnable p) (st_profiles s))"

definition events_inv :: "store \<Rightarrow> bool" where
  "events_inv s =
     (distinct (map ev_id (st_events s)) \<and> list_all (\<lambda>e. ev_id e \<le> st_event_seq s) (st_events s) \<and>
      list_all (event_fk s) (st_events s))"

definition store_inv :: "store \<Rightarrow> bool" where
  "store_inv s = (devices_inv s \<and> profiles_inv s \<and> events_inv s)"

lemma profile_exists_iff: "profile_exists ps ref \<longleftrightarrow> (\<forall>i. ref = Some i \<longrightarrow> i \<in> prof_id ` set ps)"
  by (auto simp: profile_exists_def list_ex_iff split: option.splits)

lemma device_exists_iff: "device_exists ds ref \<longleftrightarrow> (\<forall>i. ref = Some i \<longrightarrow> i \<in> dev_id ` set ds)"
  by (auto simp: device_exists_def list_ex_iff split: option.splits)

lemma assignment_ok_iff:
  "assignment_ok ps ref \<longleftrightarrow> (\<forall>i. ref = Some i \<longrightarrow> (\<exists>p \<in> set ps. prof_id p = i \<and> runnable p))"
  by (auto simp: assignment_ok_def list_ex_iff split: option.splits)

lemma assignment_ok_None [simp]: "assignment_ok ps None"
  by (simp add: assignment_ok_def)

lemma assignment_ok_exists: "assignment_ok ps ref \<Longrightarrow> profile_exists ps ref"
  by (auto simp: assignment_ok_iff profile_exists_iff)

text \<open>Writing the device table keeps the invariant when the new rows keep their identity.\<close>

definition row_ok :: "boot_profile list \<Rightarrow> int \<Rightarrow> device_row \<Rightarrow> bool" where
  "row_ok profiles seq d =
     (dev_id d \<le> seq \<and> canonical_mac (dev_mac d) \<and>
      assignment_ok profiles (dev_default_profile_id d) \<and> assignment_ok profiles (dev_one_time_profile_id d))"

lemma store_inv_rows:
  "store_inv s \<Longrightarrow> list_all (row_ok (st_profiles s) (st_device_seq s)) (st_devices s) \<and>
     distinct (map dev_id (st_devices s))"
  by (auto simp: store_inv_def devices_inv_def device_ok_def row_ok_def list_all_iff)

lemma event_fk_mono:
  "event_fk s e \<Longrightarrow> dev_id ` set (st_devices s) \<subseteq> dev_id ` set ds \<Longrightarrow>
     event_fk (s \<lparr> st_devices := ds, st_device_seq := n \<rparr>) e"
  by (auto simp: event_fk_def device_exists_iff)

lemma store_inv_set_devices:
  assumes "store_inv s" and "devices_unique rows" and "list_all (device_fk (st_profiles s)) rows"
    and "distinct (map dev_id rows)" and "dev_id ` set (st_devices s) \<subseteq> dev_id ` set rows"
    and "list_all (row_ok (st_profiles s) seq) rows"
  shows "store_inv (s \<lparr> st_devices := rows, st_device_seq := seq \<rparr>)"
proof -
  have "list_all (event_fk (s \<lparr> st_devices := rows, st_device_seq := seq \<rparr>)) (st_events s)"
    using assms(1,5) event_fk_mono [of s] by (auto simp: store_inv_def events_inv_def list_all_iff)
  then show ?thesis
    using assms
    by (simp add: store_inv_def devices_inv_def profiles_inv_def events_inv_def device_ok_def row_ok_def list_all_iff)
qed

lemma write_devices_cases:
  obtains "write_devices f s = (Inl (Sqlx UniqueViolation), s)"
  | "write_devices f s = (Inl (Sqlx ForeignKeyViolation), s)"
  | "devices_unique (f s)" "list_all (device_fk (st_profiles s)) (f s)"
    "write_devices f s = (Inr (), s \<lparr> st_devices := f s \<rparr>)"
  by (cases "devices_unique (f s)"; cases "list_all (device_fk (st_profiles s)) (f s)")
     (auto simp: write_devices_def Let_def)

lemma update_devices_inv:
  assumes inv: "store_inv s"
    and f: "\<And>d. d \<in> set (st_devices s) \<Longrightarrow> p d \<Longrightarrow> dev_id (f d) = dev_id d \<and> dev_mac (f d) = dev_mac d \<and>
           assignment_ok (st_profiles s) (dev_default_profile_id (f d)) \<and>
           assignment_ok (st_profiles s) (dev_one_time_profile_id (f d))"
  shows "store_inv (snd (update_devices p f s))"
proof -
  let ?rows = "update_where p f (st_devices s)"
  have ids: "map dev_id ?rows = map dev_id (st_devices s)"
    using f by (simp add: update_where_def)
  have rows: "list_all (row_ok (st_profiles s) (st_device_seq s)) ?rows"
    using store_inv_rows [OF inv] f by (fastforce simp: list_all_iff row_ok_def update_where_def)
  show ?thesis
  proof (rule write_devices_cases [of "\<lambda>s. update_where p f (st_devices s)" s])
    assume "devices_unique ?rows" "list_all (device_fk (st_profiles s)) ?rows"
      and w: "write_devices (\<lambda>s. update_where p f (st_devices s)) s = (Inr (), s \<lparr> st_devices := ?rows \<rparr>)"
    then have "store_inv (s \<lparr> st_devices := ?rows, st_device_seq := st_device_seq s \<rparr>)"
    proof (intro store_inv_set_devices [OF inv _ _ _ _ rows])
      show "distinct (map dev_id ?rows)" using store_inv_rows [OF inv] by (simp add: ids)
      show "dev_id ` set (st_devices s) \<subseteq> dev_id ` set ?rows"
        unfolding set_map [symmetric] ids by simp
    qed
    then show ?thesis by (simp add: update_devices_def w)
  qed (simp_all add: update_devices_def inv)
qed

lemma insert_device_inv:
  assumes inv: "store_inv s" and i: "i = st_device_seq s + 1" and id: "dev_id (mk i) = i"
    and row: "row_ok (st_profiles s) i (mk i)"
  shows "store_inv (snd (insert_device mk s))"
proof -
  let ?f = "\<lambda>s'. st_devices s' @ [mk i]"
  have rows: "list_all (row_ok (st_profiles s) i) (?f s)"
    using store_inv_rows [OF inv] row i by (fastforce simp: list_all_iff row_ok_def)
  have fresh: "i \<notin> dev_id ` set (st_devices s)"
    using store_inv_rows [OF inv] i by (fastforce simp: list_all_iff row_ok_def)
  show ?thesis
  proof (rule write_devices_cases [of ?f s])
    assume u: "devices_unique (?f s)" "list_all (device_fk (st_profiles s)) (?f s)"
      and w: "write_devices ?f s = (Inr (), s \<lparr> st_devices := ?f s \<rparr>)"
    have "store_inv (s \<lparr> st_devices := ?f s, st_device_seq := i \<rparr>)"
      by (rule store_inv_set_devices [OF inv u _ _ rows])
         (use store_inv_rows [OF inv] id fresh in auto)
    then show ?thesis by (simp add: insert_device_def Let_def w i [symmetric])
  qed (simp_all add: insert_device_def Let_def i [symmetric] inv)
qed

lemma distinct_somes_filter:
  "distinct (somes (map key rows)) \<Longrightarrow> distinct (somes (map key (filter p rows)))"
proof (induction rows)
  case (Cons r rows)
  have "set (somes (map key (filter p rows))) \<subseteq> set (somes (map key rows))"
    by (induction rows) (auto simp: somes_def map_filter_simps split: option.splits)
  with Cons show ?case by (auto simp: somes_def map_filter_simps split: option.splits)
qed simp

lemma devices_unique_delete: "devices_unique rows \<Longrightarrow> devices_unique (delete_where p rows)"
  by (auto simp: devices_unique_def delete_where_def distinct_map_filter intro: distinct_somes_filter)

lemma device_exists_delete:
  "device_exists ds ref \<Longrightarrow>
     device_exists (delete_where p ds) (null_ref (\<lambda>i. list_ex (\<lambda>r. p r \<and> dev_id r = i) ds) ref)"
  by (auto simp: device_exists_def null_ref_def list_ex_iff split: option.splits if_splits)

lemma profile_exists_delete:
  "profile_exists ps ref \<Longrightarrow>
     profile_exists (delete_where p ps) (null_ref (\<lambda>i. list_ex (\<lambda>r. p r \<and> prof_id r = i) ps) ref)"
  by (auto simp: profile_exists_def null_ref_def list_ex_iff split: option.splits if_splits)

lemma assignment_ok_delete:
  "assignment_ok ps ref \<Longrightarrow>
     assignment_ok (delete_where p ps) (null_ref (\<lambda>i. list_ex (\<lambda>r. p r \<and> prof_id r = i) ps) ref)"
  by (auto simp: assignment_ok_def null_ref_def list_ex_iff split: option.splits if_splits)

lemma delete_devices_inv [db_rules, intro]: "keeps store_inv (delete_devices q)"
proof (unfold keeps_iff, intro allI impI)
  fix s assume inv: "store_inv s"
  let ?t = "snd (delete_devices q s)"
  have "list_all (event_fk ?t) (st_events ?t)"
    using inv
    by (auto simp: delete_devices_def Let_def store_inv_def events_inv_def event_fk_def list_all_iff
        intro: device_exists_delete)
  with inv show "store_inv ?t"
    by (auto simp: delete_devices_def Let_def store_inv_def devices_inv_def profiles_inv_def events_inv_def
        list_all_iff distinct_delete_where devices_unique_delete comp_def)
qed

lemma profiles_unique_delete: "profiles_unique ps \<Longrightarrow> profiles_unique (delete_where p ps)"
proof -
  assume u: "profiles_unique ps"
  have "length (filter prof_is_default (filter (\<lambda>r. \<not> p r) ps)) \<le> length (filter prof_is_default ps)"
    by (induction ps) auto
  with u show ?thesis
    by (auto simp: profiles_unique_def delete_where_def intro: distinct_somes_filter)
qed

lemma delete_profiles_inv [db_rules, intro]: "keeps store_inv (delete_profiles p)"
proof (unfold keeps_iff, intro allI impI)
  fix s assume inv: "store_inv s"
  let ?t = "snd (delete_profiles p s)"
  have dev: "list_all (device_ok (st_profiles ?t)) (st_devices ?t)"
    using inv
    by (auto simp: delete_profiles_def Let_def store_inv_def devices_inv_def device_ok_def device_fk_def
        list_all_iff intro: assignment_ok_delete profile_exists_delete)
  have ids: "map dev_id (st_devices ?t) = map dev_id (st_devices s)"
    by (simp add: delete_profiles_def Let_def)
  have "device_exists (st_devices ?t) ref = device_exists (st_devices s) ref" for ref
    unfolding device_exists_iff set_map [symmetric] ids ..
  then have ev: "list_all (event_fk ?t) (st_events ?t)"
    using inv
    by (auto simp: delete_profiles_def Let_def store_inv_def events_inv_def event_fk_def list_all_iff
        intro: profile_exists_delete)
  have "devices_unique (st_devices ?t)"
    using inv by (simp add: delete_profiles_def Let_def store_inv_def devices_inv_def devices_unique_def
        comp_def mac_key_def [abs_def])
  with dev ev inv show "store_inv ?t"
    by (auto simp: delete_profiles_def Let_def store_inv_def devices_inv_def profiles_inv_def events_inv_def
        list_all_iff distinct_delete_where profiles_unique_delete comp_def)
qed

text \<open>Replacing the profile table: ids kept or extended, runnable assignments kept.\<close>

lemma store_inv_set_profiles:
  assumes inv: "store_inv s" and "profiles_unique rows" and "distinct (map prof_id rows)"
    and sub: "prof_id ` set (st_profiles s) \<subseteq> prof_id ` set rows"
    and "list_all (\<lambda>p. prof_id p \<le> seq \<and> (prof_is_default p \<longrightarrow> runnable p)) rows"
    and keep: "\<And>d. d \<in> set (st_devices s) \<Longrightarrow>
       assignment_ok rows (dev_default_profile_id d) \<and> assignment_ok rows (dev_one_time_profile_id d)"
  shows "store_inv (s \<lparr> st_profiles := rows, st_profile_seq := seq \<rparr>)"
proof -
  have ex: "profile_exists rows ref" if "profile_exists (st_profiles s) ref" for ref
    using that sub by (auto simp: profile_exists_iff)
  have "list_all (device_ok rows) (st_devices s)"
    using inv keep ex by (auto simp: store_inv_def devices_inv_def device_ok_def device_fk_def list_all_iff)
  moreover have "list_all (event_fk (s \<lparr> st_profiles := rows, st_profile_seq := seq \<rparr>)) (st_events s)"
    using inv ex by (auto simp: store_inv_def events_inv_def event_fk_def list_all_iff)
  ultimately show ?thesis
    using assms by (simp add: store_inv_def devices_inv_def profiles_inv_def events_inv_def list_all_iff)
qed

lemma write_profiles_cases:
  obtains "write_profiles f s = (Inl (Sqlx UniqueViolation), s)"
  | "profiles_unique (f s)" "write_profiles f s = (Inr (), s \<lparr> st_profiles := f s \<rparr>)"
  by (cases "profiles_unique (f s)") (auto simp: write_profiles_def Let_def)

lemma store_inv_profiles:
  "store_inv s \<Longrightarrow> distinct (map prof_id (st_profiles s)) \<and>
     list_all (\<lambda>p. prof_id p \<le> st_profile_seq s \<and> (prof_is_default p \<longrightarrow> runnable p)) (st_profiles s)"
  by (auto simp: store_inv_def profiles_inv_def list_all_iff)

lemma store_inv_assignments:
  "store_inv s \<Longrightarrow> d \<in> set (st_devices s) \<Longrightarrow>
     assignment_ok (st_profiles s) (dev_default_profile_id d) \<and> assignment_ok (st_profiles s) (dev_one_time_profile_id d)"
  by (auto simp: store_inv_def devices_inv_def device_ok_def list_all_iff)

lemma write_profiles_inv:
  assumes inv: "store_inv s"
    and f: "\<And>p. p \<in> set (st_profiles s) \<Longrightarrow> q p \<Longrightarrow>
      prof_id (f p) = prof_id p \<and> (prof_is_default (f p) \<longrightarrow> runnable (f p)) \<and>
      (runnable p \<longrightarrow> runnable (f p) \<or>
         (\<forall>d \<in> set (st_devices s). dev_default_profile_id d \<noteq> Some (prof_id p) \<and>
                                    dev_one_time_profile_id d \<noteq> Some (prof_id p)))"
  shows "store_inv (snd (write_profiles (\<lambda>s. update_where q f (st_profiles s)) s))"
proof -
  let ?rows = "update_where q f (st_profiles s)"
  have ids: "map prof_id ?rows = map prof_id (st_profiles s)"
    using f by (simp add: update_where_def)
  have rows: "list_all (\<lambda>p. prof_id p \<le> st_profile_seq s \<and> (prof_is_default p \<longrightarrow> runnable p)) ?rows"
    using store_inv_profiles [OF inv] f by (fastforce simp: list_all_iff update_where_def)
  have keep: "assignment_ok ?rows (dev_default_profile_id d) \<and> assignment_ok ?rows (dev_one_time_profile_id d)"
    if d: "d \<in> set (st_devices s)" for d
  proof -
    have "assignment_ok ?rows ref"
      if "assignment_ok (st_profiles s) ref" "ref = dev_default_profile_id d \<or> ref = dev_one_time_profile_id d" for ref
    proof (unfold assignment_ok_iff, intro allI impI)
      fix i assume "ref = Some i"
      then obtain p where p: "p \<in> set (st_profiles s)" "prof_id p = i" "runnable p"
        using \<open>assignment_ok (st_profiles s) ref\<close> by (auto simp: assignment_ok_iff)
      have "prof_id (if q p then f p else p) = i \<and> runnable (if q p then f p else p)"
        using f [OF p(1)] p that(2) \<open>ref = Some i\<close> d by auto
      then show "\<exists>p \<in> set ?rows. prof_id p = i \<and> runnable p"
        using p(1) unfolding set_update_where by blast
    qed
    with store_inv_assignments [OF inv d] show ?thesis by blast
  qed
  show ?thesis
  proof (rule write_profiles_cases [of "\<lambda>s. update_where q f (st_profiles s)" s])
    assume u: "profiles_unique ?rows"
      and w: "write_profiles (\<lambda>s. update_where q f (st_profiles s)) s = (Inr (), s \<lparr> st_profiles := ?rows \<rparr>)"
    have "store_inv (s \<lparr> st_profiles := ?rows, st_profile_seq := st_profile_seq s \<rparr>)"
    proof (rule store_inv_set_profiles [OF inv u _ _ rows keep])
      show "distinct (map prof_id ?rows)" using store_inv_profiles [OF inv] by (simp add: ids)
      show "prof_id ` set (st_profiles s) \<subseteq> prof_id ` set ?rows"
        unfolding set_map [symmetric] ids by simp
    qed
    then show ?thesis by (simp add: w)
  qed (simp add: inv)
qed

section \<open>Every operation keeps the invariant\<close>

lemma update_devices_keeps:
  assumes "\<And>d. dev_id (f d) = dev_id d" "\<And>d. dev_mac (f d) = dev_mac d"
    and "\<And>d. dev_default_profile_id (f d) = dev_default_profile_id d"
    and "\<And>d. dev_one_time_profile_id (f d) = dev_one_time_profile_id d \<or> dev_one_time_profile_id (f d) = None"
  shows "keeps store_inv (update_devices p f)"
  unfolding keeps_iff
  using assms store_inv_assignments by (intro allI impI update_devices_inv) (auto, metis assignment_ok_None)

lemma store_reads [db_rules, intro]:
  "keeps store_inv (get_device i)" "keeps store_inv (get_device_by_mac m)"
  "keeps store_inv (get_device_by_serial m)" "keeps store_inv (get_profile i)" "keeps store_inv list_devices"
  "keeps store_inv list_profiles" "keeps store_inv list_enabled_profiles" "keeps store_inv (list_boot_events n)"
  "keeps store_inv (get_boot_event i)"
  by (auto simp: get_device_def get_device_by_mac_def get_device_by_serial_def get_profile_def list_devices_def
      list_profiles_def list_enabled_profiles_def list_boot_events_def get_boot_event_def Let_def)

lemma touch_device_seen_inv [db_rules, intro]: "keeps store_inv (touch_device_seen now i)"
  unfolding touch_device_seen_def by (intro db_rules update_devices_keeps) auto

lemma seen_device_serial_number_inv [db_rules, intro]: "keeps store_inv (seen_device_serial_number i a b)"
  by (auto simp: seen_device_serial_number_def split: option.splits)

lemma prune_auto_discovered_devices_inv [db_rules, intro]: "keeps store_inv (prune_auto_discovered_devices n)"
  unfolding prune_auto_discovered_devices_def by (intro db_rules)

lemma row_ok_new: "canonical_mac m \<Longrightarrow> row_ok ps i (new_device_row m now i)"
  by (simp add: row_ok_def new_device_row_def)

lemma upsert_seen_device_inv [db_rules, intro]:
  "keeps store_inv (upsert_seen_device_with_retention now mac serial n)"
proof -
  have ins: "keeps store_inv (insert_device (\<lambda>i. (new_device_row m now i)
      \<lparr> dev_serial_number := sn, dev_last_seen_at := Some now \<rparr>))" if "canonical_mac m" for m sn
    unfolding keeps_iff using that
    by (intro allI impI insert_device_inv [OF _ refl]) (simp_all add: row_ok_def new_device_row_def)
  show ?thesis
    unfolding upsert_seen_device_with_retention_def
    by (intro db_rules update_devices_keeps ins) (auto simp: normalize_mac_eq_Inr)
qed

lemma remove_unclaimed_inv [db_rules, intro]: "keeps store_inv (remove_unclaimed_auto_discovered_device i)"
  unfolding remove_unclaimed_auto_discovered_device_def by (intro db_rules)

lemma delete_device_inv [db_rules, intro]: "keeps store_inv (delete_device i)"
  unfolding delete_device_def by (intro db_rules)

lemma delete_profile_inv [db_rules, intro]: "keeps store_inv (delete_profile i)"
  unfolding delete_profile_def by (intro db_rules)

lemma set_device_last_selected_inv [db_rules, intro]: "keeps store_inv (set_device_last_selected now i p)"
  unfolding set_device_last_selected_def by (intro update_devices_keeps) auto

lemma consume_one_time_profile_inv [db_rules, intro]: "keeps store_inv (consume_one_time_profile now i p)"
  unfolding consume_one_time_profile_def by (intro update_devices_keeps) auto

lemma validate_profile_assignment_checks:
  "checks (validate_profile_assignment_id ref field) (\<lambda>s. assignment_ok (st_profiles s) ref)"
  by (auto simp: checks_def validate_profile_assignment_id_def db_bind_def ok_or_def assignment_ok_iff
      validate_assignable_profile_def validate_assignable_profile_fields_def runnable_def
      split: option.splits if_splits dest!: find_Some_in)

lemma create_device_inv [db_rules, intro]: "keeps store_inv (create_device now input)"
  unfolding create_device_def
proof (rule keeps_bind_lift)
  fix mac assume mac: "normalize_mac (cdr_mac input) = Inr mac"
  show "keeps store_inv (let hostname = clean_optional_string (cdr_hostname input);
         serial_number = clean_optional_string (cdr_serial_number input);
         notes = (case cdr_notes input of None \<Rightarrow> [] | Some n \<Rightarrow> n);
         tags = clean_tags (case cdr_tags input of None \<Rightarrow> [] | Some t \<Rightarrow> t)
     in db_then (db_lift (validate_device_metadata hostname serial_number notes tags))
       (db_then (validate_profile_assignment_id (cdr_default_profile_id input) ''device default_profile_id'')
       (db_then (validate_profile_assignment_id (cdr_one_time_profile_id input) ''device one_time_profile_id'')
       (db_then (insert_device (\<lambda>i. (new_device_row mac now i)
                   \<lparr> dev_hostname := hostname, dev_serial_number := serial_number, dev_notes := notes,
                     dev_tags := tags, dev_default_profile_id := cdr_default_profile_id input,
                     dev_one_time_profile_id := cdr_one_time_profile_id input \<rparr>))
       (db_bind (get_device_by_mac mac) (\<lambda>device. db_lift (ok_or device NotFound)))))))"
    unfolding Let_def
    by (rule keeps_then_lift, rule keeps_check [OF validate_profile_assignment_checks],
        rule check_step [OF validate_profile_assignment_checks], assumption,
        rule then_step, rule insert_device_inv [OF _ refl], assumption)
       (use mac in \<open>auto simp: row_ok_def new_device_row_def normalize_mac_eq_Inr intro!: db_rules\<close>)
qed

lemma update_device_inv [db_rules, intro]: "keeps store_inv (update_device now i input)"
  unfolding update_device_def Let_def
  by (rule keeps_bind, rule store_reads, rule keeps_then_lift,
      rule keeps_check [OF validate_profile_assignment_checks],
      rule check_step [OF validate_profile_assignment_checks], assumption,
      rule then_step, rule update_devices_inv, assumption)
     (auto intro!: db_rules)

lemma clear_default_profiles_inv [db_rules, intro]: "keeps store_inv clear_default_profiles"
  unfolding keeps_iff clear_default_profiles_def
  by (intro allI impI write_profiles_inv) (auto simp: runnable_def)

lemma runnable_assignable:
  "validate_assignable_profile_fields f e t r = Inr x \<longleftrightarrow> e \<and> profile_fields_have_boot_action t r"
  by (auto simp: validate_assignable_profile_fields_def)

lemma not_assignable:
  "\<not> (e \<and> profile_fields_have_boot_action t r) \<Longrightarrow> \<exists>x. validate_assignable_profile_fields f e t r = Inl x"
  by (auto simp: validate_assignable_profile_fields_def)

lemma insert_profile_inv:
  assumes inv: "store_inv s" and i: "i = st_profile_seq s + 1" and id: "prof_id (mk i) = i"
    and d: "prof_is_default (mk i) \<Longrightarrow> runnable (mk i)"
  shows "store_inv (snd (insert_profile mk s))"
proof (rule write_profiles_cases [of "\<lambda>s'. st_profiles s' @ [mk i]" s])
  let ?rows = "st_profiles s @ [mk i]"
  assume u: "profiles_unique ?rows"
    and w: "write_profiles (\<lambda>s'. st_profiles s' @ [mk i]) s = (Inr (), s \<lparr> st_profiles := ?rows \<rparr>)"
  have fresh: "i \<notin> prof_id ` set (st_profiles s)"
    using store_inv_profiles [OF inv] i by (fastforce simp: list_all_iff)
  have "store_inv (s \<lparr> st_profiles := ?rows, st_profile_seq := i \<rparr>)"
  proof (rule store_inv_set_profiles [OF inv u])
    show "list_all (\<lambda>p. prof_id p \<le> i \<and> (prof_is_default p \<longrightarrow> runnable p)) ?rows"
      using store_inv_profiles [OF inv] id d i by (fastforce simp: list_all_iff)
    show "assignment_ok ?rows (dev_default_profile_id x) \<and> assignment_ok ?rows (dev_one_time_profile_id x)"
      if "x \<in> set (st_devices s)" for x
      using store_inv_assignments [OF inv that] by (auto simp: assignment_ok_iff)
  qed (use store_inv_profiles [OF inv] fresh id in auto)
  then show ?thesis by (simp add: insert_profile_def Let_def w i [symmetric])
qed (simp add: insert_profile_def Let_def i [symmetric] inv)

lemma create_profile_inv [db_rules, intro]: "keeps store_inv (create_profile now input)"
proof -
  let ?r = "clean_optional_string (cbp_raw_script input)"
  have ins: "keeps store_inv (insert_profile (\<lambda>i.
           \<lparr> prof_id = i, prof_managed_profile_id = None, prof_name = n, prof_description = ds,
             prof_type = ty, prof_enabled = en, prof_is_default = df, prof_one_time = ot,
             prof_raw_script = rs, prof_created_at = now, prof_updated_at = now \<rparr>))"
    if "df \<Longrightarrow> en \<and> profile_fields_have_boot_action ty rs" for n ds ty en df ot rs
    unfolding keeps_iff using that
    by (intro allI impI insert_profile_inv [OF _ refl]) (simp_all add: runnable_def)
  show ?thesis
  proof (cases "unwrap_or (cbp_is_default input) False")
    case True
    show ?thesis
    proof (cases "unwrap_or (cbp_enabled input) True \<and> profile_fields_have_boot_action (cbp_profile_type input) ?r")
      case True
      then show ?thesis unfolding create_profile_def Let_def by (intro db_rules ins) auto
    next
      case False
      with \<open>unwrap_or (cbp_is_default input) False\<close> show ?thesis
        unfolding create_profile_def Let_def
        by (auto simp: keeps_iff db_then_def db_bind_def validate_assignable_profile_fields_def
            split: prod.splits sum.splits)
    qed
  next
    case False
    then show ?thesis unfolding create_profile_def Let_def by (auto intro!: db_rules ins)
  qed
qed

lemma no_assignment_checks:
  "checks (validate_profile_has_no_device_assignments i)
     (\<lambda>s. \<forall>d \<in> set (st_devices s). dev_default_profile_id d \<noteq> Some i \<and> dev_one_time_profile_id d \<noteq> Some i)"
  by (auto simp: checks_def validate_profile_has_no_device_assignments_def db_bind_def count_where_def
      filter_empty_conv)

lemma update_profile_write_inv:
  assumes inv: "store_inv s"
    and d: "prof_is_default p' \<Longrightarrow> runnable p'"
    and a: "runnable p' \<or> (\<forall>d \<in> set (st_devices s). dev_default_profile_id d \<noteq> Some i \<and> dev_one_time_profile_id d \<noteq> Some i)"
    and f: "\<And>p. prof_id p = i \<Longrightarrow> prof_id (f p) = i \<and> prof_is_default (f p) = prof_is_default p' \<and> runnable (f p) = runnable p'"
  shows "store_inv (snd (write_profiles (\<lambda>s. update_where (\<lambda>p. prof_id p = i) f (st_profiles s)) s))"
  using d a f by (intro write_profiles_inv [OF inv]) blast

lemma update_profile_inv [db_rules, intro]: "keeps store_inv (update_profile now i input)"
  unfolding update_profile_def Let_def
proof (intro keeps_bind keeps_then_lift, rule store_reads)
  fix cur :: boot_profile
  let ?ty = "unwrap_or (ubp_profile_type input) (prof_type cur)"
  let ?en = "unwrap_or (ubp_enabled input) (prof_enabled cur)"
  let ?df = "unwrap_or (ubp_is_default input) (prof_is_default cur)"
  let ?rs = "unwrap_or (map_option clean_optional_string (ubp_raw_script input)) (prof_raw_script cur)"
  let ?f = "\<lambda>p :: boot_profile. p \<lparr> prof_name := trim (unwrap_or (ubp_name input) (prof_name cur)),
     prof_description := unwrap_or (ubp_description input) (prof_description cur), prof_type := ?ty,
     prof_enabled := ?en, prof_is_default := ?df,
     prof_one_time := unwrap_or (ubp_one_time input) (prof_one_time cur), prof_raw_script := ?rs, prof_updated_at := now \<rparr>"
  let ?w = "write_profiles (\<lambda>s. update_where (\<lambda>p. prof_id p = i) ?f (st_profiles s))"
  note w = update_profile_write_inv [where f = ?f and p' = "?f cur"]
  have good: "keeps store_inv ?w" if "?en" "profile_fields_have_boot_action ?ty ?rs"
    unfolding keeps_iff using that by (intro allI impI w) (simp_all add: runnable_def)
  show "keeps store_inv (db_then
     (if ?df then db_then (db_lift (validate_assignable_profile_fields ''default profile'' ?en ?ty ?rs)) clear_default_profiles
      else if \<not> profile_fields_have_boot_action ?ty ?rs \<or> \<not> ?en then validate_profile_has_no_device_assignments i
      else db_ret ()) (db_then ?w (get_profile i)))" (is "keeps store_inv (db_then (if ?df then db_then (db_lift ?v) _ else _) _)")
  proof (cases ?df)
    case True
    show ?thesis
    proof (cases "?en \<and> profile_fields_have_boot_action ?ty ?rs")
      case good': True
      then show ?thesis using True good by (auto intro!: db_rules)
    next
      case False
      then obtain e where "?v = Inl e" using not_assignable by blast
      then show ?thesis using True by (simp add: keeps_iff db_then_def db_bind_def)
    qed
  next
    case nd: False
    show ?thesis
    proof (cases "\<not> profile_fields_have_boot_action ?ty ?rs \<or> \<not> ?en")
      case True
      have "keeps store_inv (db_then (validate_profile_has_no_device_assignments i) (db_then ?w (get_profile i)))"
      proof (rule keeps_check [OF no_assignment_checks], rule then_step)
        fix s
        assume "store_inv s"
          and "\<forall>d \<in> set (st_devices s). dev_default_profile_id d \<noteq> Some i \<and> dev_one_time_profile_id d \<noteq> Some i"
        then show "store_inv (snd (?w s))" using nd by (intro w) (simp_all add: runnable_def)
      qed (rule store_reads)
      then show ?thesis using nd True by simp
    next
      case False
      then show ?thesis using nd good by (auto intro!: db_rules)
    qed
  qed
qed

lemma insert_event_inv:
  assumes "\<And>i. ev_id (mk i) = i"
  shows "keeps store_inv (insert_event mk)"
proof (unfold keeps_iff, intro allI impI)
  fix s assume inv: "store_inv s"
  have "ev_id e \<noteq> st_event_seq s + 1" if "e \<in> set (st_events s)" for e
    using inv that by (fastforce simp: store_inv_def events_inv_def list_all_iff)
  with inv assms show "store_inv (snd (insert_event mk s))"
    by (fastforce simp: insert_event_def Let_def store_inv_def devices_inv_def profiles_inv_def events_inv_def
        event_fk_def list_all_iff)
qed

lemma prune_boot_events_inv [db_rules, intro]: "keeps store_inv (prune_boot_events n)"
  by (auto simp: keeps_iff prune_boot_events_def store_inv_def devices_inv_def profiles_inv_def events_inv_def
      event_fk_def list_all_iff distinct_delete_where)

lemma insert_boot_event_inv [db_rules, intro]: "keeps store_inv (insert_boot_event_with_retention now ev n)"
  unfolding insert_boot_event_with_retention_def by (intro db_rules insert_event_inv) (simp add: new_event_row_def)

section \<open>Runs of the store\<close>

text \<open>The state-changing calls of the store interface.\<close>

datatype store_call =
    UpsertSeen str str "str option"
  | TouchSeen str int
  | RemoveUnclaimed int
  | CreateDevice str create_device_request
  | UpdateDevice str int update_device_request
  | DeleteDevice int
  | SetLastSelected str int int
  | ConsumeOneTime str int int
  | CreateProfile str create_boot_profile_request
  | UpdateProfile str int update_boot_profile_request
  | DeleteProfile int
  | InsertEvent str new_boot_event

fun run_call :: "store_call \<Rightarrow> store \<Rightarrow> store" where
  "run_call (UpsertSeen now mac serial) s = snd (upsert_seen_device now mac serial s)"
| "run_call (TouchSeen now i) s = snd (touch_device_seen now i s)"
| "run_call (RemoveUnclaimed i) s = snd (remove_unclaimed_auto_discovered_device i s)"
| "run_call (CreateDevice now r) s = snd (create_device now r s)"
| "run_call (UpdateDevice now i r) s = snd (update_device now i r s)"
| "run_call (DeleteDevice i) s = snd (delete_device i s)"
| "run_call (SetLastSelected now i p) s = snd (set_device_last_selected now i p s)"
| "run_call (ConsumeOneTime now i p) s = snd (consume_one_time_profile now i p s)"
| "run_call (CreateProfile now r) s = snd (create_profile now r s)"
| "run_call (UpdateProfile now i r) s = snd (update_profile now i r s)"
| "run_call (DeleteProfile i) s = snd (delete_profile i s)"
| "run_call (InsertEvent now e) s = snd (insert_boot_event now e s)"

text \<open>The store the migrations leave: the local-disk profile, default and enabled.\<close>

definition seeded_store :: "str \<Rightarrow> store" where
  "seeded_store now =
     \<lparr> st_devices = [], st_device_seq = 0,
       st_profiles =
         [\<lparr> prof_id = 1, prof_managed_profile_id = None, prof_name = ''Local disk'',
            prof_description = ''Return control to UEFI firmware so the next local boot target can start.'',
            prof_type = LocalDisk, prof_enabled = True, prof_is_default = True, prof_one_time = False,
            prof_raw_script = None, prof_created_at = now, prof_updated_at = now \<rparr>],
       st_profile_seq = 1, st_events = [], st_event_seq = 0 \<rparr>"

inductive store_init :: "store \<Rightarrow> bool" where
  "store_init (seeded_store now)"

inductive store_step :: "store \<Rightarrow> store \<Rightarrow> bool" where
  "store_step s (run_call c s)"

lemma seeded_store_inv: "store_inv (seeded_store now)"
  by (simp add: seeded_store_def store_inv_def devices_inv_def profiles_inv_def events_inv_def
      devices_unique_def profiles_unique_def somes_def map_filter_simps runnable_def
      profile_fields_have_boot_action_def)

lemma run_call_inv: "store_inv s \<Longrightarrow> store_inv (run_call c s)"
  by (cases c) (simp_all add: upsert_seen_device_def insert_boot_event_def keeps_snd db_rules)

interpretation store_sys: invariant_system store_init store_step store_inv
proof
  show "store_inv s" if "store_init s" for s
    using that by (cases rule: store_init.cases) (simp add: seeded_store_inv)
  show "store_inv t" if "store_inv s" "store_step s t" for s t
    using that(2,1) by (cases rule: store_step.cases) (simp add: run_call_inv)
qed

section \<open>Retention\<close>

lemma in_retained_auto_ids:
  assumes "distinct (map dev_id rows)" and "d \<in> set rows"
  shows "dev_id d \<in> set (retained_auto_ids n rows) \<longleftrightarrow>
         d \<in> set (take (nat (max n 1)) (order_desc (\<lambda>r. (seen_or_created r, dev_id r)) (filter auto_discovered rows)))"
proof -
  have "set (take (nat (max n 1)) (order_desc (\<lambda>r. (seen_or_created r, dev_id r)) (filter auto_discovered rows)))
      \<subseteq> set rows" using set_take_order_desc by fastforce
  then show ?thesis
    using assms distinct_key_unique [OF assms(1)] by (auto simp: retained_auto_ids_def)
qed

lemma length_filter_distinct_subset:
  assumes "distinct xs" and "set (filter p xs) \<subseteq> set ys"
  shows "length (filter p xs) \<le> length ys"
  by (metis assms card_length card_mono distinct_card distinct_filter finite_set le_trans)

lemma prune_auto_discovered_devices_eq:
  "st_devices (snd (prune_auto_discovered_devices n s)) =
     delete_where (\<lambda>r. auto_discovered r \<and> dev_id r \<notin> set (retained_auto_ids n (st_devices s))) (st_devices s)"
  by (simp add: prune_auto_discovered_devices_def delete_devices_def Let_def db_then_def db_bind_def)

lemma pruned_devices:
  assumes "distinct (map dev_id (st_devices s))" and "prune_auto_discovered_devices n s = (r, t)"
  shows "r = Inr ()" and "st_profiles t = st_profiles s"
    and "st_devices t = filter (\<lambda>d. auto_discovered d \<longrightarrow> d \<in> set (st_devices t)) (st_devices s)"
    and "length (filter auto_discovered (st_devices t)) = min (nat (max n 1)) (length (filter auto_discovered (st_devices s)))"
    and "gone \<in> set (st_devices s) - set (st_devices t) \<Longrightarrow> kept \<in> set (st_devices t) \<Longrightarrow> auto_discovered kept \<Longrightarrow>
      (seen_or_created gone, dev_id gone) < (seen_or_created kept, dev_id kept)"
    and "st_events t = map (\<lambda>e. if \<exists>gone \<in> set (st_devices s) - set (st_devices t). ev_device_id e = Some (dev_id gone)
                                then e \<lparr> ev_device_id := None \<rparr> else e) (st_events s)"
proof -
  let ?key = "\<lambda>r. (seen_or_created r, dev_id r)"
  let ?all = "filter auto_discovered (st_devices s)"
  let ?kept = "take (nat (max n 1)) (order_desc ?key ?all)"
  have ds: "distinct (st_devices s)" using assms(1) by (simp add: distinct_map)
  let ?gone = "\<lambda>r. auto_discovered r \<and> dev_id r \<notin> set (retained_auto_ids n (st_devices s))"
  from assms(2) show "r = Inr ()" and "st_profiles t = st_profiles s"
    by (auto simp: prune_auto_discovered_devices_def delete_devices_def Let_def db_then_def db_bind_def)
  have t: "st_devices t = delete_where ?gone (st_devices s)"
    using prune_auto_discovered_devices_eq [of n s] assms(2) by simp
  have gone: "?gone d \<longleftrightarrow> auto_discovered d \<and> d \<notin> set ?kept" if "d \<in> set (st_devices s)" for d
    using in_retained_auto_ids [OF assms(1) that] by simp
  then have set_t: "set (st_devices t) = {d \<in> set (st_devices s). auto_discovered d \<longrightarrow> d \<in> set ?kept}"
    unfolding t by (auto simp: delete_where_def)
  show "st_devices t = filter (\<lambda>d. auto_discovered d \<longrightarrow> d \<in> set (st_devices t)) (st_devices s)"
    unfolding set_t t delete_where_def using gone by (intro filter_cong) auto
  have "set (filter auto_discovered (st_devices t)) = set ?kept"
    using set_t set_take_order_desc [of "nat (max n 1)" ?key ?all] by auto
  moreover have "distinct (filter auto_discovered (st_devices t))" "distinct ?kept"
    using ds by (simp_all add: t delete_where_def order_desc_def)
  ultimately have "length (filter auto_discovered (st_devices t)) = length ?kept" by (metis distinct_card)
  then show "length (filter auto_discovered (st_devices t)) = min (nat (max n 1)) (length ?all)" by (simp add: min.commute)
  have "inj_on ?key (set ?all)" using assms(1) by (auto simp: distinct_map inj_on_def)
  then show "?key gone < ?key kept"
    if "gone \<in> set (st_devices s) - set (st_devices t)" "kept \<in> set (st_devices t)" "auto_discovered kept"
    using that by (intro order_desc_take_greatest_strict [of ?key ?all gone "nat (max n 1)" kept]) (auto simp: set_t)
  have "st_events t = map (\<lambda>e. e \<lparr> ev_device_id := null_ref (\<lambda>i. list_ex (\<lambda>r. ?gone r \<and> dev_id r = i) (st_devices s)) (ev_device_id e) \<rparr>) (st_events s)"
    using assms(2) by (auto simp: prune_auto_discovered_devices_def delete_devices_def Let_def db_then_def db_bind_def)
  moreover have "list_ex (\<lambda>r. ?gone r \<and> dev_id r = i) (st_devices s) \<longleftrightarrow>
      (\<exists>gone \<in> set (st_devices s) - set (st_devices t). i = dev_id gone)" for i
    using gone by (auto simp: list_ex_iff set_t)
  ultimately show "st_events t = map (\<lambda>e. if \<exists>gone \<in> set (st_devices s) - set (st_devices t). ev_device_id e = Some (dev_id gone)
                                then e \<lparr> ev_device_id := None \<rparr> else e) (st_events s)"
    by (auto simp: null_ref_def split: option.splits)
qed

lemma in_retained_event_ids:
  assumes "distinct (map ev_id es)" and "e \<in> set es"
  shows "ev_id e \<in> set (retained_event_ids n es) \<longleftrightarrow>
         e \<in> set (take (nat (max n 1)) (order_desc ev_id es)) \<or>
         e \<in> set (take (nat (max n 1)) (order_desc ev_id (filter chosen_event es)))"
proof -
  have "set (take (nat (max n 1)) (order_desc ev_id es)) \<subseteq> set es"
    and "set (take (nat (max n 1)) (order_desc ev_id (filter chosen_event es))) \<subseteq> set es"
    using set_take_order_desc by fastforce+
  then show ?thesis
    using assms distinct_key_unique [OF assms(1)] by (auto simp: retained_event_ids_def)
qed

lemma retained_events_set:
  assumes "distinct (map ev_id es)"
  shows "set (delete_where (\<lambda>x. ev_id x \<notin> set (retained_event_ids n es)) es) =
         set (take (nat (max n 1)) (order_desc ev_id es)) \<union>
         set (take (nat (max n 1)) (order_desc ev_id (filter chosen_event es)))" (is "?L = ?A \<union> ?B")
proof -
  have A: "?A \<subseteq> set es" by (rule set_take_order_desc)
  have B: "?B \<subseteq> set es"
    by (rule order_trans [OF set_take_order_desc filter_is_subset])
  have "x \<in> ?L \<longleftrightarrow> x \<in> set es \<and> x \<in> ?A \<union> ?B" for x
    unfolding set_delete_where using in_retained_event_ids [OF assms] by blast
  with A B show ?thesis by blast
qed

lemma newest_retained:
  assumes "\<forall>x \<in> set es. ev_id x < ev_id e" and "0 < k"
  shows "e \<in> set (take k (order_desc ev_id (es @ [e])))" (is "e \<in> set ?K")
proof (rule ccontr)
  assume no: "e \<notin> set ?K"
  have "order_desc ev_id (es @ [e]) \<noteq> []" by (metis length_order_desc length_0_conv snoc_eq_iff_butlast)
  with assms(2) have "?K \<noteq> []" by simp
  then obtain x where x: "x \<in> set ?K" by (meson hd_in_set)
  have "ev_id e \<le> ev_id x" by (rule order_desc_take_greatest [OF _ no x]) simp
  moreover have "x \<in> set es" using x no set_take_order_desc [of k ev_id "es @ [e]"] by auto
  ultimately show False using assms(1) by auto
qed

lemma insert_boot_event_ok:
  assumes "insert_boot_event_with_retention now ev n s = (Inr e, t)"
    and "\<forall>x \<in> set (st_events s). ev_id x < st_event_seq s + 1"
  shows "e = new_event_row now ev (st_event_seq s + 1)"
    and "st_events t = delete_where (\<lambda>x. ev_id x \<notin> set (retained_event_ids n (st_events s @ [e]))) (st_events s @ [e])"
proof -
  define e' where "e' = new_event_row now ev (st_event_seq s + 1)"
  have ins: "find (\<lambda>x. ev_id x = st_event_seq s + 1) (st_events s @ [e']) = Some e"
    and t: "st_events t = delete_where (\<lambda>x. ev_id x \<notin> set (retained_event_ids n (st_events s @ [e']))) (st_events s @ [e'])"
    using assms(1) unfolding insert_boot_event_with_retention_def insert_event_def get_boot_event_def
      prune_boot_events_def Let_def e'_def
    by (auto simp: result_simps split: if_splits)
  have "e \<in> set (st_events s @ [e'])" "ev_id e = st_event_seq s + 1" using find_Some_in [OF ins] by simp_all
  then have "e = e'" using assms(2) by auto
  then show "e = new_event_row now ev (st_event_seq s + 1)"
    and "st_events t = delete_where (\<lambda>x. ev_id x \<notin> set (retained_event_ids n (st_events s @ [e]))) (st_events s @ [e])"
    using t by (simp_all add: e'_def)
qed

section \<open>Lookups after writes\<close>

lemma get_device_ok: "get_device i s = (Inr d, t) \<Longrightarrow> t = s \<and> (\<exists>r \<in> set (st_devices s). dev_id r = i \<and> d = device_of r)"
  by (auto simp: get_device_def result_simps dest!: find_Some_in)

lemma get_device_by_mac_ok:
  "get_device_by_mac m s = (Inr (Some d), t) \<Longrightarrow>
     t = s \<and> (\<exists>r \<in> set (st_devices s). d = device_of r \<and> (\<exists>m'. normalize_mac m = Inr m' \<and> eq_ignore_ascii_case (dev_mac r) m'))"
  by (auto simp: get_device_by_mac_def result_simps dest!: find_Some_in)

lemma get_device_by_mac_None:
  "get_device_by_mac m s = (Inr None, t) \<Longrightarrow>
     t = s \<and> (\<exists>m'. normalize_mac m = Inr m' \<and> (\<forall>r \<in> set (st_devices s). \<not> eq_ignore_ascii_case (dev_mac r) m'))"
  by (auto simp: get_device_by_mac_def result_simps find_None_iff)

text \<open>The serial number of a device longer than the lookup's byte limit is never found.\<close>

lemma get_device_by_serial_long: "128 < length (trim serial) \<Longrightarrow> get_device_by_serial serial s = (Inr None, s)"
  by (simp add: get_device_by_serial_def)

lemma somes_append [simp]: "somes (xs @ ys) = somes xs @ somes ys"
  by (simp add: somes_def map_filter_def)

lemma set_somes: "set (somes xs) = {x. Some x \<in> set xs}"
  by (force simp: somes_def map_filter_def)

lemma insert_device_serial_clash:
  assumes "r \<in> set (st_devices s)" and "dev_serial_number r = Some sn"
    and "dev_serial_number (mk (st_device_seq s + 1)) = Some sn"
  shows "insert_device mk s = (Inl (Sqlx UniqueViolation), s)"
proof -
  have "Some sn \<in> dev_serial_number ` set (st_devices s)" using assms(1,2) by force
  then have "\<not> devices_unique (st_devices s @ [mk (st_device_seq s + 1)])"
    using assms(3) by (auto simp: devices_unique_def set_somes somes_def [of "[Some sn]"] map_filter_simps)
  then show ?thesis by (simp add: insert_device_def write_devices_def Let_def)
qed

lemma update_devices_same_constraints:
  assumes "\<And>d. mac_key (f d) = mac_key d" "\<And>d. row_managed_client_id (f d) = row_managed_client_id d"
    and "\<And>d. dev_serial_number (f d) = dev_serial_number d"
    and "devices_unique (st_devices s)"
    and "\<forall>d \<in> set (st_devices s). device_fk (st_profiles s) d \<and> (p d \<longrightarrow> device_fk (st_profiles s) (f d))"
  shows "update_devices p f s = (Inr (), s \<lparr> st_devices := update_where p f (st_devices s) \<rparr>)"
proof -
  have "map mac_key (update_where p f ds) = map mac_key ds"
    and "map row_managed_client_id (update_where p f ds) = map row_managed_client_id ds"
    and "map dev_serial_number (update_where p f ds) = map dev_serial_number ds" for ds
    using assms(1-3) by (simp_all add: update_where_def)
  then show ?thesis
    using assms(4,5)
    by (auto simp: update_devices_def write_devices_def Let_def devices_unique_def list_all_iff set_update_where)
qed

lemma to_ascii_lowercase_canonical:
  assumes "canonical_mac m"
  shows "to_ascii_lowercase m = m"
proof -
  have "to_ascii_lower c = c" if c: "c \<in> set m" for c
  proof -
    from canonical_mac_digits(4) [OF assms] c consider "c = CHR '':''" | "lower_hex c" by blast
    then show ?thesis by cases (simp add: to_ascii_lower_def is_ascii_upper_def code_def, simp)
  qed
  then show ?thesis by (simp add: to_ascii_lowercase_def map_idI)
qed

lemma eq_ignore_ascii_case_canonical:
  "canonical_mac m \<Longrightarrow> canonical_mac m' \<Longrightarrow> eq_ignore_ascii_case m m' \<longleftrightarrow> m = m'"
  by (simp add: eq_ignore_ascii_case_def to_ascii_lowercase_canonical)

lemma devices_update_same: "s \<lparr> st_devices := st_devices s \<rparr> = s"
  by (cases s) simp

lemma consume_one_time_profile_eq:
  assumes "store_inv s"
  shows "consume_one_time_profile now i p s =
    (Inr (), s \<lparr> st_devices := update_where (\<lambda>r. dev_id r = i \<and> dev_one_time_profile_id r = Some p)
       (\<lambda>r. r \<lparr> dev_one_time_profile_id := None, dev_one_time_consumed_at := Some now,
                dev_last_selected_profile_id := Some p, dev_updated_at := now \<rparr>) (st_devices s) \<rparr>)"
  unfolding consume_one_time_profile_def
  by (rule update_devices_same_constraints)
     (use assms in \<open>auto simp: store_inv_def devices_inv_def device_ok_def device_fk_def list_all_iff mac_key_def
        profile_exists_def\<close>)

lemma device_of_sel [simp]:
  "dev_id (device_of r) = dev_id r" "dev_mac (device_of r) = dev_mac r"
  "dev_serial_number (device_of r) = dev_serial_number r" "dev_last_seen_at (device_of r) = dev_last_seen_at r"
  "dev_one_time_profile_id (device_of r) = dev_one_time_profile_id r"
  "dev_default_profile_id (device_of r) = dev_default_profile_id r"
  by (simp_all add: device_of_def device.truncate_def)

lemma update_devices_eq_Inr:
  "update_devices p f s = (Inr u, t) \<Longrightarrow> t = s \<lparr> st_devices := update_where p f (st_devices s) \<rparr>"
  by (auto simp: update_devices_def write_devices_def Let_def split: if_splits)

text \<open>The row a touched device has afterwards.\<close>

lemma update_then_get:
  assumes "update_devices (\<lambda>r. dev_id r = i) f s = (Inr u, s')" and "get_device i s' = (Inr d, t)"
    and "\<And>r. dev_id (f r) = dev_id r"
  shows "\<exists>r \<in> set (st_devices s). dev_id r = i \<and> d = device_of (f r)"
    and "map dev_id (st_devices t) = map dev_id (st_devices s)"
proof -
  have s': "s' = s \<lparr> st_devices := update_where (\<lambda>r. dev_id r = i) f (st_devices s) \<rparr>"
    using assms(1) by (rule update_devices_eq_Inr)
  obtain q where t: "t = s'" and q: "q \<in> set (st_devices s')" "dev_id q = i" "d = device_of q"
    using get_device_ok [OF assms(2)] by blast
  have "q \<in> (\<lambda>r. if dev_id r = i then f r else r) ` set (st_devices s)"
    using q(1) by (simp add: s' set_update_where)
  then obtain r where "r \<in> set (st_devices s)" "q = (if dev_id r = i then f r else r)" by (rule imageE)
  with q assms(3) show "\<exists>r \<in> set (st_devices s). dev_id r = i \<and> d = device_of (f r)"
    by (cases "dev_id r = i") auto
  show "map dev_id (st_devices t) = map dev_id (st_devices s)"
    unfolding t s' by (simp add: update_where_def assms(3))
qed

lemma insert_device_eq_Inr:
  "insert_device mk s = (Inr i, t) \<Longrightarrow>
     i = st_device_seq s + 1 \<and> t = s \<lparr> st_devices := st_devices s @ [mk i], st_device_seq := i \<rparr>"
  by (auto simp: insert_device_def write_devices_def Let_def split: if_splits)

lemma seen_device_serial_number_keeps:
  "seen_device_serial_number i (Some sn) incoming s = (Inr x, t) \<Longrightarrow> x = Some sn \<and> t = s"
  by (auto simp: seen_device_serial_number_def split: option.splits)

lemma seen_device_serial_number_reads: "seen_device_serial_number i sn incoming s = (Inr x, t) \<Longrightarrow> t = s"
  by (auto simp: seen_device_serial_number_def get_device_by_serial_def Let_def result_simps
      split: option.splits if_splits)

lemma get_device_by_mac_cases:
  assumes "store_inv s" and "canonical_mac m"
  obtains "get_device_by_mac m s = (Inr None, s)" "m \<notin> dev_mac ` set (st_devices s)"
  | r where "get_device_by_mac m s = (Inr (Some (device_of r)), s)" "r \<in> set (st_devices s)" "dev_mac r = m"
proof (cases "find (\<lambda>r. eq_ignore_ascii_case (dev_mac r) m) (st_devices s)")
  case None
  then have "m \<notin> dev_mac ` set (st_devices s)"
    by (auto simp: find_None_iff eq_ignore_ascii_case_def)
  with None assms(2) show thesis by (intro that(1)) (auto simp: get_device_by_mac_def)
next
  case (Some r)
  have r: "r \<in> set (st_devices s)" "eq_ignore_ascii_case (dev_mac r) m" using find_Some_in [OF Some] by auto
  moreover have "canonical_mac (dev_mac r)"
    using store_inv_rows [OF assms(1)] r(1) by (auto simp: list_all_iff row_ok_def)
  ultimately have "dev_mac r = m" using eq_ignore_ascii_case_canonical assms(2) by blast
  with r Some assms(2) show thesis by (intro that(2)) (auto simp: get_device_by_mac_def)
qed

text \<open>The devices that a lookup finds under the serial number a machine announces, and the serial number
  that a device has after it was seen.\<close>

definition bears_serial :: "str option \<Rightarrow> device_row \<Rightarrow> bool" where
  "bears_serial serial r =
     (case Option.bind serial clean_str_ref of
        None \<Rightarrow> False
      | Some sn \<Rightarrow> length sn \<le> 128 \<and> dev_serial_number r = Some sn)"

definition learned_serial :: "device_row list \<Rightarrow> str option \<Rightarrow> device_row \<Rightarrow> str option" where
  "learned_serial rows serial r =
     (case dev_serial_number r of
        Some sn \<Rightarrow> Some sn
      | None \<Rightarrow> if list_ex (bears_serial serial) rows then None else Option.bind serial clean_str_ref)"

lemma clean_str_refD: "clean_str_ref v = Some sn \<Longrightarrow> trim sn = sn \<and> sn \<noteq> []"
  by (auto simp: clean_str_ref_def Let_def split: if_splits)

lemma get_device_by_serial_bears:
  assumes "Option.bind serial clean_str_ref = Some sn"
  shows "get_device_by_serial sn s = (Inr (map_option device_of (find (bears_serial serial) (st_devices s))), s)"
proof -
  have sn: "trim sn = sn" "sn \<noteq> []" using assms clean_str_refD by (auto simp: bind_eq_Some_conv)
  have "bears_serial serial = (\<lambda>r. length sn \<le> 128 \<and> dev_serial_number r = Some sn)"
    using assms by (auto simp: bears_serial_def)
  with sn show ?thesis by (cases "length sn \<le> 128") (auto simp: get_device_by_serial_def find_None_iff)
qed

lemma seen_device_serial_number_learned:
  assumes "distinct (map dev_id (st_devices s))" and "r \<in> set (st_devices s)"
  shows "seen_device_serial_number (dev_id r) (dev_serial_number r) serial s = (Inr (learned_serial (st_devices s) serial r), s)"
proof (cases "dev_serial_number r = None \<and> Option.bind serial clean_str_ref \<noteq> None")
  case True
  then obtain sn where sn: "Option.bind serial clean_str_ref = Some sn" by auto
  show ?thesis
  proof (cases "find (bears_serial serial) (st_devices s)")
    case None
    then have "\<not> list_ex (bears_serial serial) (st_devices s)" by (auto simp: find_None_iff list_ex_iff)
    with None True sn show ?thesis
      by (simp add: seen_device_serial_number_def get_device_by_serial_bears [OF sn] learned_serial_def)
  next
    case (Some q)
    then have q: "q \<in> set (st_devices s)" "bears_serial serial q" by (auto dest!: find_Some_in)
    have "dev_id q \<noteq> dev_id r"
      using distinct_key_unique [OF assms(1) q(1) assms(2)] q(2) True sn by (auto simp: bears_serial_def)
    with True sn Some q show ?thesis
      by (auto simp: seen_device_serial_number_def get_device_by_serial_bears [OF sn] learned_serial_def list_ex_iff device_of_def
          device.defs)
  qed
next
  case False
  then show ?thesis
    by (auto simp: seen_device_serial_number_def learned_serial_def bears_serial_def list_ex_iff split: option.splits)
qed

lemma touched_row:
  assumes "distinct (map dev_id (st_devices s))" and "r \<in> set (st_devices s)" and "\<And>x. dev_id (f x) = dev_id x"
    and "update_devices (\<lambda>x. dev_id x = dev_id r) f s = (Inr u, s')" and "get_device (dev_id r) s' = (Inr d, t)"
  shows "d = device_of (f r)" and "t = s \<lparr> st_devices := map (\<lambda>x. if x = r then f r else x) (st_devices s) \<rparr>"
proof -
  have uniq: "dev_id q = dev_id r \<longleftrightarrow> q = r" if "q \<in> set (st_devices s)" for q
    using distinct_key_unique [OF assms(1) that assms(2)] by blast
  from update_then_get(1) [OF assms(4,5,3)] obtain q where "q \<in> set (st_devices s)" "dev_id q = dev_id r" "d = device_of (f q)" by blast
  with uniq show "d = device_of (f r)" by blast
  have "t = s'" using get_device_ok [OF assms(5)] by blast
  moreover have "update_where (\<lambda>x. dev_id x = dev_id r) f (st_devices s) = map (\<lambda>x. if x = r then f r else x) (st_devices s)"
    unfolding update_where_def using uniq by (intro map_cong refl) simp
  ultimately show "t = s \<lparr> st_devices := map (\<lambda>x. if x = r then f r else x) (st_devices s) \<rparr>"
    using update_devices_eq_Inr [OF assms(4)] by simp
qed

lemma inserted_device:
  assumes "store_inv s" and "canonical_mac m" and "m \<notin> dev_mac ` set (st_devices s)" and "\<And>i. dev_mac (mk i) = m"
    and "insert_device mk s = (Inr i, s1)" and "get_device_by_mac m s1 = (Inr (Some d), s2)"
  shows "d = device_of (mk (st_device_seq s + 1))"
    and "s1 = s \<lparr> st_devices := st_devices s @ [mk (st_device_seq s + 1)], st_device_seq := st_device_seq s + 1 \<rparr>" and "s2 = s1"
proof -
  note s1 = insert_device_eq_Inr [OF assms(5)]
  from get_device_by_mac_ok [OF assms(6)] assms(2) obtain r where
    r: "r \<in> set (st_devices s1)" "d = device_of r" "eq_ignore_ascii_case (dev_mac r) m" and s2: "s2 = s1" by auto
  have "r \<notin> set (st_devices s)"
  proof
    assume "r \<in> set (st_devices s)"
    moreover have "canonical_mac (dev_mac r)" using store_inv_rows [OF assms(1)] calculation
      by (auto simp: list_all_iff row_ok_def)
    ultimately show False using r(3) eq_ignore_ascii_case_canonical assms(2,3) by blast
  qed
  then have "r = mk (st_device_seq s + 1)" using r(1) s1 by auto
  with r(2) s1 s2 show "d = device_of (mk (st_device_seq s + 1))" "s2 = s1"
    "s1 = s \<lparr> st_devices := st_devices s @ [mk (st_device_seq s + 1)], st_device_seq := st_device_seq s + 1 \<rparr>" by simp_all
qed

text \<open>A device that was just added stays, unless another one was seen later.\<close>

lemma pruning_keeps_newest:
  assumes "store_inv s" and "auto_discovered r'" and "dev_id r' = st_device_seq s + 1"
    and "prune_auto_discovered_devices n (s \<lparr> st_devices := st_devices s @ [r'], st_device_seq := i \<rparr>) = (res, t)"
    and "\<forall>x \<in> set (st_devices s). auto_discovered x \<longrightarrow> seen_or_created x \<le> seen_or_created r'"
  shows "r' \<in> set (st_devices t)"
proof (rule ccontr)
  assume gone: "r' \<notin> set (st_devices t)"
  let ?s1 = "s \<lparr> st_devices := st_devices s @ [r'], st_device_seq := i \<rparr>"
  have ids: "dev_id x \<le> st_device_seq s" if "x \<in> set (st_devices s)" for x
    using store_inv_rows [OF assms(1)] that by (auto simp: list_all_iff row_ok_def)
  have "distinct (map dev_id (st_devices ?s1))"
    using store_inv_rows [OF assms(1)] ids assms(3) by fastforce
  note pruned = pruned_devices [OF this assms(4)]
  have "length (filter auto_discovered (st_devices t)) \<noteq> 0" using pruned(4) assms(2) by simp
  then obtain kept where kept: "kept \<in> set (st_devices t)" "auto_discovered kept"
    by (auto simp: filter_empty_conv)
  have "set (st_devices t) \<subseteq> set (st_devices ?s1)" by (subst pruned(3)) auto
  with kept gone have k: "kept \<in> set (st_devices s)" by auto
  from pruned(5) [of r' kept] gone kept have "(seen_or_created r', dev_id r') < (seen_or_created kept, dev_id kept)" by simp
  with assms(3,5) k kept(2) ids [OF k] show False by fastforce
qed

lemma upsert_known_address:
  assumes "store_inv s" and "normalize_mac mac = Inr m"
    and "upsert_seen_device_with_retention now mac serial n s = (Inr (d, known), t)"
    and g: "get_device_by_mac m s = (Inr (Some (device_of r)), s)" "r \<in> set (st_devices s)"
    and r': "r' = r \<lparr> dev_last_seen_at := Some now, dev_serial_number := learned_serial (st_devices s) serial r, dev_updated_at := now \<rparr>"
  shows "known \<and> d = device_of r' \<and> t = s \<lparr> st_devices := map (\<lambda>x. if x = r then r' else x) (st_devices s) \<rparr>"
proof -
  have dist: "distinct (map dev_id (st_devices s))" using store_inv_rows [OF assms(1)] by simp
  let ?f = "\<lambda>x. x \<lparr> dev_last_seen_at := Some now, dev_serial_number := learned_serial (st_devices s) serial r, dev_updated_at := now \<rparr>"
  from assms(3) seen_device_serial_number_learned [OF dist g(2), of serial] obtain s2 where
    up: "update_devices (\<lambda>x. dev_id x = dev_id r) ?f s = (Inr (), s2)"
    and get: "get_device (dev_id r) s2 = (Inr d, t)" and "known"
    by (auto simp: upsert_seen_device_with_retention_def assms(2) g result_simps)
  from touched_row [OF dist g(2) _ up get] \<open>known\<close> show ?thesis by (simp add: r')
qed

text \<open>The search by serial number that follows when the address is unknown.\<close>

lemma lookup_by_serial:
  "(case Option.bind serial clean_str_ref of Some sn \<Rightarrow> get_device_by_serial sn | None \<Rightarrow> db_ret None) s =
     (Inr (map_option device_of (find (bears_serial serial) (st_devices s))), s)"
  using get_device_by_serial_bears by (auto simp: bears_serial_def find_None_iff split: option.splits)

lemma upsert_known_serial:
  assumes "store_inv s" and "normalize_mac mac = Inr m"
    and "upsert_seen_device_with_retention now mac serial n s = (Inr (d, known), t)"
    and g: "get_device_by_mac m s = (Inr None, s)" and found: "find (bears_serial serial) (st_devices s) = Some r"
    and r': "r' = r \<lparr> dev_last_seen_at := Some now, dev_updated_at := now \<rparr>"
  shows "known \<and> d = device_of r' \<and> t = s \<lparr> st_devices := map (\<lambda>x. if x = r then r' else x) (st_devices s) \<rparr>"
proof -
  have dist: "distinct (map dev_id (st_devices s))" using store_inv_rows [OF assms(1)] by simp
  have r: "r \<in> set (st_devices s)" using find_Some_in [OF found] by simp
  let ?f = "\<lambda>x. x \<lparr> dev_last_seen_at := Some now, dev_updated_at := now \<rparr>"
  from assms(3) obtain s2 where
    up: "update_devices (\<lambda>x. dev_id x = dev_id r) ?f s = (Inr (), s2)"
    and get: "get_device (dev_id r) s2 = (Inr d, t)" and "known"
    by (auto simp: upsert_seen_device_with_retention_def assms(2) g lookup_by_serial found result_simps)
  from touched_row [OF dist r _ up get] \<open>known\<close> show ?thesis by (simp add: r')
qed

lemma upsert_new_device:
  assumes "store_inv s" and "normalize_mac mac = Inr m"
    and "upsert_seen_device_with_retention now mac serial n s = (Inr (d, known), t)"
    and g: "get_device_by_mac m s = (Inr None, s)" "m \<notin> dev_mac ` set (st_devices s)"
    and found: "find (bears_serial serial) (st_devices s) = None" and i: "i = st_device_seq s + 1"
    and r': "r' = (new_device_row m now i) \<lparr> dev_serial_number := Option.bind serial clean_str_ref, dev_last_seen_at := Some now \<rparr>"
  shows "\<not> known \<and> d = device_of r' \<and>
    prune_auto_discovered_devices n (s \<lparr> st_devices := st_devices s @ [r'], st_device_seq := i \<rparr>) = (Inr (), t) \<and>
    ((\<forall>x \<in> set (st_devices s). auto_discovered x \<longrightarrow> seen_or_created x \<le> now) \<longrightarrow> r' \<in> set (st_devices t))"
proof -
  have can: "canonical_mac m" using assms(2) by (simp add: normalize_mac_eq_Inr)
  let ?mk = "\<lambda>i. (new_device_row m now i) \<lparr> dev_serial_number := Option.bind serial clean_str_ref, dev_last_seen_at := Some now \<rparr>"
  from assms(3) obtain j s1 s2 where ins: "insert_device ?mk s = (Inr j, s1)" and get: "get_device_by_mac m s1 = (Inr (Some d), s2)"
    and prune: "prune_auto_discovered_devices n s2 = (Inr (), t)" and new: "\<not> known"
    by (auto simp: upsert_seen_device_with_retention_def assms(2) g lookup_by_serial found result_simps)
  have "dev_mac (?mk j) = m" for j by (simp add: new_device_row_def)
  note row = inserted_device [OF assms(1) can g(2) this ins get]
  have auto: "auto_discovered (?mk j)" "seen_or_created (?mk j) = now" "dev_id (?mk j) = j" for j
    by (simp_all add: auto_discovered_def seen_or_created_def new_device_row_def)
  show ?thesis
    using pruning_keeps_newest [OF assms(1) auto(1,3) prune [unfolded row(2,3)]] prune [unfolded row(2,3)] row(1) new auto(2)
    by (auto simp: i r')
qed

section \<open>Properties\<close>

text \<open>C1: in every store the interface can reach from the migrated one, hardware addresses
  are canonical and unique, serial numbers are unique, at most one profile is the default and it
  can boot, every profile a device is assigned to exists, is enabled and can boot, and every
  reference of devices and events points to an existing row.\<close>

theorem store_reachable_invariant:
  assumes "reach store_init store_step s"
  shows "distinct (map dev_mac (st_devices s)) \<and>
    distinct (somes (map dev_serial_number (st_devices s))) \<and>
    length (filter prof_is_default (st_profiles s)) \<le> 1 \<and>
    (\<forall>p \<in> set (st_profiles s). prof_is_default p \<longrightarrow> runnable p) \<and>
    (\<forall>d \<in> set (st_devices s). canonical_mac (dev_mac d) \<and> device_fk (st_profiles s) d \<and>
       assignment_ok (st_profiles s) (dev_default_profile_id d) \<and>
       assignment_ok (st_profiles s) (dev_one_time_profile_id d)) \<and>
    (\<forall>e \<in> set (st_events s). event_fk s e)"
proof -
  have inv: "store_inv s" using assms by (rule store_sys.reach_inv)
  then have "distinct (map to_ascii_lowercase (map dev_mac (st_devices s)))"
    by (simp add: store_inv_def devices_inv_def devices_unique_def mac_key_def [abs_def] comp_def)
  then have "distinct (map dev_mac (st_devices s))" unfolding distinct_map by blast
  with inv show ?thesis
    by (auto simp: store_inv_def devices_inv_def profiles_inv_def events_inv_def devices_unique_def
        profiles_unique_def device_ok_def list_all_iff)
qed

definition demo_store :: store where
  "demo_store = run_call (UpsertSeen ''t1'' ''AA-BB-CC-00-11-22'' (Some ''SN1'')) (seeded_store ''t0'')"

lemma demo_store_reach: "reach store_init store_step demo_store"
proof -
  have "reach store_init store_step (seeded_store ''t0'')" by (intro reach_init store_init.intros)
  then show ?thesis unfolding demo_store_def by (rule reach_step) (rule store_step.intros)
qed

theorem store_reachable_invariant_witness:
  "reach store_init store_step demo_store \<and> map dev_mac (st_devices demo_store) = [''aa:bb:cc:00:11:22''] \<and>
   length (filter prof_is_default (st_profiles demo_store)) \<le> 1"
proof -
  have "map dev_mac (st_devices demo_store) = [''aa:bb:cc:00:11:22'']" by code_simp
  with store_reachable_invariant [OF demo_store_reach] demo_store_reach show ?thesis by blast
qed

text \<open>C33: pruning discovered devices keeps, in their order, every device that anyone claimed, named,
  assigned, annotated or tagged, and of the discovered ones exactly as many as the retention bound
  allows, at least one: the most recently seen, of two seen at the same time the newer row. The
  profiles stay, and the boot events only lose their references to the removed devices.\<close>

theorem prune_auto_discovered_devices_spec:
  assumes "store_inv s" and "prune_auto_discovered_devices n s = (r, t)"
  shows "r = Inr () \<and> st_profiles t = st_profiles s \<and>
    st_devices t = filter (\<lambda>d. auto_discovered d \<longrightarrow> d \<in> set (st_devices t)) (st_devices s) \<and>
    length (filter auto_discovered (st_devices t)) = min (nat (max n 1)) (length (filter auto_discovered (st_devices s))) \<and>
    (\<forall>gone \<in> set (st_devices s) - set (st_devices t). \<forall>kept \<in> set (st_devices t). auto_discovered kept \<longrightarrow>
       seen_or_created gone < seen_or_created kept \<or> seen_or_created gone = seen_or_created kept \<and> dev_id gone < dev_id kept) \<and>
    st_events t = map (\<lambda>e. if \<exists>gone \<in> set (st_devices s) - set (st_devices t). ev_device_id e = Some (dev_id gone)
                           then e \<lparr> ev_device_id := None \<rparr> else e) (st_events s)"
proof -
  have "distinct (map dev_id (st_devices s))" using store_inv_rows [OF assms(1)] by simp
  note pruned = pruned_devices [OF this assms(2)]
  have "seen_or_created gone < seen_or_created kept \<or> seen_or_created gone = seen_or_created kept \<and> dev_id gone < dev_id kept"
    if "gone \<in> set (st_devices s) - set (st_devices t)" "kept \<in> set (st_devices t)" "auto_discovered kept" for gone kept
    using pruned(5) [OF that] by auto
  with pruned(1-4,6) show ?thesis by blast
qed

definition demo_two :: store where
  "demo_two = run_call (UpsertSeen ''t2'' ''AA-BB-CC-00-11-33'' None) demo_store"

theorem prune_auto_discovered_devices_spec_witness:
  "store_inv demo_two \<and> length (filter auto_discovered (st_devices demo_two)) = 2 \<and>
   (\<exists>r t. prune_auto_discovered_devices 1 demo_two = (r, t) \<and> r = Inr () \<and>
     length (filter auto_discovered (st_devices t)) = 1 \<and> map dev_mac (st_devices t) = [''aa:bb:cc:00:11:33''])"
proof -
  have inv: "store_inv demo_two" unfolding demo_two_def using demo_store_reach by (intro run_call_inv store_sys.reach_inv)
  obtain r t where p: "prune_auto_discovered_devices 1 demo_two = (r, t)" by (rule prod.exhaust)
  have two: "length (filter auto_discovered (st_devices demo_two)) = 2"
    and macs: "map dev_mac (st_devices (snd (prune_auto_discovered_devices 1 demo_two))) = [''aa:bb:cc:00:11:33'']" by code_simp+
  from prune_auto_discovered_devices_spec [OF inv p] have "r = Inr ()"
    "length (filter auto_discovered (st_devices t)) = min (nat (max 1 1)) (length (filter auto_discovered (st_devices demo_two)))" by blast+
  with inv p two macs show ?thesis by simp
qed

text \<open>Recording a boot event keeps the newest events up to the retention bound and, beyond
  them, the newest events in which a known device was given a profile; nothing else is kept, and
  the recorded event is among them.\<close>

theorem insert_boot_event_retention:
  assumes "store_inv s" and "insert_boot_event_with_retention now ev n s = (Inr e, t)"
  shows "ev_id e = st_event_seq s + 1 \<and> e \<in> set (st_events t) \<and>
    set (st_events t) =
      set (take (nat (max n 1)) (order_desc ev_id (st_events s @ [e]))) \<union>
      set (take (nat (max n 1)) (order_desc ev_id (filter chosen_event (st_events s @ [e])))) \<and>
    length (st_events t) \<le> 2 * nat (max n 1)"
proof -
  have ids: "distinct (map ev_id (st_events s))" "\<forall>x \<in> set (st_events s). ev_id x < st_event_seq s + 1"
    using assms(1) by (auto simp: store_inv_def events_inv_def list_all_iff)
  note ok = insert_boot_event_ok [OF assms(2) ids(2)]
  have eid: "ev_id e = st_event_seq s + 1" unfolding ok(1) by (simp add: new_event_row_def)
  have dist: "distinct (map ev_id (st_events s @ [e]))" using ids eid by auto
  note st = retained_events_set [OF dist, of n, folded ok(2)]
  have "e \<in> set (st_events t)"
    unfolding st by (rule UnI1, rule newest_retained) (use ids(2) eid in auto)
  moreover have "distinct (st_events t)"
    unfolding ok(2) delete_where_def using dist by (intro distinct_filter) (metis distinct_map)
  then have "length (st_events t) = card (set (st_events t))" by (simp add: distinct_card)
  then have "length (st_events t) \<le> length (take (nat (max n 1)) (order_desc ev_id (st_events s @ [e]))) +
      length (take (nat (max n 1)) (order_desc ev_id (filter chosen_event (st_events s @ [e]))))"
    unfolding st by (metis card_length length_append set_append)
  then have "length (st_events t) \<le> 2 * nat (max n 1)" unfolding length_take by linarith
  ultimately show ?thesis using eid st by blast
qed

definition demo_event :: new_boot_event where
  "demo_event =
     \<lparr> nev_device_id = None, nev_mac = Some ''aa:bb:cc:00:11:22'', nev_serial_number = None, nev_ip_address = None,
       nev_user_agent = None, nev_selected_profile_id = Some 1, nev_selected_profile_name = Some ''Local disk'',
       nev_known_device = True \<rparr>"

theorem insert_boot_event_retention_witness:
  "store_inv demo_store \<and> (\<exists>e t. insert_boot_event_with_retention ''t2'' demo_event 1 demo_store = (Inr e, t) \<and>
     ev_id e = 1 \<and> e \<in> set (st_events t))"
proof -
  have inv: "store_inv demo_store" using demo_store_reach by (rule store_sys.reach_inv)
  have ok: "is_ok (fst (insert_boot_event_with_retention ''t2'' demo_event 1 demo_store))" and q: "st_event_seq demo_store = 0"
    by code_simp+
  obtain r t where p: "insert_boot_event_with_retention ''t2'' demo_event 1 demo_store = (r, t)" by (rule prod.exhaust)
  with ok obtain e where "r = Inr e" unfolding is_ok_iff by auto
  with p have p: "insert_boot_event_with_retention ''t2'' demo_event 1 demo_store = (Inr e, t)" by simp
  have "ev_id e = st_event_seq demo_store + 1 \<and> e \<in> set (st_events t)"
    using insert_boot_event_retention [OF inv p] by blast
  with p inv q show ?thesis by auto
qed

text \<open>C5: consuming a one-time assignment clears it on exactly the device that still has it,
  records the consumption and the selection, and leaves every other device alone; consuming it
  again changes nothing.\<close>

theorem consume_one_time_profile_spec:
  assumes "store_inv s" and "consume_one_time_profile now i p s = (r, t)"
  shows "r = Inr () \<and>
    (\<forall>d \<in> set (st_devices s). dev_id d \<noteq> i \<or> dev_one_time_profile_id d \<noteq> Some p \<longrightarrow> d \<in> set (st_devices t)) \<and>
    (\<forall>d \<in> set (st_devices t). dev_id d = i \<longrightarrow> dev_one_time_profile_id d \<noteq> Some p) \<and>
    (\<forall>d \<in> set (st_devices s). dev_id d = i \<and> dev_one_time_profile_id d = Some p \<longrightarrow>
       (\<exists>d' \<in> set (st_devices t). dev_id d' = i \<and> dev_one_time_profile_id d' = None \<and>
          dev_one_time_consumed_at d' = Some now \<and> dev_last_selected_profile_id d' = Some p)) \<and>
    consume_one_time_profile later i p t = (Inr (), t)"
proof -
  have inv: "store_inv t" using keeps_snd [OF consume_one_time_profile_inv assms(1), of now i p] assms(2) by simp
  have t: "r = Inr ()" "t = s \<lparr> st_devices := update_where (\<lambda>r. dev_id r = i \<and> dev_one_time_profile_id r = Some p)
       (\<lambda>r. r \<lparr> dev_one_time_profile_id := None, dev_one_time_consumed_at := Some now,
                dev_last_selected_profile_id := Some p, dev_updated_at := now \<rparr>) (st_devices s) \<rparr>"
    using consume_one_time_profile_eq [OF assms(1), of now i p] unfolding assms(2) by blast+
  let ?P = "\<lambda>r. dev_id r = i \<and> dev_one_time_profile_id r = Some p"
  let ?F = "\<lambda>r. r \<lparr> dev_one_time_profile_id := None, dev_one_time_consumed_at := Some now,
                dev_last_selected_profile_id := Some p, dev_updated_at := now \<rparr>"
  have dt: "set (st_devices t) = (\<lambda>r. if ?P r then ?F r else r) ` set (st_devices s)"
    by (simp add: t(2) set_update_where)
  have gone: "\<not> ?P d" if d: "d \<in> set (st_devices t)" for d
  proof -
    obtain r where "d = (if ?P r then ?F r else r)" using d unfolding dt by (rule imageE)
    then show ?thesis by (cases "?P r") simp_all
  qed
  have "update_where ?P f (st_devices t) = st_devices t" for f by (rule update_where_id [OF gone])
  then have "consume_one_time_profile later i p t = (Inr (), t)"
    unfolding consume_one_time_profile_eq [OF inv] by (simp only: devices_update_same)
  moreover have "d \<in> set (st_devices t)" if "d \<in> set (st_devices s)" "\<not> ?P d" for d
    unfolding dt using that by (intro image_eqI [of _ _ d]) (simp_all only: if_False)
  moreover have "\<exists>d' \<in> set (st_devices t). dev_id d' = i \<and> dev_one_time_profile_id d' = None \<and>
          dev_one_time_consumed_at d' = Some now \<and> dev_last_selected_profile_id d' = Some p"
    if "d \<in> set (st_devices s)" "?P d" for d
    unfolding dt using that by (intro bexI [of _ "?F d"] image_eqI [of _ _ d]) simp_all
  ultimately show ?thesis using t(1) gone by blast
qed

definition demo_assigned :: store where
  "demo_assigned = run_call (UpdateDevice ''t2'' 1
     \<lparr> udr_hostname = None, udr_serial_number = None, udr_notes = None, udr_tags = None,
       udr_default_profile_id = None, udr_one_time_profile_id = Some (Some 1) \<rparr>) demo_store"

theorem consume_one_time_profile_spec_witness:
  "store_inv demo_assigned \<and> map dev_one_time_profile_id (st_devices demo_assigned) = [Some 1] \<and>
   (\<exists>t. consume_one_time_profile ''t3'' 1 1 demo_assigned = (Inr (), t) \<and>
      (\<forall>d \<in> set (st_devices t). dev_id d = 1 \<longrightarrow> dev_one_time_profile_id d \<noteq> Some 1))"
proof -
  have inv: "store_inv demo_assigned"
    unfolding demo_assigned_def using demo_store_reach by (intro run_call_inv store_sys.reach_inv)
  have a: "map dev_one_time_profile_id (st_devices demo_assigned) = [Some 1]" by code_simp
  obtain r t where p: "consume_one_time_profile ''t3'' 1 1 demo_assigned = (r, t)" by (rule prod.exhaust)
  from consume_one_time_profile_spec [OF inv p] p inv a show ?thesis by blast
qed

text \<open>C34: what a sighting of a machine changes. A device with the canonical address is only touched: its
  time, and its serial number if it had none and no other device has the announced one. With an unknown
  address, the device that a lookup finds under the announced serial number is only touched: its time
  and nothing else. Otherwise one new row is appended, with the next number, under the canonical
  address, and the discovered devices are pruned; the new row stays unless another discovered device was
  seen later. Nothing else of the store changes.\<close>

theorem upsert_seen_device_spec:
  assumes "store_inv s" and "normalize_mac mac = Inr m"
    and "upsert_seen_device_with_retention now mac serial n s = (Inr (d, known), t)"
  shows "case find (\<lambda>r. dev_mac r = m) (st_devices s) of
      Some r \<Rightarrow>
        (let r' = r \<lparr> dev_last_seen_at := Some now, dev_serial_number := learned_serial (st_devices s) serial r, dev_updated_at := now \<rparr>
         in known \<and> d = device_of r' \<and> t = s \<lparr> st_devices := map (\<lambda>x. if x = r then r' else x) (st_devices s) \<rparr>)
    | None \<Rightarrow>
        (case find (bears_serial serial) (st_devices s) of
           Some r \<Rightarrow>
             (let r' = r \<lparr> dev_last_seen_at := Some now, dev_updated_at := now \<rparr>
              in known \<and> d = device_of r' \<and> t = s \<lparr> st_devices := map (\<lambda>x. if x = r then r' else x) (st_devices s) \<rparr>)
         | None \<Rightarrow>
             (let i = st_device_seq s + 1;
                  r' = (new_device_row m now i) \<lparr> dev_serial_number := Option.bind serial clean_str_ref, dev_last_seen_at := Some now \<rparr>
              in \<not> known \<and> d = device_of r' \<and>
                 prune_auto_discovered_devices n (s \<lparr> st_devices := st_devices s @ [r'], st_device_seq := i \<rparr>) = (Inr (), t) \<and>
                 ((\<forall>x \<in> set (st_devices s). auto_discovered x \<longrightarrow> seen_or_created x \<le> now) \<longrightarrow> r' \<in> set (st_devices t))))"
proof -
  have can: "canonical_mac m" using assms(2) by (simp add: normalize_mac_eq_Inr)
  have dmac: "distinct (map mac_key (st_devices s))"
    using assms(1) by (simp add: store_inv_def devices_inv_def devices_unique_def)
  show ?thesis
  proof (rule get_device_by_mac_cases [OF assms(1) can])
    fix r
    assume g: "get_device_by_mac m s = (Inr (Some (device_of r)), s)" "r \<in> set (st_devices s)" "dev_mac r = m"
    have "distinct (map dev_mac (st_devices s))" using dmac by (auto simp: distinct_map inj_on_def mac_key_def)
    from find_key_unique [OF this g(2)] have "find (\<lambda>x. dev_mac x = m) (st_devices s) = Some r" by (simp add: g(3))
    with upsert_known_address [OF assms g(1,2)] show ?thesis by (simp add: Let_def)
  next
    assume g: "get_device_by_mac m s = (Inr None, s)" "m \<notin> dev_mac ` set (st_devices s)"
    then have f: "find (\<lambda>x. dev_mac x = m) (st_devices s) = None" by (auto simp: find_None_iff)
    show ?thesis
    proof (cases "find (bears_serial serial) (st_devices s)")
      case (Some r)
      from upsert_known_serial [OF assms g(1) Some refl] show ?thesis by (simp add: f Some Let_def)
    next
      case None
      from upsert_new_device [OF assms g None refl refl] show ?thesis by (simp add: f None Let_def)
    qed
  qed
qed

theorem upsert_seen_device_spec_witness:
  "store_inv demo_store \<and>
   (\<exists>d known t. upsert_seen_device_with_retention ''t5'' ''aabbcc001122'' (Some ''OTHER'') 10 demo_store = (Inr (d, known), t) \<and>
      known \<and> dev_mac d = ''aa:bb:cc:00:11:22'' \<and> dev_serial_number d = Some ''SN1'' \<and> dev_last_seen_at d = Some ''t5'')"
proof -
  have inv: "store_inv demo_store" using demo_store_reach by (rule store_sys.reach_inv)
  have m: "normalize_mac ''aabbcc001122'' = Inr ''aa:bb:cc:00:11:22''"
    and ok: "is_ok (fst (upsert_seen_device_with_retention ''t5'' ''aabbcc001122'' (Some ''OTHER'') 10 demo_store))"
    and row: "map_option (\<lambda>r. (dev_mac r, dev_serial_number r)) (find (\<lambda>r. dev_mac r = ''aa:bb:cc:00:11:22'') (st_devices demo_store)) =
      Some (''aa:bb:cc:00:11:22'', Some ''SN1'')"
    by code_simp+
  from row obtain r where found: "find (\<lambda>r. dev_mac r = ''aa:bb:cc:00:11:22'') (st_devices demo_store) = Some r"
    "dev_mac r = ''aa:bb:cc:00:11:22''" "dev_serial_number r = Some ''SN1''" by auto
  obtain x t where u: "upsert_seen_device_with_retention ''t5'' ''aabbcc001122'' (Some ''OTHER'') 10 demo_store = (x, t)"
    by (rule prod.exhaust)
  with ok obtain d known where "x = Inr (d, known)" unfolding is_ok_iff by auto
  with u have u: "upsert_seen_device_with_retention ''t5'' ''aabbcc001122'' (Some ''OTHER'') 10 demo_store = (Inr (d, known), t)"
    by simp
  from upsert_seen_device_spec [OF inv m u] found have "known" "dev_mac d = ''aa:bb:cc:00:11:22''" "dev_serial_number d = Some ''SN1''"
    "dev_last_seen_at d = Some ''t5''" by (auto simp: Let_def learned_serial_def)
  with inv u show ?thesis by blast
qed

text \<open>A serial number of more than 128 bytes, which \<^verbatim>\<open>create_device\<close> accepts when it has at
  most 128 characters, is invisible to the lookup by serial number; a boot of that machine with a
  new network card therefore fails with a database error instead of finding the device.\<close>

theorem upsert_long_serial_fails:
  assumes "store_inv s" and "r \<in> set (st_devices s)" and "dev_serial_number r = Some sn"
    and "trim sn = sn" and "128 < length sn"
    and "normalize_mac mac = Inr m" and "m \<notin> dev_mac ` set (st_devices s)"
  shows "upsert_seen_device now mac (Some sn) s = (Inl (Sqlx UniqueViolation), s)"
proof -
  have can: "canonical_mac m" using assms(6) by (simp add: normalize_mac_eq_Inr)
  have g: "get_device_by_mac m s = (Inr None, s)"
    using assms(7) by (cases rule: get_device_by_mac_cases [OF assms(1) can]) auto
  have c: "clean_str_ref sn = Some sn" using assms(4,5) by (auto simp: clean_str_ref_def Let_def)
  have l: "get_device_by_serial sn s = (Inr None, s)" using get_device_by_serial_long assms(4,5) by simp
  have "insert_device (\<lambda>i. (new_device_row m now i) \<lparr> dev_serial_number := Some sn, dev_last_seen_at := Some now \<rparr>) s =
      (Inl (Sqlx UniqueViolation), s)"
    by (rule insert_device_serial_clash [OF assms(2,3)]) simp
  then show ?thesis
    by (simp add: upsert_seen_device_def upsert_seen_device_with_retention_def assms(6) g c l)
qed

definition demo_long_serial :: str where
  "demo_long_serial = concat (replicate 65 [CHR 0xC3, CHR 0xA9])"

definition demo_long_store :: store where
  "demo_long_store = run_call (CreateDevice ''t1''
     \<lparr> cdr_mac = ''aabbcc001122'', cdr_hostname = None, cdr_serial_number = Some demo_long_serial, cdr_notes = None,
       cdr_tags = None, cdr_default_profile_id = None, cdr_one_time_profile_id = None \<rparr>) (seeded_store ''t0'')"

theorem upsert_long_serial_fails_witness:
  "\<exists>r \<in> set (st_devices demo_long_store). dev_serial_number r = Some demo_long_serial \<and> 128 < length demo_long_serial \<and>
     upsert_seen_device ''t2'' ''aabbcc001133'' (Some demo_long_serial) demo_long_store =
       (Inl (Sqlx UniqueViolation), demo_long_store)"
proof -
  have inv: "store_inv demo_long_store" unfolding demo_long_store_def by (intro run_call_inv seeded_store_inv)
  have sn: "map dev_serial_number (st_devices demo_long_store) = [Some demo_long_serial]"
    and tr: "trim demo_long_serial = demo_long_serial" and len: "128 < length demo_long_serial"
    and m: "normalize_mac ''aabbcc001133'' = Inr ''aa:bb:cc:00:11:33''"
    and fresh: "''aa:bb:cc:00:11:33'' \<notin> dev_mac ` set (st_devices demo_long_store)"
    by code_simp+
  from sn obtain r where r: "r \<in> set (st_devices demo_long_store)" "dev_serial_number r = Some demo_long_serial"
    by (metis list.set_intros(1) imageE set_map)
  with upsert_long_serial_fails [OF inv r tr len m fresh] len show ?thesis by blast
qed

end
