(* ===== verification/Nest_Boot.thy ===== *)
theory Nest_Boot
  imports Nest_Assets Nest_Store "HOL-Library.Multiset"
begin

text \<open>
  Boot decisions and iPXE scripts (\<^verbatim>\<open>src/src/boot.rs\<close>): which profile a device gets, the boot
  menu, and the script of a profile. The percent encoder of the \<^verbatim>\<open>urlencoding\<close> crate and
  the Unicode \<^verbatim>\<open>to_lowercase\<close> used to order the menu are parameters.
\<close>

section \<open>Choosing a profile\<close>

datatype selection_source = OneTime | Assigned | AutomaticEnrollment | Menu

record profile_selection =
  sel_profile :: "boot_profile option"
  sel_source :: selection_source

definition ipxe_menu_background_path :: str where "ipxe_menu_background_path = ''assets/pxe-menu.png''"
definition ipxe_menu_title :: str where "ipxe_menu_title = ''TIARIS''"
definition ipxe_menu_subtitle :: str where "ipxe_menu_subtitle = ''PXE BOOT - NEST BOOT - X86_64 - UEFI''"
definition ipxe_menu_timeout_copy :: str where
  "ipxe_menu_timeout_copy = ''Booting the highlighted entry automatically - press any key to pause''"
definition ipxe_menu_footer :: str where "ipxe_menu_footer = ''tiaris-nest - pxe - x86_64 - uefi''"

definition profile_has_boot_action :: "boot_profile \<Rightarrow> bool" where
  "profile_has_boot_action profile =
     (case prof_type profile of
        LocalDisk \<Rightarrow> True
      | NestInstaller \<Rightarrow> True
      | CustomIpxe \<Rightarrow> (case prof_raw_script profile of None \<Rightarrow> False | Some script \<Rightarrow> trim script \<noteq> []))"

definition find_enabled_profile :: "boot_profile list \<Rightarrow> int \<Rightarrow> boot_profile option" where
  "find_enabled_profile profiles i =
     find (\<lambda>profile. prof_id profile = i \<and> prof_enabled profile \<and> profile_has_boot_action profile) profiles"

definition menu_selection :: profile_selection where
  "menu_selection = \<lparr> sel_profile = None, sel_source = Menu \<rparr>"

definition enrollment_default :: "boot_profile \<Rightarrow> bool" where
  "enrollment_default profile =
     (prof_enabled profile \<and> prof_is_default profile \<and> \<not> prof_one_time profile \<and>
      prof_type profile = NestInstaller \<and> profile_has_boot_action profile)"

definition unambiguous_default_enrollment :: "boot_profile list \<Rightarrow> boot_profile option" where
  "unambiguous_default_enrollment profiles =
     (case filter enrollment_default profiles of
        [] \<Rightarrow> None
      | profile # rest \<Rightarrow> (if rest \<noteq> [] then None else Some profile))"

definition choose_profile :: "device option \<Rightarrow> boot_profile list \<Rightarrow> bool \<Rightarrow> profile_selection" where
  "choose_profile device enabled_profiles allow_automatic_enrollment =
     (case device of
        Some device \<Rightarrow>
          (case Option.bind (dev_one_time_profile_id device) (find_enabled_profile enabled_profiles) of
             Some profile \<Rightarrow> \<lparr> sel_profile = Some profile, sel_source = OneTime \<rparr>
           | None \<Rightarrow>
               (case Option.bind (dev_default_profile_id device) (find_enabled_profile enabled_profiles) of
                  Some profile \<Rightarrow> \<lparr> sel_profile = Some profile, sel_source = Assigned \<rparr>
                | None \<Rightarrow> menu_selection))
      | None \<Rightarrow>
          if allow_automatic_enrollment then
            (case unambiguous_default_enrollment enabled_profiles of
               Some profile \<Rightarrow> \<lparr> sel_profile = Some profile, sel_source = AutomaticEnrollment \<rparr>
             | None \<Rightarrow> menu_selection)
          else menu_selection)"

section \<open>Scripts\<close>

definition line :: "str \<Rightarrow> str" where
  "line s = s @ newline"

definition ipxe_text :: "str \<Rightarrow> str" where
  "ipxe_text value = concat (map (\<lambda>ch. if is_control ch then '' '' else ch) (utf8_chars value))"

definition query_value :: "(str \<Rightarrow> str) \<Rightarrow> str option \<Rightarrow> str \<Rightarrow> str" where
  "query_value urlencode value fallback = (case value of Some v \<Rightarrow> urlencode v | None \<Rightarrow> fallback)"

definition ensure_trailing_newline :: "str \<Rightarrow> str" where
  "ensure_trailing_newline value = (if ends_with value newline then value else value @ newline)"

definition ensure_ipxe_header :: "str \<Rightarrow> str" where
  "ensure_ipxe_header script =
     (if starts_with (trim_start script) ''#!ipxe'' then ensure_trailing_newline script
      else line ''#!ipxe'' @ ensure_trailing_newline script)"

definition append_local_attempt :: "str \<Rightarrow> str \<Rightarrow> str" where
  "append_local_attempt label_prefix failure_label =
     line ''echo Starting the installed system'' @
     line (''iseq ${platform} efi && goto '' @ label_prefix @ ''_efi || goto '' @ label_prefix @ ''_bios'') @
     line ('':'' @ label_prefix @ ''_efi'') @
     line (''sanboot --no-describe --drive 0x80 || goto '' @ label_prefix @ ''_efi_handoff'') @
     line ''goto end'' @
     line ('':'' @ label_prefix @ ''_efi_handoff'') @
     line ''echo Returning control to UEFI for the next boot entry'' @
     line ''set tiaris-local-handoff 1'' @
     line ''exit 1'' @
     line ('':'' @ label_prefix @ ''_bios'') @
     line (''sanboot --no-describe --drive 0x80 || goto '' @ failure_label) @
     line ''goto end''"

definition render_local_body :: str where
  "render_local_body =
     append_local_attempt ''local'' ''local_exit'' @
     line '':local_exit'' @
     line ''echo Returning failure to firmware for local boot'' @
     line ''exit 1''"

definition render_profile_script :: "boot_profile \<Rightarrow> str app_result" where
  "render_profile_script profile =
     (let script = line ''#!ipxe'' @ line (''echo Tiaris Nest: '' @ ipxe_text (prof_name profile))
      in case prof_type profile of
           LocalDisk \<Rightarrow> Inr (script @ render_local_body)
         | NestInstaller \<Rightarrow>
             Inr (script @ line ''echo Nest installer profiles require a per-client boot session'' @
                  line ''sleep 5'' @ line ''exit 1'')
         | CustomIpxe \<Rightarrow>
             (case prof_raw_script profile of
                Some raw_script \<Rightarrow>
                  (if trim raw_script \<noteq> [] then Inr (ensure_ipxe_header raw_script)
                   else Inr (script @ line ''echo Custom iPXE profile has no script configured'' @
                             line ''sleep 5'' @ line ''exit 1''))
              | None \<Rightarrow>
                  Inr (script @ line ''echo Custom iPXE profile has no script configured'' @
                       line ''sleep 5'' @ line ''exit 1'')))"

definition in_menu :: "boot_profile \<Rightarrow> bool" where
  "in_menu profile =
     (prof_enabled profile \<and> \<not> prof_one_time profile \<and> prof_type profile \<noteq> LocalDisk \<and>
      profile_has_boot_action profile)"

text \<open>The sort is stable and its key ends in the unique id.\<close>

definition menu_profiles :: "(str \<Rightarrow> str) \<Rightarrow> boot_profile list \<Rightarrow> boot_profile list" where
  "menu_profiles lowercase profiles =
     sort_key (\<lambda>profile. (\<not> prof_is_default profile, lowercase (prof_name profile), prof_id profile))
       (filter in_menu profiles)"

text \<open>The built-in background path is safe, so the \<^verbatim>\<open>expect\<close> on its URL never fails.\<close>

definition menu_background_url :: "(str \<Rightarrow> str) \<Rightarrow> str \<Rightarrow> str" where
  "menu_background_url urlencode public_base_url =
     (case asset_url urlencode public_base_url ipxe_menu_background_path of Inr url \<Rightarrow> url | Inl _ \<Rightarrow> [])"

definition append_ipxe_menu_theme :: "(str \<Rightarrow> str) \<Rightarrow> str \<Rightarrow> str" where
  "append_ipxe_menu_theme urlencode public_base_url =
     line ''# Tiaris boot menu theme, aligned with the ISO GRUB palette.'' @
     line (''console --x 1024 --y 864 --picture '' @ menu_background_url urlencode public_base_url @
           '' --left 280 --right 280 --top 260 --bottom 140 --depth 32 || console --x 1024 --y 768 --depth 32 || echo Tiaris Nest: using firmware text console'') @
     line ''colour --basic 0 --rgb 0x0e0f12 0'' @
     line ''colour --basic 3 --rgb 0xeb9b46 1'' @
     line ''colour --basic 7 --rgb 0xa4a8b0 2'' @
     line ''colour --basic 6 --rgb 0x6f747d 3'' @
     line ''colour --basic 4 --rgb 0x241a10 4'' @
     line ''colour --basic 1 --rgb 0xdd0034 5'' @
     line ''colour --basic 6 --rgb 0x16b8b8 6'' @
     line ''colour --basic 7 --rgb 0xffffff 7'' @
     line ''cpair --foreground 2 --background 0 0'' @
     line ''cpair --foreground 2 --background 0 1'' @
     line ''cpair --foreground 1 --background 4 2'' @
     line ''cpair --foreground 3 --background 0 3'' @
     line ''cpair --foreground 7 --background 0 4'' @
     line ''cpair --foreground 7 --background 5 5'' @
     line ''cpair --foreground 6 --background 0 6'' @
     line ''cpair --foreground 1 --background 4 7''"

definition menu_item :: "boot_profile \<Rightarrow> str" where
  "menu_item profile = line (''item profile_'' @ int_to_str (prof_id profile) @ '' '' @ ipxe_text (prof_name profile))"

definition menu_section :: "(str \<Rightarrow> str) \<Rightarrow> str \<Rightarrow> str option \<Rightarrow> str option \<Rightarrow> boot_profile \<Rightarrow> str" where
  "menu_section urlencode public_base_url mac serial profile =
     line ('':profile_'' @ int_to_str (prof_id profile)) @
     line (''chain --autofree '' @ trim_end_matches CHR ''/'' public_base_url @ ''/boot/select/'' @
           int_to_str (prof_id profile) @ ''?mac='' @ query_value urlencode mac ''${mac}'' @
           ''&serial='' @ query_value urlencode serial ''${serial}'' @ '' || goto failed'') @
     line ''goto end'' @ newline"

definition render_menu ::
  "(str \<Rightarrow> str) \<Rightarrow> (str \<Rightarrow> str) \<Rightarrow> str \<Rightarrow> boot_profile list \<Rightarrow> str option \<Rightarrow> str option \<Rightarrow> u32 \<Rightarrow> bool \<Rightarrow> str" where
  "render_menu urlencode lowercase public_base_url profiles mac serial timeout_ms try_local_boot_first =
     (let entries = menu_profiles lowercase profiles
      in line ''#!ipxe'' @
         (if try_local_boot_first
          then append_local_attempt ''known_local'' ''known_menu'' @ newline @ line '':known_menu'' else []) @
         append_ipxe_menu_theme urlencode public_base_url @
         line (''set tiaris-title '' @ ipxe_menu_title) @
         line (''set tiaris-subtitle '' @ ipxe_menu_subtitle) @
         (if 0 < timeout_ms
          then line (''set tiaris-timeout-copy '' @ ipxe_menu_timeout_copy) @
               line (''set menu-timeout '' @ nat_to_str (unat timeout_ms)) else []) @
         line ''menu ${tiaris-title}'' @
         line ''item --gap ${tiaris-subtitle}'' @
         line ''item --gap'' @
         line ''item --key l local Boot local disk'' @
         concat (map menu_item entries) @
         line ''item --gap'' @
         (if 0 < timeout_ms then line ''item --gap ${tiaris-timeout-copy}'' else []) @
         line (''item --gap '' @ ipxe_menu_footer) @
         (if 0 < timeout_ms
          then line ''choose --timeout ${menu-timeout} --default local selected || goto local''
          else line ''choose --default local selected || goto local'') @
         line ''goto ${selected}'' @ newline @
         concat (map (menu_section urlencode public_base_url mac serial) entries) @
         line '':local'' @
         render_local_body @
         newline @ line '':failed'' @
         line ''echo Tiaris Nest failed to load the selected profile'' @
         line ''sleep 5'' @
         line ''goto local'' @ newline @
         line '':end'')"

section \<open>Lines and labels\<close>

text \<open>The labels a script defines: the lines that start with a colon.\<close>

definition script_labels :: "str \<Rightarrow> str list" where
  "script_labels script = map tl (filter (\<lambda>l. starts_with l '':'') (split_on (CHR 0x0A) script))"

text \<open>A text that does not break its line.\<close>

definition one_line :: "str \<Rightarrow> bool" where
  "one_line s = (CHR 0x0A \<notin> set s)"

lemma script_labels_Nil [simp]: "script_labels [] = []"
  by (simp add: script_labels_def starts_with_def)

lemma script_labels_line:
  "one_line l \<Longrightarrow> script_labels (line l @ s) = (if starts_with l '':'' then [tl l] else []) @ script_labels s"
  by (simp add: script_labels_def line_def newline_def one_line_def split_on_append_sep)

lemma script_labels_newline: "script_labels (newline @ s) = script_labels s"
  by (simp add: script_labels_def newline_def starts_with_def)

lemma script_labels_end: "one_line l \<Longrightarrow> script_labels (line l) = (if starts_with l '':'' then [tl l] else [])"
  using script_labels_line [of l "[]"] by simp

lemma one_line_append [simp]: "one_line (a @ b) \<longleftrightarrow> one_line a \<and> one_line b"
  by (auto simp: one_line_def)

lemma one_line_Nil [simp]: "one_line []"
  by (simp add: one_line_def)

lemma one_line_Cons [simp]: "one_line (c # s) \<longleftrightarrow> c \<noteq> CHR 0x0A \<and> one_line s"
  by (auto simp: one_line_def)

lemma one_line_digits: "list_all is_ascii_digit s \<Longrightarrow> one_line s"
  by (auto simp: one_line_def list_all_iff is_ascii_digit_def code_def)

lemma one_line_nat [simp]: "one_line (nat_to_str n)"
  using nat_to_str_digits [of n] by (simp add: one_line_digits)

lemma one_line_int [simp]: "one_line (int_to_str i)"
  by (simp add: int_to_str_def)

lemma one_line_trim_end [simp]: "one_line s \<Longrightarrow> one_line (trim_end_matches c s)"
  by (auto simp: one_line_def trim_end_matches_def dest: set_dropWhileD)

lemma one_line_ipxe_text [simp]:
  assumes "utf8_ok s"
  shows "one_line (ipxe_text s)"
proof (unfold one_line_def, rule notI)
  assume "CHR 0x0A \<in> set (ipxe_text s)"
  then obtain ch where ch: "ch \<in> set (utf8_chars s)" "CHR 0x0A \<in> set (if is_control ch then '' '' else ch)"
    unfolding ipxe_text_def set_concat set_map by blast
  then have nc: "\<not> is_control ch" and nl: "CHR 0x0A \<in> set ch" by (auto split: if_splits)
  obtain c cs where c: "ch = c # cs" using utf8_chars_nonempty [OF ch(1)] by (cases ch) auto
  have "length ch = utf8_len c" using assms ch(1) c by (auto simp: utf8_ok_def list_all_iff)
  moreover have cont: "\<forall>b \<in> set cs. is_cont b" using utf8_chars_conts ch(1) c by fastforce
  then have "CHR 0x0A \<notin> set cs" by (auto simp: is_cont_def code_def)
  then have "c = CHR 0x0A" using nl c by simp
  ultimately have "ch = [CHR 0x0A]" using c by (simp add: utf8_len_def code_def)
  then show False using nc by (simp add: is_control_def code_def)
qed

section \<open>Labels of the rendered scripts\<close>

lemmas label_simps = script_labels_line script_labels_newline script_labels_end starts_with_def

lemma labels_local_attempt:
  assumes "one_line p" and "one_line f"
  shows "script_labels (append_local_attempt p f @ s) =
           [p @ ''_efi'', p @ ''_efi_handoff'', p @ ''_bios''] @ script_labels s"
  using assms by (simp add: append_local_attempt_def label_simps)

lemma labels_local_body:
  "script_labels (render_local_body @ s) =
     [''local_efi'', ''local_efi_handoff'', ''local_bios'', ''local_exit''] @ script_labels s"
  by (simp add: render_local_body_def labels_local_attempt label_simps)

lemma labels_theme:
  assumes "one_line (menu_background_url urlencode url)"
  shows "script_labels (append_ipxe_menu_theme urlencode url @ s) = script_labels s"
  using assms by (simp add: append_ipxe_menu_theme_def label_simps)

lemma labels_items:
  assumes "\<forall>p \<in> set ps. utf8_ok (prof_name p)"
  shows "script_labels (concat (map menu_item ps) @ s) = script_labels s"
  using assms by (induction ps) (simp_all add: menu_item_def label_simps)

lemma labels_sections:
  assumes "one_line url" and "\<And>x. one_line (urlencode x)"
  shows "script_labels (concat (map (menu_section urlencode url mac serial) ps) @ s) =
           map (\<lambda>p. ''profile_'' @ int_to_str (prof_id p)) ps @ script_labels s"
  using assms by (induction ps) (auto simp: menu_section_def query_value_def label_simps split: option.splits)

lemma menu_background_url_eq:
  "menu_background_url urlencode url =
     trim_end_matches CHR ''/'' url @ ''/files/'' @ urlencode ''assets'' @ ''/'' @ urlencode ''pxe-menu.png''"
proof -
  have "sanitize_relative_path ipxe_menu_background_path = Inr [''assets'', ''pxe-menu.png'']" by code_simp
  then show ?thesis by (simp add: menu_background_url_def asset_url_def)
qed

lemma one_line_background:
  "one_line url \<Longrightarrow> (\<And>x. one_line (urlencode x)) \<Longrightarrow> one_line (menu_background_url urlencode url)"
  by (simp add: menu_background_url_eq)

lemma set_menu_profiles [simp]: "set (menu_profiles lowercase ps) = {p \<in> set ps. in_menu p}"
  by (simp add: menu_profiles_def)

lemma int_to_str_inject: "int_to_str i = int_to_str j \<Longrightarrow> i = j"
proof -
  assume eq: "int_to_str i = int_to_str j"
  have nd: "''-'' @ nat_to_str n \<noteq> nat_to_str m" for n m
    using nat_to_str_digits [of m] by (cases "nat_to_str m") (auto simp: is_ascii_digit_def code_def)
  show "i = j"
    using eq nd nd [symmetric] by (auto simp: int_to_str_def split: if_splits)
qed

section \<open>Facts about the choice\<close>

lemma find_enabled_profile_ok:
  "find_enabled_profile ps i = Some p \<Longrightarrow> p \<in> set ps \<and> prof_id p = i \<and> prof_enabled p \<and> profile_has_boot_action p"
  by (auto simp: find_enabled_profile_def dest!: find_Some_in)

lemma find_enabled_profile_None:
  "find_enabled_profile ps i = None \<longleftrightarrow>
     (\<forall>p \<in> set ps. \<not> (prof_id p = i \<and> prof_enabled p \<and> profile_has_boot_action p))"
  by (auto simp: find_enabled_profile_def find_None_iff)

lemma unambiguous_default_enrollment_Some:
  "unambiguous_default_enrollment ps = Some p \<longleftrightarrow> filter enrollment_default ps = [p]"
  by (auto simp: unambiguous_default_enrollment_def split: list.splits)

lemma profile_has_boot_action_fields:
  "profile_has_boot_action p = profile_fields_have_boot_action (prof_type p) (prof_raw_script p)"
  by (simp add: profile_has_boot_action_def profile_fields_have_boot_action_def)

section \<open>Properties\<close>

text \<open>C6: the chosen profile is always an enabled, runnable entry of the offered list; a
  one-time assignment that can boot wins over the standing assignment, which wins over the
  menu; a device that is already known never enrolls automatically, and an unknown one does so
  only when exactly one enabled default installer profile exists.\<close>

theorem choose_profile_spec:
  "case (sel_profile (choose_profile device profiles allow), sel_source (choose_profile device profiles allow)) of
     (None, src) \<Rightarrow>
       src = Menu \<and>
       (case device of
          Some d \<Rightarrow> \<nexists>p. p \<in> set profiles \<and> prof_enabled p \<and> profile_has_boot_action p \<and>
                      (dev_one_time_profile_id d = Some (prof_id p) \<or> dev_default_profile_id d = Some (prof_id p))
        | None \<Rightarrow> \<not> (allow \<and> length (filter enrollment_default profiles) = 1))
   | (Some p, src) \<Rightarrow>
       p \<in> set profiles \<and> prof_enabled p \<and> profile_has_boot_action p \<and>
       (case device of
          Some d \<Rightarrow>
            (if \<exists>q. q \<in> set profiles \<and> prof_enabled q \<and> profile_has_boot_action q \<and> dev_one_time_profile_id d = Some (prof_id q)
             then src = OneTime \<and> dev_one_time_profile_id d = Some (prof_id p)
             else src = Assigned \<and> dev_default_profile_id d = Some (prof_id p))
        | None \<Rightarrow> src = AutomaticEnrollment \<and> allow \<and> filter enrollment_default profiles = [p])"
proof (cases device)
  case None
  show ?thesis
  proof (cases "unambiguous_default_enrollment profiles")
    case None': None
    then have "length (filter enrollment_default profiles) \<noteq> 1"
      by (auto simp: unambiguous_default_enrollment_def length_Suc_conv split: list.splits if_splits)
    then show ?thesis using None None' by (simp add: choose_profile_def menu_selection_def)
  next
    case (Some p)
    then have f: "filter enrollment_default profiles = [p]" by (simp add: unambiguous_default_enrollment_Some)
    then have "p \<in> set (filter enrollment_default profiles)" by simp
    then have "p \<in> set profiles" "enrollment_default p" by simp_all
    with None Some f show ?thesis by (simp add: choose_profile_def menu_selection_def enrollment_default_def)
  qed
next
  case (Some d)
  let ?one = "Option.bind (dev_one_time_profile_id d) (find_enabled_profile profiles)"
  let ?def = "Option.bind (dev_default_profile_id d) (find_enabled_profile profiles)"
  have no: "\<nexists>p. p \<in> set profiles \<and> prof_enabled p \<and> profile_has_boot_action p \<and> ref = Some (prof_id p)"
    if "Option.bind ref (find_enabled_profile profiles) = None" for ref
    using that by (auto simp: Option.bind_eq_None_conv find_enabled_profile_None)
  have yes: "p \<in> set profiles \<and> prof_enabled p \<and> profile_has_boot_action p \<and> ref = Some (prof_id p)"
    if "Option.bind ref (find_enabled_profile profiles) = Some p" for ref p
    using that find_enabled_profile_ok by (auto simp: Option.bind_eq_Some_conv)
  show ?thesis
  proof (cases ?one)
    case one: (Some p)
    with yes [OF one] Some show ?thesis by (auto simp: choose_profile_def)
  next
    case one: None
    show ?thesis
    proof (cases ?def)
      case def: (Some p)
      with yes [OF def] no [OF one] one Some show ?thesis by (simp add: choose_profile_def)
    next
      case def: None
      with no [OF def] no [OF one] one Some show ?thesis by (auto simp: choose_profile_def menu_selection_def)
    qed
  qed
qed

text \<open>C4: the labels of the rendered menu are exactly those of its own structure, one per
  listed profile: no profile name, hardware address or serial number can add, hide or forge a
  label, whatever characters it contains.\<close>

theorem render_menu_labels:
  assumes "one_line public_base_url" and "\<And>x. one_line (urlencode x)"
    and "\<forall>p \<in> set profiles. utf8_ok (prof_name p)"
  shows "script_labels (render_menu urlencode lowercase public_base_url profiles mac serial timeout_ms try_local) =
    (if try_local then [''known_local_efi'', ''known_local_efi_handoff'', ''known_local_bios'', ''known_menu''] else []) @
    map (\<lambda>p. ''profile_'' @ int_to_str (prof_id p)) (menu_profiles lowercase profiles) @
    [''local'', ''local_efi'', ''local_efi_handoff'', ''local_bios'', ''local_exit'', ''failed'', ''end'']"
proof -
  have names: "\<forall>p \<in> set (menu_profiles lowercase profiles). utf8_ok (prof_name p)" using assms(3) by simp
  note simps = label_simps labels_theme [OF one_line_background [OF assms(1,2)]] labels_items [OF names]
    labels_sections [OF assms(1,2)] labels_local_body labels_local_attempt
    ipxe_menu_title_def ipxe_menu_subtitle_def ipxe_menu_timeout_copy_def ipxe_menu_footer_def
  show ?thesis
    by (cases try_local; cases "0 < timeout_ms") (simp_all add: render_menu_def Let_def simps)
qed

definition demo_profile :: boot_profile where
  "demo_profile =
     \<lparr> prof_id = 7, prof_managed_profile_id = None, prof_name = ''Nest'' @ newline @ '':end'', prof_description = [],
       prof_type = NestInstaller, prof_enabled = True, prof_is_default = True, prof_one_time = False,
       prof_raw_script = None, prof_created_at = ''t'', prof_updated_at = ''t'' \<rparr>"

theorem render_menu_labels_witness:
  "utf8_ok (prof_name demo_profile) \<and>
   script_labels (render_menu (\<lambda>_. ''x'') (\<lambda>s. s) ''http://nest'' [demo_profile] None None 0 False) =
     [''profile_7'', ''local'', ''local_efi'', ''local_efi_handoff'', ''local_bios'', ''local_exit'', ''failed'', ''end'']"
proof -
  have ok: "utf8_ok (prof_name demo_profile)" by code_simp
  have m: "map (\<lambda>p. ''profile_'' @ int_to_str (prof_id p)) (menu_profiles (\<lambda>s. s) [demo_profile]) = [''profile_7'']"
    by code_simp
  show ?thesis
    using render_menu_labels [of "''http://nest''" "\<lambda>_. ''x''" "[demo_profile]" "\<lambda>s. s" None None 0 False] ok m
    by simp
qed

text \<open>The menu offers exactly the enabled, runnable, reusable profiles other than the local
  disk, default first, then by name and number.\<close>

theorem menu_profiles_spec:
  "mset (menu_profiles lowercase profiles) = mset (filter in_menu profiles) \<and>
   sorted_wrt (\<lambda>p q. (prof_is_default q \<longrightarrow> prof_is_default p) \<and>
     (prof_is_default p = prof_is_default q \<longrightarrow>
        lowercase (prof_name p) < lowercase (prof_name q) \<or>
        lowercase (prof_name p) = lowercase (prof_name q) \<and> prof_id p \<le> prof_id q))
     (menu_profiles lowercase profiles)"
proof -
  let ?k = "\<lambda>p. (\<not> prof_is_default p, lowercase (prof_name p), prof_id p)"
  have k: "?k p \<le> ?k q \<Longrightarrow> (prof_is_default q \<longrightarrow> prof_is_default p) \<and>
     (prof_is_default p = prof_is_default q \<longrightarrow>
        lowercase (prof_name p) < lowercase (prof_name q) \<or>
        lowercase (prof_name p) = lowercase (prof_name q) \<and> prof_id p \<le> prof_id q)" for p q
    by (cases "prof_is_default p"; cases "prof_is_default q") (auto simp: less_eq_prod_def order.order_iff_strict)
  have "sorted_wrt (\<lambda>p q. ?k p \<le> ?k q) (menu_profiles lowercase profiles)"
    using sorted_sort_key [of ?k "filter in_menu profiles"] unfolding menu_profiles_def sorted_wrt_map .
  then have "sorted_wrt (\<lambda>p q. (prof_is_default q \<longrightarrow> prof_is_default p) \<and>
     (prof_is_default p = prof_is_default q \<longrightarrow>
        lowercase (prof_name p) < lowercase (prof_name q) \<or>
        lowercase (prof_name p) = lowercase (prof_name q) \<and> prof_id p \<le> prof_id q))
     (menu_profiles lowercase profiles)"
    by (rule sorted_wrt_mono_rel [rotated]) (rule k)
  then show ?thesis by (simp add: menu_profiles_def)
qed

theorem menu_profiles_spec_witness:
  "sorted_wrt (\<lambda>p q. (prof_is_default q \<longrightarrow> prof_is_default p) \<and>
     (prof_is_default p = prof_is_default q \<longrightarrow>
        prof_name p < prof_name q \<or> prof_name p = prof_name q \<and> prof_id p \<le> prof_id q))
     (menu_profiles (\<lambda>s. s) [demo_profile, demo_profile \<lparr> prof_id := 3, prof_is_default := False \<rparr>])"
  using menu_profiles_spec [of "\<lambda>s. s" "[demo_profile, demo_profile \<lparr> prof_id := 3, prof_is_default := False \<rparr>]"]
  by blast

text \<open>The script of a local-disk profile jumps to the label \<^verbatim>\<open>end\<close>, which only the menu
  script defines.\<close>

theorem local_disk_script_has_no_end_label:
  assumes "prof_type p = LocalDisk" and "utf8_ok (prof_name p)"
  shows "\<exists>script. render_profile_script p = Inr script \<and>
           ''goto end'' \<in> set (split_on (CHR 0x0A) script) \<and> ''end'' \<notin> set (script_labels script)"
proof -
  let ?s = "line ''#!ipxe'' @ line (''echo Tiaris Nest: '' @ ipxe_text (prof_name p)) @ render_local_body"
  have r: "render_profile_script p = Inr ?s" using assms(1) by (simp add: render_profile_script_def Let_def)
  have ol: "one_line (ipxe_text (prof_name p))" using assms(2) by simp
  have l: "script_labels ?s = [''local_efi'', ''local_efi_handoff'', ''local_bios'', ''local_exit'']"
    using ol labels_local_body [of "[]"] by (simp add: label_simps)
  have split: "split_on (CHR 0x0A) (line x @ y) = x # split_on (CHR 0x0A) y" if "one_line x" for x y
    using that by (simp add: line_def newline_def one_line_def split_on_append_sep)
  have "''goto end'' \<in> set (split_on (CHR 0x0A) ?s)"
    using ol by (simp add: render_local_body_def append_local_attempt_def split)
  then show ?thesis using r l by simp
qed

theorem local_disk_script_has_no_end_label_witness:
  "prof_type (demo_profile \<lparr> prof_type := LocalDisk \<rparr>) = LocalDisk \<and>
   (\<exists>script. render_profile_script (demo_profile \<lparr> prof_type := LocalDisk \<rparr>) = Inr script \<and>
      ''goto end'' \<in> set (split_on (CHR 0x0A) script) \<and> ''end'' \<notin> set (script_labels script))"
proof -
  have ok: "utf8_ok (prof_name (demo_profile \<lparr> prof_type := LocalDisk \<rparr>))" by code_simp
  show ?thesis
    using local_disk_script_has_no_end_label [OF _ ok] by simp
qed

end
