(* ===== verification/Nest_Ip.thy ===== *)
theory Nest_Ip
  imports Nest_Str
begin

text \<open>
  \<^verbatim>\<open>std::net::IpAddr\<close>: its parser (strict dotted decimal, hexadecimal groups with one
  \<^verbatim>\<open>::\<close> and an optional trailing dotted part), its display form and the loopback test, as the
  boot routes use them on peer and forwarded addresses. An address of the second kind has eight
  segments.
\<close>

datatype ip_addr = V4 u8 u8 u8 u8 | V6 "u16 list"

fun is_loopback :: "ip_addr \<Rightarrow> bool" where
  "is_loopback (V4 a b c d) = (a = 127)"
| "is_loopback (V6 segments) = (segments = [0, 0, 0, 0, 0, 0, 0, 1])"

section \<open>Display\<close>

definition hex_digit :: "nat \<Rightarrow> char" where
  "hex_digit n = (if n < 10 then byte (48 + n) else byte (87 + n))"

fun nat_to_hex :: "nat \<Rightarrow> str" where
  "nat_to_hex n = (if n < 16 then [hex_digit n] else nat_to_hex (n div 16) @ [hex_digit (n mod 16)])"

declare nat_to_hex.simps [simp del]

definition v4_to_str :: "u8 \<Rightarrow> u8 \<Rightarrow> u8 \<Rightarrow> u8 \<Rightarrow> str" where
  "v4_to_str a b c d =
     nat_to_str (unat a) @ ''.'' @ nat_to_str (unat b) @ ''.'' @ nat_to_str (unat c) @ ''.'' @ nat_to_str (unat d)"

text \<open>The first longest run of zero segments, as start and length.\<close>

fun zero_span :: "nat \<Rightarrow> nat \<times> nat \<Rightarrow> nat \<times> nat \<Rightarrow> u16 list \<Rightarrow> nat \<times> nat" where
  "zero_span i current longest [] = longest"
| "zero_span i (start, len) longest (seg # segs) =
     (if seg = 0 then
        (let current = (if len = 0 then i else start, len + 1)
         in zero_span (i + 1) current (if snd longest < snd current then current else longest) segs)
      else zero_span (i + 1) (0, 0) longest segs)"

definition fmt_segments :: "u16 list \<Rightarrow> str" where
  "fmt_segments segs = join '':'' (map (\<lambda>w. nat_to_hex (unat w)) segs)"

definition ipv4_mapped :: "u16 list \<Rightarrow> (u8 \<times> u8 \<times> u8 \<times> u8) option" where
  "ipv4_mapped segs =
     (case segs of
        [s0, s1, s2, s3, s4, s5, hi, lo] \<Rightarrow>
          (if [s0, s1, s2, s3, s4] = [0, 0, 0, 0, 0] \<and> s5 = 0xFFFF
           then Some (of_nat (unat hi div 256), of_nat (unat hi), of_nat (unat lo div 256), of_nat (unat lo))
           else None)
      | _ \<Rightarrow> None)"

fun ip_to_str :: "ip_addr \<Rightarrow> str" where
  "ip_to_str (V4 a b c d) = v4_to_str a b c d"
| "ip_to_str (V6 segs) =
     (case ipv4_mapped segs of
        Some (a, b, c, d) \<Rightarrow> ''::ffff:'' @ v4_to_str a b c d
      | None \<Rightarrow>
          (let (start, len) = zero_span 0 (0, 0) (0, 0) segs
           in if 1 < len then fmt_segments (take start segs) @ ''::'' @ fmt_segments (drop (start + len) segs)
              else fmt_segments segs))"

section \<open>Parser\<close>

definition to_digit :: "nat \<Rightarrow> char \<Rightarrow> nat option" where
  "to_digit radix c =
     (let v = (if is_ascii_digit c then code c - 48
               else if is_ascii_lower c then code c - 87
               else if is_ascii_upper c then code c - 55 else radix)
      in if v < radix then Some v else None)"

definition number_value :: "nat \<Rightarrow> str \<Rightarrow> nat" where
  "number_value radix s = foldl (\<lambda>v c. v * radix + (case to_digit radix c of Some d \<Rightarrow> d | None \<Rightarrow> 0)) 0 s"

text \<open>A number of at most \<open>max_digits\<close> digits and at most \<open>max_value\<close>, with the rest of the
  input.\<close>

definition read_number :: "nat \<Rightarrow> nat \<Rightarrow> nat \<Rightarrow> bool \<Rightarrow> str \<Rightarrow> (nat \<times> str) option" where
  "read_number radix max_digits max_value allow_zero_prefix s =
     (let digits = takeWhile (\<lambda>c. to_digit radix c \<noteq> None) s; n = length digits
      in if n = 0 \<or> max_digits < n \<or> \<not> allow_zero_prefix \<and> starts_with s ''0'' \<and> 1 < n \<or>
            max_value < number_value radix digits
         then None else Some (number_value radix digits, drop n s))"

definition read_given_char :: "char \<Rightarrow> str \<Rightarrow> str option" where
  "read_given_char c s = (case s of [] \<Rightarrow> None | x # rest \<Rightarrow> if x = c then Some rest else None)"

definition read_separator :: "char \<Rightarrow> nat \<Rightarrow> (str \<Rightarrow> 'a option) \<Rightarrow> str \<Rightarrow> 'a option" where
  "read_separator sep index inner s = (if 0 < index then Option.bind (read_given_char sep s) inner else inner s)"

definition read_octet :: "nat \<Rightarrow> str \<Rightarrow> (nat \<times> str) option" where
  "read_octet i = read_separator CHR ''.'' i (read_number 10 3 255 False)"

definition read_ipv4_addr :: "str \<Rightarrow> ((u8 \<times> u8 \<times> u8 \<times> u8) \<times> str) option" where
  "read_ipv4_addr s =
     Option.bind (read_octet 0 s) (\<lambda>(a, s).
     Option.bind (read_octet 1 s) (\<lambda>(b, s).
     Option.bind (read_octet 2 s) (\<lambda>(c, s).
     Option.bind (read_octet 3 s) (\<lambda>(d, s). Some ((of_nat a, of_nat b, of_nat c, of_nat d), s)))))"

text \<open>The groups from position \<open>i\<close> of a slice of \<open>limit\<close> groups, whether they end in a dotted
  part, and the rest of the input.\<close>

function read_groups :: "nat \<Rightarrow> nat \<Rightarrow> str \<Rightarrow> u16 list \<times> bool \<times> str" where
  "read_groups limit i s =
     (if limit \<le> i then ([], False, s)
      else case (if i < limit - 1 then read_separator CHR '':'' i read_ipv4_addr s else None) of
             Some ((a, b, c, d), rest) \<Rightarrow>
               ([of_nat (unat a * 256 + unat b), of_nat (unat c * 256 + unat d)], True, rest)
           | None \<Rightarrow>
               (case read_separator CHR '':'' i (read_number 16 4 65535 True) s of
                  None \<Rightarrow> ([], False, s)
                | Some (g, rest) \<Rightarrow>
                    (case read_groups limit (i + 1) rest of (gs, v4, rest) \<Rightarrow> (of_nat g # gs, v4, rest))))"
  by pat_completeness auto

termination read_groups
  by (relation "measure (\<lambda>(limit, i, _). limit - i)") auto

definition read_ipv6_addr :: "str \<Rightarrow> (u16 list \<times> str) option" where
  "read_ipv6_addr s =
     (case read_groups 8 0 s of
        (head, head_ipv4, rest) \<Rightarrow>
          (if length head = 8 then Some (head, rest)
           else if head_ipv4 then None
           else Option.bind (read_given_char CHR '':'' rest) (\<lambda>rest.
                Option.bind (read_given_char CHR '':'' rest) (\<lambda>rest.
                  case read_groups (8 - (length head + 1)) 0 rest of
                    (tail, _, rest) \<Rightarrow>
                      Some (head @ replicate (8 - length head - length tail) 0 @ tail, rest)))))"

definition parse_ip :: "str \<Rightarrow> ip_addr option" where
  "parse_ip s =
     (case read_ipv4_addr s of
        Some ((a, b, c, d), rest) \<Rightarrow> (if rest = [] then Some (V4 a b c d) else None)
      | None \<Rightarrow>
          (case read_ipv6_addr s of
             Some (segs, rest) \<Rightarrow> (if rest = [] then Some (V6 segs) else None)
           | None \<Rightarrow> None))"

section \<open>Round trip\<close>

lemma to_digit_10: "to_digit 10 c = (if is_ascii_digit c then Some (code c - 48) else None)"
  by (auto simp: to_digit_def Let_def is_ascii_digit_def is_ascii_lower_def is_ascii_upper_def)

lemma number_value_10: "list_all is_ascii_digit s \<Longrightarrow> number_value 10 s = digits_value s"
  unfolding number_value_def digits_value_def
  by (induction s rule: rev_induct) (simp_all add: to_digit_10)

lemma length_nat_to_str_octet: "n < 256 \<Longrightarrow> length (nat_to_str n) \<le> 3"
  by (simp add: nat_to_str.simps [of n] nat_to_str.simps [of "n div 10"] nat_to_str.simps [of "n div 10 div 10"])

lemma nat_to_str_leading_zero:
  "starts_with (nat_to_str n @ rest) ''0'' \<Longrightarrow> length (nat_to_str n) = 1"
proof (induction n arbitrary: rest rule: nat_to_str.induct)
  case (1 n)
  show ?case
  proof (cases "n < 10")
    case False
    with 1 have "length (nat_to_str (n div 10)) = 1"
      by (simp add: nat_to_str.simps [of n])
    then have "n div 10 < 10" using nat_to_str.simps [of "n div 10"] nat_to_str_digits [of "n div 10 div 10"]
      by (cases "n div 10 < 10") auto
    moreover from this False "1.prems" have "byte (48 + n div 10) = CHR ''0''"
      by (simp add: nat_to_str.simps [of n] nat_to_str.simps [of "n div 10"] starts_with_def)
    then have "code (byte (48 + n div 10)) = code CHR ''0''" by simp
    moreover have "code CHR ''0'' = 48" by (simp add: code_def)
    ultimately have "n div 10 = 0" by simp
    then show ?thesis using False by simp
  qed (simp add: nat_to_str.simps)
qed

lemma read_number_nat_to_str:
  assumes "n < 256" and "rest = [] \<or> \<not> is_ascii_digit (hd rest)"
  shows "read_number 10 3 255 False (nat_to_str n @ rest) = Some (n, rest)"
proof -
  have d: "list_all is_ascii_digit (nat_to_str n)" "nat_to_str n \<noteq> []" using nat_to_str_digits by auto
  have tw: "takeWhile (\<lambda>c. to_digit 10 c \<noteq> None) (nat_to_str n @ rest) = nat_to_str n"
    using d(1) assms(2) by (cases rest) (auto simp: to_digit_10 list_all_iff takeWhile_append2)
  show ?thesis
    using length_nat_to_str_octet [OF assms(1)] nat_to_str_leading_zero [of n rest] d assms(1)
    unfolding read_number_def Let_def tw by (simp add: number_value_10)
qed

lemma read_ipv4_addr_v4: "read_ipv4_addr (v4_to_str a b c d) = Some ((a, b, c, d), [])"
proof -
  have w: "unat (x :: u8) < 256" for x using unat_less_exp [of x] by simp
  note r = read_number_nat_to_str [OF w]
  have dot: "\<not> is_ascii_digit CHR ''.''" by (simp add: is_ascii_digit_def code_def)
  have last: "read_number 10 3 255 False (nat_to_str (unat (x :: u8))) = Some (unat x, [])" for x
    using r [of "[]" x] by simp
  show ?thesis
    by (simp add: read_ipv4_addr_def v4_to_str_def read_octet_def read_separator_def r dot read_given_char_def last)
qed

end
