(* ===== verification/Nest_Boot_Routes.thy ===== *)
theory Nest_Boot_Routes
  imports Nest_Boot Nest_Ip
begin

text \<open>
  The boot endpoints (\<^verbatim>\<open>src/src/routes/boot.rs\<close>): what one request reads and writes in the
  store and the script it answers with. The signed session of the installer
  (\<^verbatim>\<open>netboot::create_boot_session\<close>: keys, random bytes and files) is the parameter
  \<open>be_create_session\<close>, with \<^const>\<open>None\<close> for each of its failures; the JSON text of a launch
  and the percent encoder are parameters. A request is handled at one instant \<open>now\<close>; its header
  values are given as decoded text, absent when they are not visible ASCII.
\<close>

section \<open>Requests\<close>

definition max_boot_serial_len :: nat where "max_boot_serial_len = 128"
definition max_boot_user_agent_len :: nat where "max_boot_user_agent_len = 256"

record boot_query =
  query_mac :: "str option"
  query_serial :: "str option"
  query_tiaris_check :: "str option"

record boot_headers =
  hdr_x_forwarded_for :: "str option"
  hdr_user_agent :: "str option"

record boot_session_launch =
  launch_schema :: str
  launch_bundle_sha256 :: str
  launch_kernel_url :: str
  launch_initrd_url :: str
  launch_context_url :: str
  launch_squashfs_url :: str
  launch_command_line :: str
  launch_expires_at :: int

record boot_env =
  be_urlencode :: "str \<Rightarrow> str"
  be_lowercase :: "str \<Rightarrow> str"
  be_create_session :: "str \<Rightarrow> str option \<Rightarrow> str option \<Rightarrow> str option \<Rightarrow> boot_session_launch option"
  be_launch_json :: "boot_session_launch \<Rightarrow> str"
  be_public_base_url :: str
  be_menu_timeout_ms :: u32

definition clean_text :: "str \<Rightarrow> nat \<Rightarrow> str option" where
  "clean_text value max_chars =
     (let cleaned = concat (map (\<lambda>ch. if is_control ch then '' '' else ch) (utf8_chars value));
          trimmed = trim cleaned
      in if trimmed = [] then None else Some (take_chars max_chars trimmed))"

definition clean_optional :: "str option \<Rightarrow> str option" where
  "clean_optional value = Option.bind value (\<lambda>value. clean_text value max_boot_serial_len)"

definition user_agent :: "boot_headers \<Rightarrow> str option" where
  "user_agent headers = Option.bind (hdr_user_agent headers) (\<lambda>value. clean_text value max_boot_user_agent_len)"

definition last_valid_forwarded_ip :: "str \<Rightarrow> str option" where
  "last_valid_forwarded_ip value =
     find_map (\<lambda>part. map_option ip_to_str (parse_ip (trim part))) (rev (split_on CHR '','' value))"

definition peer_is_loopback :: "ip_addr option \<Rightarrow> bool" where
  "peer_is_loopback connect = (case connect of Some ip \<Rightarrow> is_loopback ip | None \<Rightarrow> False)"

definition remote_ip :: "ip_addr option \<Rightarrow> boot_headers \<Rightarrow> str option" where
  "remote_ip connect headers =
     (case (if peer_is_loopback connect
            then Option.bind (hdr_x_forwarded_for headers) last_valid_forwarded_ip else None) of
        Some forwarded \<Rightarrow> Some forwarded
      | None \<Rightarrow> map_option ip_to_str connect)"

definition is_local_checker_request :: "boot_query \<Rightarrow> boot_headers \<Rightarrow> ip_addr option \<Rightarrow> bool" where
  "is_local_checker_request query headers connect =
     (if query_tiaris_check query \<noteq> Some ''1'' then False
      else if \<not> peer_is_loopback connect then False
      else case Option.bind (Option.bind (hdr_x_forwarded_for headers) last_valid_forwarded_ip) parse_ip of
             Some ip \<Rightarrow> is_loopback ip
           | None \<Rightarrow> True)"

definition normalized_optional_mac :: "str option \<Rightarrow> str option app_result" where
  "normalized_optional_mac mac =
     (case mac of None \<Rightarrow> Inr None | Some mac \<Rightarrow> rbind (normalize_mac mac) (\<lambda>m. Inr (Some m)))"

definition boot_profile_id_from_path :: "str \<Rightarrow> int app_result" where
  "boot_profile_id_from_path value =
     rbind (ok_or (parse_i64 value) NotFound) (\<lambda>parsed. if parsed \<le> 0 then Inl NotFound else Inr parsed)"

definition automatic_enrollment_allowed :: "bool \<Rightarrow> bool \<Rightarrow> str option \<Rightarrow> bool" where
  "automatic_enrollment_allowed checker known_device mac = (\<not> checker \<and> \<not> known_device \<and> mac \<noteq> None)"

definition automatic_local_handoff_allowed :: "bool \<Rightarrow> bool \<Rightarrow> str option \<Rightarrow> bool" where
  "automatic_local_handoff_allowed checker known_device mac = (\<not> checker \<and> known_device \<and> mac \<noteq> None)"

definition ipxe_response :: "str \<Rightarrow> http_response" where
  "ipxe_response script =
     \<lparr> resp_status = 200,
       resp_headers = [(''content-type'', ''text/plain; charset=utf-8''), (''cache-control'', ''no-store, max-age=0''),
                       (''pragma'', ''no-cache''), (''expires'', ''0'')],
       resp_body = script \<rparr>"

section \<open>Rendering the selected profile\<close>

definition render_ipxe_launch :: "boot_session_launch \<Rightarrow> str" where
  "render_ipxe_launch launch =
     line ''#!ipxe'' @
     line ''echo Tiaris Nest: loading signed workstation installer runtime'' @
     line (''kernel '' @ launch_kernel_url launch @ '' '' @ launch_command_line launch @ '' || goto failed'') @
     line (''initrd '' @ launch_initrd_url launch @ '' || goto failed'') @
     line (''initrd --name context.json '' @ launch_context_url launch @
           '' /etc/tiaris-installer/boot-context.json mode=600 mkdir=1 || goto failed'') @
     line ''boot || goto failed'' @
     line '':failed'' @
     line ''echo Tiaris Nest could not stage the installer runtime'' @
     line ''sleep 5'' @
     line ''exit 1''"

definition create_installer_launch ::
  "boot_env \<Rightarrow> boot_profile \<Rightarrow> str \<Rightarrow> device option \<Rightarrow> boot_session_launch store_db" where
  "create_installer_launch env profile mac device =
     db_bind (db_lift (ok_or (prof_managed_profile_id profile)
                         (Config ''Nest installer profile has no managed identity''))) (\<lambda>profile_id.
     db_bind (case device of
                Some device \<Rightarrow>
                  db_get (\<lambda>s. map_option (\<lambda>r. (row_managed_device_id r, row_reinstall_request_id r))
                                (find (\<lambda>r. dev_id r = dev_id device) (st_devices s)))
              | None \<Rightarrow> db_ret None) (\<lambda>binding.
       db_lift (ok_or (be_create_session env mac (Some profile_id) (Option.bind binding fst) (Option.bind binding snd))
                  (Config ''could not create signed Nest boot session''))))"

definition render_selected_profile ::
  "boot_env \<Rightarrow> boot_profile \<Rightarrow> str option \<Rightarrow> device option \<Rightarrow> str store_db" where
  "render_selected_profile env profile mac device =
     (if prof_type profile \<noteq> NestInstaller then db_lift (render_profile_script profile)
      else db_bind (db_lift (ok_or mac (Validation ''a normalized MAC is required for Nest installer boot''))) (\<lambda>mac.
           db_bind (create_installer_launch env profile mac device) (\<lambda>launch.
           db_ret (render_ipxe_launch launch))))"

section \<open>The boot decision\<close>

definition or_else :: "'a option \<Rightarrow> 'a option \<Rightarrow> 'a option" where
  "or_else x y = (case x of None \<Rightarrow> y | Some v \<Rightarrow> Some v)"

definition boot_event_of ::
  "device option \<Rightarrow> str option \<Rightarrow> str option \<Rightarrow> boot_headers \<Rightarrow> ip_addr option \<Rightarrow> boot_profile option \<Rightarrow> bool \<Rightarrow>
     new_boot_event" where
  "boot_event_of device mac serial headers connect selected_profile known_device =
     \<lparr> nev_device_id = map_option dev_id device,
       nev_mac = or_else mac (map_option dev_mac device),
       nev_serial_number = or_else serial (Option.bind device dev_serial_number),
       nev_ip_address = remote_ip connect headers,
       nev_user_agent = user_agent headers,
       nev_selected_profile_id = map_option prof_id selected_profile,
       nev_selected_profile_name = map_option prof_name selected_profile,
       nev_known_device = known_device \<rparr>"

text \<open>The device a request is about, and whether it was known.\<close>

definition seen_device :: "str \<Rightarrow> bool \<Rightarrow> str option \<Rightarrow> str option \<Rightarrow> (device option \<times> bool) store_db" where
  "seen_device now checker mac serial =
     (if checker then db_ret (None, False)
      else case mac of
             Some mac \<Rightarrow>
               db_bind (upsert_seen_device now mac serial) (\<lambda>(device, was_known). db_ret (Some device, was_known))
           | None \<Rightarrow>
               (case serial of
                  None \<Rightarrow> db_ret (None, False)
                | Some serial \<Rightarrow>
                    db_bind (get_device_by_serial serial) (\<lambda>found.
                      case found of
                        None \<Rightarrow> db_ret (None, False)
                      | Some found \<Rightarrow>
                          db_bind (touch_device_seen now (dev_id found)) (\<lambda>touched. db_ret (Some touched, True)))))"

text \<open>What follows a failed rendering: a machine that was about to enroll is forgotten again.\<close>

definition render_failed :: "selection_source \<Rightarrow> device option \<Rightarrow> app_error \<Rightarrow> 'a store_db" where
  "render_failed source device error =
     db_then (case device of
                Some device \<Rightarrow>
                  (if source = AutomaticEnrollment
                   then db_then (db_try (remove_unclaimed_auto_discovered_device (dev_id device))) (db_ret ())
                   else db_ret ())
              | None \<Rightarrow> db_ret ())
       (db_err error)"

definition note_selection :: "str \<Rightarrow> selection_source \<Rightarrow> device option \<Rightarrow> boot_profile option \<Rightarrow> unit store_db" where
  "note_selection now source device profile =
     (case (device, profile) of
        (Some device, Some profile) \<Rightarrow>
          (case source of
             OneTime \<Rightarrow> consume_one_time_profile now (dev_id device) (prof_id profile)
           | Assigned \<Rightarrow> set_device_last_selected now (dev_id device) (prof_id profile)
           | AutomaticEnrollment \<Rightarrow> set_device_last_selected now (dev_id device) (prof_id profile)
           | Menu \<Rightarrow> db_ret ())
      | _ \<Rightarrow> db_ret ())"

text \<open>The answer, once the device is known: the selected profile's script or the menu.\<close>

definition answer_boot ::
  "boot_env \<Rightarrow> str \<Rightarrow> str option \<Rightarrow> str option \<Rightarrow> boot_headers \<Rightarrow> ip_addr option \<Rightarrow> bool \<Rightarrow> device option \<Rightarrow> bool \<Rightarrow>
     str store_db" where
  "answer_boot env now mac serial headers connect checker device known_device =
     db_bind list_enabled_profiles (\<lambda>profiles.
     let selection_device = (if known_device then device else None);
         selection = choose_profile selection_device profiles
                       (automatic_enrollment_allowed checker known_device mac);
         selected_mac = or_else mac (map_option dev_mac device)
     in db_bind (case sel_profile selection of
                   Some profile \<Rightarrow>
                     db_bind (db_try (render_selected_profile env profile selected_mac device)) (\<lambda>rendered.
                       case rendered of
                         Inr script \<Rightarrow> db_ret (Some script)
                       | Inl error \<Rightarrow> render_failed (sel_source selection) device error)
                 | None \<Rightarrow> db_ret None) (\<lambda>selected_script.
        db_then (if checker then db_ret ()
                 else note_selection now (sel_source selection) device (sel_profile selection))
        (db_then (if checker then db_ret ()
                  else db_then (insert_boot_event now
                         (boot_event_of device mac serial headers connect (sel_profile selection) known_device))
                       (db_ret ()))
        (case selected_script of
           Some script \<Rightarrow> db_ret script
         | None \<Rightarrow>
             db_ret (render_menu (be_urlencode env) (be_lowercase env) (be_public_base_url env) profiles mac serial
                       (be_menu_timeout_ms env) (automatic_local_handoff_allowed checker known_device mac))))))"

definition build_boot_script ::
  "boot_env \<Rightarrow> str \<Rightarrow> str option \<Rightarrow> str option \<Rightarrow> boot_headers \<Rightarrow> ip_addr option \<Rightarrow> bool \<Rightarrow> str store_db" where
  "build_boot_script env now mac serial headers connect checker =
     db_bind (db_lift (normalized_optional_mac mac)) (\<lambda>mac.
     let serial = clean_optional serial
     in db_bind (seen_device now checker mac serial) (\<lambda>(device, known_device).
        answer_boot env now mac serial headers connect checker device known_device))"

section \<open>The endpoints\<close>

definition boot_root ::
  "boot_env \<Rightarrow> str \<Rightarrow> boot_query \<Rightarrow> boot_headers \<Rightarrow> ip_addr option \<Rightarrow> http_response store_db" where
  "boot_root env now query headers connect =
     (let checker = is_local_checker_request query headers connect
      in db_bind (build_boot_script env now (query_mac query) (query_serial query) headers connect checker) (\<lambda>script.
         db_ret (ipxe_response script)))"

definition boot_mac ::
  "boot_env \<Rightarrow> str \<Rightarrow> str \<Rightarrow> boot_query \<Rightarrow> boot_headers \<Rightarrow> ip_addr option \<Rightarrow> http_response store_db" where
  "boot_mac env now mac query headers connect =
     (let checker = is_local_checker_request query headers connect
      in db_bind (build_boot_script env now (Some mac) (query_serial query) headers connect checker) (\<lambda>script.
         db_ret (ipxe_response script)))"

definition boot_serial ::
  "boot_env \<Rightarrow> str \<Rightarrow> str \<Rightarrow> boot_query \<Rightarrow> boot_headers \<Rightarrow> ip_addr option \<Rightarrow> http_response store_db" where
  "boot_serial env now serial query headers connect =
     (let checker = is_local_checker_request query headers connect
      in db_bind (build_boot_script env now (query_mac query) (Some serial) headers connect checker) (\<lambda>script.
         db_ret (ipxe_response script)))"

definition select_device :: "str \<Rightarrow> bool \<Rightarrow> int \<Rightarrow> str option \<Rightarrow> str option \<Rightarrow> (device option \<times> bool) store_db" where
  "select_device now checker profile_id mac serial =
     (if checker then db_ret (None, False)
      else case mac of
             Some mac \<Rightarrow>
               db_bind (upsert_seen_device now mac serial) (\<lambda>(seen, was_known).
               db_then (set_device_last_selected now (dev_id seen) profile_id) (db_ret (Some seen, was_known)))
           | None \<Rightarrow>
               (case serial of
                  None \<Rightarrow> db_ret (None, False)
                | Some serial \<Rightarrow>
                    db_bind (get_device_by_serial serial) (\<lambda>found.
                      case found of
                        None \<Rightarrow> db_ret (None, False)
                      | Some found \<Rightarrow>
                          db_bind (touch_device_seen now (dev_id found)) (\<lambda>touched.
                          db_then (set_device_last_selected now (dev_id touched) profile_id)
                            (db_ret (Some touched, True))))))"

definition boot_select_profile ::
  "boot_env \<Rightarrow> str \<Rightarrow> str \<Rightarrow> boot_query \<Rightarrow> boot_headers \<Rightarrow> ip_addr option \<Rightarrow> http_response store_db" where
  "boot_select_profile env now profile_id query headers connect =
     db_bind (db_lift (boot_profile_id_from_path profile_id)) (\<lambda>profile_id.
     db_bind (get_profile profile_id) (\<lambda>profile.
       if \<not> prof_enabled profile \<or> \<not> profile_has_boot_action profile then db_err NotFound
       else
         let checker = is_local_checker_request query headers connect
         in db_bind (db_lift (normalized_optional_mac (query_mac query))) (\<lambda>mac.
            let serial = clean_optional (query_serial query)
            in db_bind (select_device now checker (prof_id profile) mac serial) (\<lambda>(device, known_device).
               let selected_mac = or_else mac (map_option dev_mac device)
               in db_bind (render_selected_profile env profile selected_mac device) (\<lambda>script.
                  db_then (if checker then db_ret ()
                           else db_then (insert_boot_event now
                                  (boot_event_of device mac serial headers connect (Some profile) known_device))
                                (db_ret ()))
                  (db_ret (ipxe_response script)))))))"


section \<open>What a request may write\<close>

lemma create_installer_launch_reads [db_rules, intro]: "keeps P (create_installer_launch env profile mac device)"
  unfolding create_installer_launch_def by (intro db_rules)

lemma render_selected_profile_reads [db_rules, intro]: "keeps P (render_selected_profile env profile mac device)"
  unfolding render_selected_profile_def by (intro db_rules)

lemma list_enabled_profiles_reads [db_rules, intro]: "keeps P list_enabled_profiles"
  unfolding list_enabled_profiles_def by (intro db_rules)

lemma get_profile_reads [db_rules, intro]: "keeps P (get_profile i)"
  unfolding get_profile_def by (intro db_rules)

lemma upsert_seen_inv [db_rules, intro]: "keeps store_inv (upsert_seen_device now mac serial)"
  unfolding upsert_seen_device_def by (intro db_rules)

lemma insert_boot_event_keeps [db_rules, intro]: "keeps store_inv (insert_boot_event now e)"
  unfolding insert_boot_event_def by (intro db_rules)

lemma seen_device_inv [db_rules, intro]: "keeps store_inv (seen_device now checker mac serial)"
  unfolding seen_device_def by (intro db_rules)

lemma select_device_inv [db_rules, intro]: "keeps store_inv (select_device now checker i mac serial)"
  unfolding select_device_def by (intro db_rules)

lemma render_failed_inv [db_rules, intro]: "keeps store_inv (render_failed source device e)"
  unfolding render_failed_def by (intro db_rules)

lemma note_selection_inv [db_rules, intro]: "keeps store_inv (note_selection now source device profile)"
  unfolding note_selection_def by (cases device; cases profile; cases source) (auto intro!: db_rules)

lemma build_boot_script_inv [db_rules, intro]:
  "keeps store_inv (build_boot_script env now mac serial headers connect checker)"
  unfolding build_boot_script_def answer_boot_def Let_def by (intro db_rules)

lemma seen_device_checker [simp]: "seen_device now True mac serial = db_ret (None, False)"
  by (simp add: seen_device_def)

lemma select_device_checker [simp]: "select_device now True i mac serial = db_ret (None, False)"
  by (simp add: select_device_def)

lemma bind_ret [simp]: "db_bind (db_ret x) f = f x"
  by (rule ext) (simp add: db_bind_def)

lemma build_boot_script_checker: "keeps P (build_boot_script env now mac serial headers connect True)"
  unfolding build_boot_script_def answer_boot_def render_failed_def Let_def by (simp, intro db_rules, simp)

section \<open>Known devices\<close>

lemma seen_device_serial_number_total: "\<exists>sn. seen_device_serial_number i a b s = (Inr sn, s)"
  by (auto simp: seen_device_serial_number_def get_device_by_serial_def Let_def split: option.splits)

lemma update_devices_cases:
  obtains e where "update_devices p f s = (Inl e, s)"
  | "update_devices p f s = (Inr (), s \<lparr> st_devices := update_where p f (st_devices s) \<rparr>)"
  unfolding update_devices_def by (rule write_devices_cases [of "\<lambda>s. update_where p f (st_devices s)" s]) auto

lemma update_one_row:
  assumes "store_inv s" and "r \<in> set (st_devices s)" and "\<And>x. dev_id (f x) = dev_id x"
    and "t = s \<lparr> st_devices := update_where (\<lambda>x. dev_id x = dev_id r) f (st_devices s) \<rparr>"
  shows "f r \<in> set (st_devices t)" and "get_device (dev_id r) t = (Inr (device_of (f r)), t)"
proof -
  have d: "distinct (map dev_id (st_devices t))"
    using store_inv_rows [OF assms(1)] by (simp add: assms(4) update_where_def comp_def assms(3) if_distrib cong: if_cong)
  show m: "f r \<in> set (st_devices t)"
    unfolding assms(4) using assms(2) by (auto simp: set_update_where intro!: image_eqI [of _ _ r])
  from find_key_unique [OF d m] show "get_device (dev_id r) t = (Inr (device_of (f r)), t)"
    by (simp add: get_device_def assms(3) ok_or_def)
qed

lemma upsert_known_cases:
  assumes inv: "store_inv s" and can: "canonical_mac m" and r: "r \<in> set (st_devices s)" "dev_mac r = m"
  obtains (failed) e where "upsert_seen_device now m serial s = (Inl e, s)"
  | (touched) t r' where "upsert_seen_device now m serial s = (Inr (device_of r', True), t)"
      "r' \<in> set (st_devices t)" "dev_id r' = dev_id r" "dev_one_time_profile_id r' = dev_one_time_profile_id r"
      "st_profiles t = st_profiles s"
proof -
  have dmac: "distinct (map mac_key (st_devices s))"
    using inv by (simp add: store_inv_def devices_inv_def devices_unique_def)
  have g: "get_device_by_mac m s = (Inr (Some (device_of r)), s)"
  proof (rule get_device_by_mac_cases [OF inv can])
    fix q assume q: "get_device_by_mac m s = (Inr (Some (device_of q)), s)" "q \<in> set (st_devices s)" "dev_mac q = m"
    have "q = r" using distinct_key_unique [OF dmac q(2) r(1)] q(3) r(2) by (simp add: mac_key_def)
    with q show ?thesis by simp
  qed (use r in auto)
  obtain sn where sn: "seen_device_serial_number (dev_id r) (dev_serial_number r) serial s = (Inr sn, s)"
    using seen_device_serial_number_total by blast
  define f :: "device_row \<Rightarrow> device_row" where
    "f = (\<lambda>x. x \<lparr> dev_last_seen_at := Some now, dev_serial_number := sn, dev_updated_at := now \<rparr>)"
  have f: "dev_id (f x) = dev_id x" "dev_one_time_profile_id (f x) = dev_one_time_profile_id x" for x
    by (simp_all add: f_def)
  have up: "upsert_seen_device now m serial s =
      db_then (update_devices (\<lambda>x. dev_id x = dev_id r) f) (db_bind (get_device (dev_id r)) (\<lambda>d. db_ret (d, True))) s"
    using can by (simp add: upsert_seen_device_def upsert_seen_device_with_retention_def g sn f_def)
  show thesis
  proof (rule update_devices_cases [of "\<lambda>x. dev_id x = dev_id r" f s])
    fix e assume "update_devices (\<lambda>x. dev_id x = dev_id r) f s = (Inl e, s)"
    then show thesis by (intro failed [of e]) (simp add: up)
  next
    let ?t = "s \<lparr> st_devices := update_where (\<lambda>x. dev_id x = dev_id r) f (st_devices s) \<rparr>"
    assume u: "update_devices (\<lambda>x. dev_id x = dev_id r) f s = (Inr (), ?t)"
    note row = update_one_row [OF inv r(1) f(1) refl]
    show thesis by (rule touched [of "f r" ?t]) (use row in \<open>simp_all add: up u f\<close>)
  qed
qed

lemma enabled_profiles_eq: "\<exists>ps. list_enabled_profiles s = (Inr ps, s) \<and> set ps = {p \<in> set (st_profiles s). prof_enabled p}"
  by (auto simp: list_enabled_profiles_def Let_def)

lemma choose_one_time:
  assumes "set ps = {p \<in> set profiles. prof_enabled p}" and "assignment_ok profiles (Some i)"
    and "dev_one_time_profile_id d = Some i"
  shows "\<exists>p. choose_profile (Some d) ps allow = \<lparr> sel_profile = Some p, sel_source = OneTime \<rparr> \<and>
             p \<in> set profiles \<and> prof_id p = i"
proof -
  obtain p where p: "p \<in> set profiles" "prof_id p = i" "runnable p"
    using assms(2) by (auto simp: assignment_ok_iff)
  then have "find_enabled_profile ps i \<noteq> None"
    using assms(1) by (auto simp: find_enabled_profile_None runnable_def profile_has_boot_action_fields)
  then obtain q where q: "find_enabled_profile ps i = Some q" by auto
  have "q \<in> set profiles" "prof_id q = i" using find_enabled_profile_ok [OF q] assms(1) by auto
  then show ?thesis using q assms(3) by (simp add: choose_profile_def)
qed

lemma insert_boot_event_cases:
  obtains "insert_boot_event now e s = (Inl (Sqlx ForeignKeyViolation), s)" "\<not> event_fk s (new_event_row now e (st_event_seq s + 1))"
  | x t where "insert_boot_event now e s = (Inr x, t)" "st_devices t = st_devices s" "st_profiles t = st_profiles s"
proof (cases "event_fk s (new_event_row now e (st_event_seq s + 1))")
  case False
  then show thesis
    by (intro that(1)) (simp_all add: insert_boot_event_def insert_boot_event_with_retention_def insert_event_def Let_def)
next
  case True
  let ?s = "s \<lparr> st_events := st_events s @ [new_event_row now e (st_event_seq s + 1)], st_event_seq := st_event_seq s + 1 \<rparr>"
  obtain x where "find (\<lambda>x. ev_id x = st_event_seq s + 1) (st_events ?s) = Some x"
    by (cases "find (\<lambda>x. ev_id x = st_event_seq s + 1) (st_events ?s)") (auto simp: find_None_iff new_event_row_def)
  with True show thesis
    by (intro that(2) [of x "snd (insert_boot_event now e s)"])
       (simp_all add: insert_boot_event_def insert_boot_event_with_retention_def insert_event_def Let_def
          get_boot_event_def prune_boot_events_def ok_or_def)
qed

lemma event_fk_event_of:
  "event_fk s (new_event_row now (boot_event_of device mac serial headers connect profile known) i) \<longleftrightarrow>
     (\<forall>d. device = Some d \<longrightarrow> dev_id d \<in> dev_id ` set (st_devices s)) \<and>
     (\<forall>p. profile = Some p \<longrightarrow> prof_id p \<in> prof_id ` set (st_profiles s))"
  by (auto simp: event_fk_def new_event_row_def boot_event_of_def device_exists_iff profile_exists_iff)

lemma readers_state: "(\<And>P. keeps P m) \<Longrightarrow> snd (m s) = s"
  using keeps_snd [of "\<lambda>t. t = s" m s] by simp

lemma render_cases:
  obtains (failed) e where "render_selected_profile env p mac d s = (Inl e, s)"
  | (rendered) script where "render_selected_profile env p mac d s = (Inr script, s)"
proof -
  have "snd (render_selected_profile env p mac d s) = s" by (rule readers_state) (rule render_selected_profile_reads)
  then show thesis using that by (cases "render_selected_profile env p mac d s"; cases "fst (render_selected_profile env p mac d s)") auto
qed

lemma bind_assoc: "db_bind (db_bind m f) g = db_bind m (\<lambda>x. db_bind (f x) g)"
  by (rule ext) (simp add: db_bind_def split: prod.splits sum.splits)

lemma answer_one_time:
  assumes inv: "store_inv u" and r': "r' \<in> set (st_devices u)" "dev_one_time_profile_id r' = Some i"
    and ans: "answer_boot env now mac serial headers connect False (Some (device_of r')) True u = (res, t)"
  shows "\<exists>q \<in> set (st_devices t). dev_id q = dev_id r' \<and>
    (case res of
       Inl _ \<Rightarrow> dev_one_time_profile_id q = Some i
     | Inr _ \<Rightarrow> dev_one_time_profile_id q = None \<and> dev_one_time_consumed_at q = Some now \<and>
               dev_last_selected_profile_id q = Some i)"
proof -
  obtain ps where ps: "list_enabled_profiles u = (Inr ps, u)" "set ps = {p \<in> set (st_profiles u). prof_enabled p}"
    using enabled_profiles_eq by blast
  have "assignment_ok (st_profiles u) (Some i)"
    using store_inv_rows [OF inv] r' by (auto simp: list_all_iff row_ok_def)
  from choose_one_time [OF ps(2) this, of "device_of r'"] r'(2) obtain p where
    p: "choose_profile (Some (device_of r')) ps (automatic_enrollment_allowed False True mac) =
          \<lparr> sel_profile = Some p, sel_source = OneTime \<rparr>" "p \<in> set (st_profiles u)" "prof_id p = i" by auto
  show ?thesis
  proof (cases rule: render_cases [of env p "or_else mac (Some (dev_mac r'))" "Some (device_of r')" u])
    case (failed e)
    then have "res = Inl e" "t = u" using ans ps(1) p(1) by (simp_all add: answer_boot_def render_failed_def)
    with r' show ?thesis by auto
  next
    case (rendered script)
    let ?P = "\<lambda>x. dev_id x = dev_id r' \<and> dev_one_time_profile_id x = Some i"
    let ?F = "\<lambda>x. x \<lparr> dev_one_time_profile_id := None, dev_one_time_consumed_at := Some now,
              dev_last_selected_profile_id := Some i, dev_updated_at := now \<rparr>"
    define v where "v = u \<lparr> st_devices := update_where ?P ?F (st_devices u) \<rparr>"
    have c: "note_selection now OneTime (Some (device_of r')) (Some p) u = (Inr (), v)"
      by (simp add: note_selection_def consume_one_time_profile_eq [OF inv] p(3) v_def)
    have row: "?F r' \<in> set (st_devices v)" and profs: "st_profiles v = st_profiles u"
      unfolding v_def using r' by (auto simp: set_update_where intro!: image_eqI [of _ _ r'])
    let ?e = "boot_event_of (Some (device_of r')) mac serial headers connect (Some p) True"
    have "dev_id r' \<in> dev_id ` set (st_devices v)" using row by (rule rev_image_eqI) simp
    then have fk: "event_fk v (new_event_row now ?e (st_event_seq v + 1))"
      unfolding event_fk_event_of using p(2) profs by simp
    show ?thesis
    proof (cases rule: insert_boot_event_cases [of now ?e v])
      case 1
      with fk show ?thesis by blast
    next
      case (2 x w)
      then have "res = Inr script" "t = w" using ans ps(1) p(1) rendered c by (simp_all add: answer_boot_def)
      with row 2(2) show ?thesis by (intro bexI [of _ "?F r'"]) auto
    qed
  qed
qed

section \<open>First boots\<close>

definition macs :: "store \<Rightarrow> str set" where
  "macs s = dev_mac ` set (st_devices s)"

lemma update_devices_macs:
  assumes "\<And>x. dev_mac (f x) = dev_mac x"
  shows "keeps (\<lambda>s. m \<notin> macs s) (update_devices p f)"
proof (unfold keeps_iff, intro allI impI)
  fix s assume "m \<notin> macs s"
  then show "m \<notin> macs (snd (update_devices p f s))"
    by (cases rule: update_devices_cases [of p f s]) (auto simp: macs_def set_update_where assms)
qed

lemma delete_devices_macs: "keeps (\<lambda>s. m \<notin> macs s) (delete_devices q)"
  by (auto simp: keeps_iff macs_def delete_devices_def Let_def)

lemma insert_boot_event_macs: "keeps (\<lambda>s. m \<notin> macs s) (insert_boot_event now e)"
proof (unfold keeps_iff, intro allI impI)
  fix s assume "m \<notin> macs s"
  then show "m \<notin> macs (snd (insert_boot_event now e s))"
    by (cases rule: insert_boot_event_cases [of now e s]) (auto simp: macs_def)
qed

lemma answer_boot_macs: "keeps (\<lambda>s. m \<notin> macs s) (answer_boot env now mac serial headers connect checker device known)"
proof -
  have n: "keeps (\<lambda>s. m \<notin> macs s) (note_selection now source device profile)" for source profile
    unfolding note_selection_def consume_one_time_profile_def set_device_last_selected_def
    by (cases device; cases profile; cases source) (auto intro!: db_rules update_devices_macs)
  show ?thesis
    unfolding answer_boot_def render_failed_def remove_unclaimed_auto_discovered_device_def Let_def
    by (intro db_rules n insert_boot_event_macs delete_devices_macs)
qed

lemma serial_lookup_total: "\<exists>d. get_device_by_serial serial s = (Inr d, s)"
  by (auto simp: get_device_by_serial_def Let_def)

lemma upsert_unknown_cases:
  assumes inv: "store_inv s" and can: "canonical_mac m" and m: "m \<notin> macs s"
  obtains (failed) e where "upsert_seen_device now m serial s = (Inl e, s)"
  | (other) d t where "upsert_seen_device now m serial s = (Inr (d, True), t)" "m \<notin> macs t"
  | (new) d t where "upsert_seen_device now m serial s = (Inr (d, False), t)"
      "\<forall>x \<in> set (st_devices t). dev_mac x = m \<longrightarrow> dev_id x = dev_id d \<and> unclaimed x"
proof -
  have g: "get_device_by_mac m s = (Inr None, s)"
    by (rule get_device_by_mac_cases [OF inv can]) (use m in \<open>auto simp: macs_def\<close>)
  obtain by_serial where bs: "(case Option.bind serial clean_str_ref of
      Some serial \<Rightarrow> get_device_by_serial serial | None \<Rightarrow> db_ret None) s = (Inr by_serial, s)"
    using serial_lookup_total by (cases "Option.bind serial clean_str_ref") auto
  note start = upsert_seen_device_def upsert_seen_device_with_retention_def normalize_mac_canonical [OF can] g bs
  show thesis
  proof (cases by_serial)
    case (Some d)
    let ?f = "\<lambda>x. x \<lparr> dev_last_seen_at := Some now, dev_updated_at := now \<rparr>"
    show thesis
    proof (rule update_devices_cases [of "\<lambda>x. dev_id x = dev_id d" ?f s])
      fix e assume "update_devices (\<lambda>x. dev_id x = dev_id d) ?f s = (Inl e, s)"
      then show thesis by (intro failed [of e]) (simp add: start Some)
    next
      let ?t = "s \<lparr> st_devices := update_where (\<lambda>x. dev_id x = dev_id d) ?f (st_devices s) \<rparr>"
      assume u: "update_devices (\<lambda>x. dev_id x = dev_id d) ?f s = (Inr (), ?t)"
      have row: "\<exists>r \<in> set (st_devices s). dev_id r = dev_id d"
        using bs Some by (auto simp: get_device_by_serial_def Let_def split: option.splits if_splits dest!: find_Some_in)
      then obtain r where r: "r \<in> set (st_devices s)" "dev_id r = dev_id d" by blast
      have "get_device (dev_id r) ?t = (Inr (device_of (?f r)), ?t)"
        by (rule update_one_row(2) [OF inv r(1), of ?f]) (simp_all add: r(2))
      moreover have "m \<notin> macs ?t"
        using keeps_snd [OF update_devices_macs, of ?f m s "\<lambda>x. dev_id x = dev_id d"] u m by simp
      ultimately show thesis by (intro other [of "device_of (?f r)" ?t]) (simp_all add: start Some u r(2))
    qed
  next
    case None
    let ?mk = "\<lambda>i. (new_device_row m now i) \<lparr> dev_serial_number := Option.bind serial clean_str_ref, dev_last_seen_at := Some now \<rparr>"
    show thesis
    proof (cases "insert_device ?mk s")
      case (Pair res s1)
      show thesis
      proof (cases res)
        case (Inl e)
        with Pair have "s1 = s" by (auto simp: insert_device_def write_devices_def Let_def split: if_splits)
        with Inl Pair show thesis by (intro failed [of e]) (simp add: start None)
      next
        case (Inr i)
        with insert_device_eq_Inr [of ?mk s i s1] Pair have
          s1: "i = st_device_seq s + 1" "s1 = s \<lparr> st_devices := st_devices s @ [?mk i], st_device_seq := i \<rparr>" by auto
        have nm: "\<not> eq_ignore_ascii_case (dev_mac x) m" if "x \<in> set (st_devices s)" for x
          using that m eq_ignore_ascii_case_canonical [OF _ can] store_inv_rows [OF inv]
          by (auto simp: macs_def list_all_iff row_ok_def)
        have find: "find (\<lambda>x. eq_ignore_ascii_case (dev_mac x) m) (st_devices s1) = Some (?mk i)"
          using nm by (auto simp: s1 find_Some_iff new_device_row_def eq_ignore_ascii_case_def nth_append
              intro!: exI [of _ "length (st_devices s)"])
        have g1: "get_device_by_mac m s1 = (Inr (Some (device_of (?mk i))), s1)"
          by (simp add: get_device_by_mac_def normalize_mac_canonical [OF can] find)
        define t where "t = snd (prune_auto_discovered_devices max_auto_discovered_devices_retained s1)"
        have t: "prune_auto_discovered_devices max_auto_discovered_devices_retained s1 = (Inr (), t)"
          and sub: "set (st_devices t) \<subseteq> set (st_devices s1)"
          unfolding t_def by (auto simp: prune_auto_discovered_devices_def delete_devices_def Let_def)
        have up: "upsert_seen_device now m serial s = (Inr (device_of (?mk i), False), t)"
          using Pair Inr by (simp add: start None g1 ok_or_def t)
        have "dev_id x = dev_id (device_of (?mk i)) \<and> unclaimed x" if "x \<in> set (st_devices t)" "dev_mac x = m" for x
        proof -
          have "x = ?mk i" using that sub m by (auto simp: s1 macs_def)
          then show ?thesis by (simp add: new_device_row_def unclaimed_def)
        qed
        with up show thesis by (intro new) auto
      qed
    qed
  qed
qed

lemma set_last_selected_ok:
  assumes "store_inv s" and "p \<in> set (st_profiles s)"
  shows "set_device_last_selected now i (prof_id p) s =
    (Inr (), s \<lparr> st_devices := update_where (\<lambda>r. dev_id r = i)
       (\<lambda>r. r \<lparr> dev_last_selected_profile_id := Some (prof_id p), dev_updated_at := now \<rparr>) (st_devices s) \<rparr>)"
  unfolding set_device_last_selected_def
  by (rule update_devices_same_constraints)
     (use assms in \<open>auto simp: store_inv_def devices_inv_def device_ok_def device_fk_def list_all_iff mac_key_def
        profile_exists_iff\<close>)

lemma then_event_failed:
  assumes "db_then (db_then (insert_boot_event now ev) (db_ret ())) (db_ret x) w = (Inl e, t)"
  shows "t = w \<and> \<not> event_fk w (new_event_row now ev (st_event_seq w + 1))"
proof (cases rule: insert_boot_event_cases [of now ev w])
  case 1
  with assms show ?thesis by simp
next
  case (2 y v)
  with assms show ?thesis by simp
qed

lemma render_failed_eq:
  "render_failed source device e u =
     (Inl e, case device of
               Some d \<Rightarrow> (if source = AutomaticEnrollment then snd (remove_unclaimed_auto_discovered_device (dev_id d) u) else u)
             | None \<Rightarrow> u)"
  by (cases device) (simp_all add: render_failed_def db_then_def db_bind_def db_try_def split: prod.splits)

lemma answer_boot_selected:
  assumes "list_enabled_profiles u = (Inr ps, u)"
    and "choose_profile (if known then device else None) ps (automatic_enrollment_allowed False known mac) =
           \<lparr> sel_profile = Some p, sel_source = source \<rparr>"
  shows "render_selected_profile env p (or_else mac (map_option dev_mac device)) device u = (Inl e, u) \<Longrightarrow>
           answer_boot env now mac serial headers connect False device known u =
             (Inl e, snd (render_failed source device e u :: unit app_result \<times> store))"
    and "render_selected_profile env p (or_else mac (map_option dev_mac device)) device u = (Inr script, u) \<Longrightarrow>
           answer_boot env now mac serial headers connect False device known u =
             db_then (note_selection now source device (Some p))
               (db_then (db_then (insert_boot_event now (boot_event_of device mac serial headers connect (Some p) known))
                  (db_ret ())) (db_ret script)) u"
  using assms by (simp_all add: answer_boot_def render_failed_eq)

lemma new_row_gone:
  assumes rows: "\<forall>x \<in> set (st_devices u). dev_mac x = m \<longrightarrow> dev_id x = dev_id d \<and> unclaimed x"
    and w: "set (st_devices w) = f ` set (st_devices u)" "\<And>x. dev_id (f x) = dev_id x"
      "\<And>x. dev_mac (f x) = dev_mac x" "st_profiles w = st_profiles u"
    and p: "\<And>q. p = Some q \<Longrightarrow> q \<in> set (st_profiles u)"
    and fk: "\<not> event_fk w (new_event_row now (boot_event_of (Some d) mac serial headers connect p known) i)"
  shows "m \<notin> macs w"
proof
  assume "m \<in> macs w"
  then obtain x where "x \<in> set (st_devices u)" "dev_mac x = m" using w(1,3) by (auto simp: macs_def)
  then have "dev_id d = dev_id (f x)" "f x \<in> set (st_devices w)" using rows w(1,2) by auto
  then have "event_fk w (new_event_row now (boot_event_of (Some d) mac serial headers connect p known) i)"
    unfolding event_fk_event_of using p w(4) by auto
  with fk show False by contradiction
qed

lemma answer_new_failed:
  assumes inv: "store_inv u" and rows: "\<forall>x \<in> set (st_devices u). dev_mac x = m \<longrightarrow> dev_id x = dev_id d \<and> unclaimed x"
    and ans: "answer_boot env now (Some m) serial headers connect False (Some d) False u = (Inl e, t)"
  shows "m \<notin> macs t"
proof -
  obtain ps where ps: "list_enabled_profiles u = (Inr ps, u)" "set ps = {p \<in> set (st_profiles u). prof_enabled p}"
    using enabled_profiles_eq by blast
  have allow: "automatic_enrollment_allowed False False (Some m)" by (simp add: automatic_enrollment_allowed_def)
  show ?thesis
  proof (cases "unambiguous_default_enrollment ps")
    case None
    then have "choose_profile None ps True = menu_selection" by (simp add: choose_profile_def)
    then have "db_then (db_then (insert_boot_event now
        (boot_event_of (Some d) (Some m) serial headers connect None False)) (db_ret ()))
        (db_ret (render_menu (be_urlencode env) (be_lowercase env) (be_public_base_url env) ps (Some m) serial
          (be_menu_timeout_ms env) (automatic_local_handoff_allowed False False (Some m)))) u = (Inl e, t)"
      using ans ps(1) allow by (simp add: answer_boot_def menu_selection_def note_selection_def)
    from then_event_failed [OF this] show ?thesis
      by (elim conjE) (rule new_row_gone [OF rows, where f = "\<lambda>x. x" and p = None], simp_all)
  next
    case (Some p)
    then have c: "choose_profile (if False then Some d else None) ps (automatic_enrollment_allowed False False (Some m)) =
        \<lparr> sel_profile = Some p, sel_source = AutomaticEnrollment \<rparr>" using allow by (simp add: choose_profile_def)
    have "p \<in> set (filter enrollment_default ps)" using Some by (simp add: unambiguous_default_enrollment_Some)
    then have p: "p \<in> set (st_profiles u)" using ps(2) by simp
    note a = answer_boot_selected [OF ps(1) c, where env = env and now = now and serial = serial and
        headers = headers and connect = connect]
    show ?thesis
    proof (cases rule: render_cases [of env p "or_else (Some m) (map_option dev_mac (Some d))" "Some d" u])
      case (failed e')
      from a(1) [OF this] ans have "t = snd (remove_unclaimed_auto_discovered_device (dev_id d) u)"
        by (simp add: render_failed_eq)
      then have "st_devices t = delete_where (\<lambda>r. dev_id r = dev_id d \<and> unclaimed r) (st_devices u)"
        by (simp add: remove_unclaimed_auto_discovered_device_def delete_devices_def Let_def db_bind_def)
      with rows show ?thesis by (auto simp: macs_def)
    next
      case (rendered script)
      let ?f = "\<lambda>r. if dev_id r = dev_id d
        then r \<lparr> dev_last_selected_profile_id := Some (prof_id p), dev_updated_at := now \<rparr> else r"
      define w where "w = u \<lparr> st_devices := map ?f (st_devices u) \<rparr>"
      have n: "note_selection now AutomaticEnrollment (Some d) (Some p) u = (Inr (), w)"
        by (simp add: note_selection_def set_last_selected_ok [OF inv p] w_def update_where_def)
      have "db_then (db_then (insert_boot_event now
          (boot_event_of (Some d) (Some m) serial headers connect (Some p) False)) (db_ret ())) (db_ret script) w = (Inl e, t)"
        using a(2) [OF rendered] ans n by simp
      from then_event_failed [OF this] show ?thesis
        by (elim conjE) (rule new_row_gone [OF rows, where f = ?f and p = "Some p"], use p in \<open>auto simp: w_def\<close>)
    qed
  qed
qed

section \<open>Properties\<close>


text \<open>A health check of the appliance itself changes nothing: it leaves the store as it is,
  and only a peer on the loopback interface that asks for it, and is not forwarding someone
  else's request, is taken for one.\<close>

theorem checker_request_changes_nothing:
  assumes "is_local_checker_request query headers connect"
  shows "snd (boot_root env now query headers connect s) = s \<and>
    snd (boot_mac env now mac query headers connect s) = s \<and>
    snd (boot_serial env now serial query headers connect s) = s \<and>
    snd (boot_select_profile env now profile_id query headers connect s) = s \<and>
    query_tiaris_check query = Some ''1'' \<and>
    (\<exists>ip. connect = Some ip \<and> is_loopback ip) \<and>
    (\<forall>v a b c d. hdr_x_forwarded_for headers = Some v \<and>
       parse_ip (trim (last (split_on CHR '','' v))) = Some (V4 a b c d) \<longrightarrow> a = 127)"
proof (intro conjI)
  show "snd (boot_select_profile env now profile_id query headers connect s) = s"
    by (rule readers_state) (unfold boot_select_profile_def Let_def assms [THEN eqTrueI], intro db_rules, auto)
  show "query_tiaris_check query = Some ''1''" "\<exists>ip. connect = Some ip \<and> is_loopback ip"
    using assms by (auto simp: is_local_checker_request_def peer_is_loopback_def split: if_splits option.splits)
  show "\<forall>v a b c d. hdr_x_forwarded_for headers = Some v \<and>
       parse_ip (trim (last (split_on CHR '','' v))) = Some (V4 a b c d) \<longrightarrow> a = 127"
  proof (intro allI impI, elim conjE)
    fix v a b c d
    assume h: "hdr_x_forwarded_for headers = Some v"
      "parse_ip (trim (last (split_on CHR '','' v))) = Some (V4 a b c d)"
    obtain xs x where x: "split_on CHR '','' v = xs @ [x]" by (cases "split_on CHR '','' v" rule: rev_cases) auto
    have "last_valid_forwarded_ip v = Some (v4_to_str a b c d)"
      using h(2) by (simp add: last_valid_forwarded_ip_def x)
    moreover have "parse_ip (v4_to_str a b c d) = Some (V4 a b c d)"
      by (simp add: parse_ip_def read_ipv4_addr_v4)
    ultimately show "a = 127" using assms h(1) by (simp add: is_local_checker_request_def split: if_splits)
  qed
qed (unfold boot_root_def boot_mac_def boot_serial_def Let_def assms [THEN eqTrueI],
     (rule readers_state, intro db_rules build_boot_script_checker)+)

text \<open>C12: a one-time assignment is used up exactly by a boot that got its script: when the
  request of a known machine fails, for whatever reason, the assignment is still there, and when it
  succeeds it is consumed and the profile recorded as the last selected one.\<close>

theorem one_time_boot_consumed:
  assumes "store_inv s" and "normalize_mac mac = Inr m"
    and "r \<in> set (st_devices s)" and "dev_mac r = m" and "dev_one_time_profile_id r = Some i"
    and "build_boot_script env now (Some mac) serial headers connect False s = (res, t)"
  shows "\<exists>r' \<in> set (st_devices t). dev_id r' = dev_id r \<and>
    (case res of
       Inl _ \<Rightarrow> dev_one_time_profile_id r' = Some i
     | Inr _ \<Rightarrow> dev_one_time_profile_id r' = None \<and> dev_one_time_consumed_at r' = Some now \<and>
               dev_last_selected_profile_id r' = Some i)"
proof -
  have can: "canonical_mac m" using assms(2) by (simp add: normalize_mac_eq_Inr)
  have start: "db_bind (upsert_seen_device now m (clean_optional serial)) (\<lambda>(device, known).
      answer_boot env now (Some m) (clean_optional serial) headers connect False (Some device) known) s = (res, t)"
    using assms(6) by (simp add: build_boot_script_def normalized_optional_mac_def assms(2) seen_device_def
        bind_assoc split_def Let_def)
  show ?thesis
  proof (rule upsert_known_cases [OF assms(1) can assms(3,4), of now "clean_optional serial"])
    fix e assume "upsert_seen_device now m (clean_optional serial) s = (Inl e, s)"
    then have "res = Inl e" "t = s" using start by simp_all
    with assms(3,5) show ?thesis by auto
  next
    fix u r'
    assume touched: "upsert_seen_device now m (clean_optional serial) s = (Inr (device_of r', True), u)"
      "r' \<in> set (st_devices u)" "dev_id r' = dev_id r" "dev_one_time_profile_id r' = dev_one_time_profile_id r"
    have inv: "store_inv u" using keeps_snd [OF upsert_seen_inv assms(1), of now m "clean_optional serial"] touched(1) by simp
    have "answer_boot env now (Some m) (clean_optional serial) headers connect False (Some (device_of r')) True u = (res, t)"
      using start touched(1) by simp
    from answer_one_time [OF inv touched(2) _ this] touched(3,4) assms(5) show ?thesis by simp
  qed
qed

text \<open>C13: a machine that is new to the appliance is remembered only when its first boot is
  answered: if the request fails, at whatever step, no device with its hardware address is left
  behind, so the next attempt is again a first boot.\<close>

theorem failed_first_boot_leaves_no_device:
  assumes "store_inv s" and "normalize_mac mac = Inr m" and "m \<notin> dev_mac ` set (st_devices s)"
    and "build_boot_script env now (Some mac) serial headers connect False s = (Inl e, t)"
  shows "m \<notin> dev_mac ` set (st_devices t)"
proof -
  have can: "canonical_mac m" using assms(2) by (simp add: normalize_mac_eq_Inr)
  have m: "m \<notin> macs s" using assms(3) by (simp add: macs_def)
  have start: "db_bind (upsert_seen_device now m (clean_optional serial)) (\<lambda>(device, known).
      answer_boot env now (Some m) (clean_optional serial) headers connect False (Some device) known) s = (Inl e, t)"
    using assms(4) by (simp add: build_boot_script_def normalized_optional_mac_def assms(2) seen_device_def
        bind_assoc split_def Let_def)
  have "m \<notin> macs t"
  proof (rule upsert_unknown_cases [OF assms(1) can m, of now "clean_optional serial"])
    fix e' assume "upsert_seen_device now m (clean_optional serial) s = (Inl e', s)"
    with start m show ?thesis by simp
  next
    fix d u assume u: "upsert_seen_device now m (clean_optional serial) s = (Inr (d, True), u)" "m \<notin> macs u"
    from keeps_snd [OF answer_boot_macs u(2), of env now "Some m" "clean_optional serial" headers connect False "Some d" True]
    show ?thesis using start u(1) by simp
  next
    fix d u
    assume u: "upsert_seen_device now m (clean_optional serial) s = (Inr (d, False), u)"
      "\<forall>x \<in> set (st_devices u). dev_mac x = m \<longrightarrow> dev_id x = dev_id d \<and> unclaimed x"
    have "store_inv u" using keeps_snd [OF upsert_seen_inv assms(1), of now m "clean_optional serial"] u(1) by simp
    from answer_new_failed [OF this u(2)] start u(1) show ?thesis by simp
  qed
  then show ?thesis by (simp add: macs_def)
qed

definition demo_env :: boot_env where
  "demo_env = \<lparr> be_urlencode = (\<lambda>s. s), be_lowercase = (\<lambda>s. s), be_create_session = (\<lambda>_ _ _ _. None),
     be_launch_json = (\<lambda>_. ''{}''), be_public_base_url = ''http://nest'', be_menu_timeout_ms = 0 \<rparr>"

definition demo_headers :: boot_headers where
  "demo_headers = \<lparr> hdr_x_forwarded_for = Some ''10.0.0.9, 127.0.0.1'', hdr_user_agent = Some ''iPXE/1.21'' \<rparr>"

definition demo_query :: boot_query where
  "demo_query = \<lparr> query_mac = Some ''AA-BB-CC-00-11-22'', query_serial = None, query_tiaris_check = Some ''1'' \<rparr>"

text \<open>A store whose only default is an installer profile that has no managed identity.\<close>

definition demo_installer :: store where
  "demo_installer = (seeded_store ''t0'')
     \<lparr> st_profiles := [demo_profile \<lparr> prof_id := 1, prof_name := ''Install'' \<rparr>] \<rparr>"


theorem checker_request_changes_nothing_witness:
  "is_local_checker_request demo_query demo_headers (Some (V4 127 0 0 1)) \<and>
   snd (boot_root demo_env ''t3'' demo_query demo_headers (Some (V4 127 0 0 1)) demo_assigned) = demo_assigned"
proof -
  have c: "is_local_checker_request demo_query demo_headers (Some (V4 127 0 0 1))" by code_simp
  from checker_request_changes_nothing [OF c] c show ?thesis by blast
qed

theorem one_time_boot_consumed_witness:
  "\<exists>r \<in> set (st_devices demo_assigned). dev_mac r = ''aa:bb:cc:00:11:22'' \<and> dev_one_time_profile_id r = Some 1 \<and>
     (\<exists>script t. build_boot_script demo_env ''t3'' (Some ''AABBCC001122'') None demo_headers None False demo_assigned = (Inr script, t) \<and>
        (\<exists>r' \<in> set (st_devices t). dev_id r' = dev_id r \<and> dev_one_time_profile_id r' = None))"
proof -
  have inv: "store_inv demo_assigned"
    unfolding demo_assigned_def using demo_store_reach by (intro run_call_inv store_sys.reach_inv)
  have n: "normalize_mac ''AABBCC001122'' = Inr ''aa:bb:cc:00:11:22''" by code_simp
  have "list_ex (\<lambda>r. dev_mac r = ''aa:bb:cc:00:11:22'' \<and> dev_one_time_profile_id r = Some 1) (st_devices demo_assigned)"
    by code_simp
  then obtain r where r: "r \<in> set (st_devices demo_assigned)" "dev_mac r = ''aa:bb:cc:00:11:22''"
    "dev_one_time_profile_id r = Some 1" by (auto simp: list_ex_iff)
  have "is_ok (fst (build_boot_script demo_env ''t3'' (Some ''AABBCC001122'') None demo_headers None False demo_assigned))"
    by code_simp
  then obtain script t where
    b: "build_boot_script demo_env ''t3'' (Some ''AABBCC001122'') None demo_headers None False demo_assigned = (Inr script, t)"
    by (cases "build_boot_script demo_env ''t3'' (Some ''AABBCC001122'') None demo_headers None False demo_assigned")
       (auto simp: is_ok_def split: sum.splits)
  from one_time_boot_consumed [OF inv n r b] r b show ?thesis by auto
qed

theorem failed_first_boot_leaves_no_device_witness:
  "store_inv demo_installer \<and>
   (\<exists>e t. build_boot_script demo_env ''t3'' (Some ''AABBCC001122'') None demo_headers None False demo_installer = (Inl e, t) \<and>
      ''aa:bb:cc:00:11:22'' \<notin> dev_mac ` set (st_devices t))"
proof -
  have inv: "store_inv demo_installer" by code_simp
  have n: "normalize_mac ''AABBCC001122'' = Inr ''aa:bb:cc:00:11:22''" by code_simp
  have d: "''aa:bb:cc:00:11:22'' \<notin> dev_mac ` set (st_devices demo_installer)"
    by (simp add: demo_installer_def seeded_store_def)
  have "\<not> is_ok (fst (build_boot_script demo_env ''t3'' (Some ''AABBCC001122'') None demo_headers None False demo_installer))"
    by code_simp
  then obtain e t where
    b: "build_boot_script demo_env ''t3'' (Some ''AABBCC001122'') None demo_headers None False demo_installer = (Inl e, t)"
    by (cases "build_boot_script demo_env ''t3'' (Some ''AABBCC001122'') None demo_headers None False demo_installer")
       (auto simp: is_ok_def split: sum.splits)
  from failed_first_boot_leaves_no_device [OF inv n d b] inv b show ?thesis by blast
qed

end
