(* ===== verification/Nest_State_Files.thy ===== *)
theory Nest_State_Files
  imports Nest_Models
begin

text \<open>
  State records kept as files (\<^verbatim>\<open>src/src/state_files.rs\<close>). A state directory maps the
  names of its entries to what they are; a write is the sequence of directory states
  it passes through, so that an interruption is a prefix of that sequence. The JSON
  encoder and decoder of \<^verbatim>\<open>serde_json\<close> are parameters, as is the random suffix of
  the temporary name. Error texts name the failing call only.
\<close>

datatype dir_entry = RegularFile str | LinkEntry | SubDirectory | OtherEntry

type_synonym entries = "(str \<times> dir_entry) list"

datatype state_dir = DirMissing | NotADirectory | DirOf entries

record envelope =
  env_schema :: str
  env_version :: nat
  env_data :: json

definition state_version :: nat where
  "state_version = 1"

fun put_entry :: "str \<Rightarrow> dir_entry \<Rightarrow> entries \<Rightarrow> entries" where
  "put_entry n e [] = [(n, e)]"
| "put_entry n e ((m, f) # es) = (if m = n then (n, e) # es else (m, f) # put_entry n e es)"

definition drop_entry :: "str \<Rightarrow> entries \<Rightarrow> entries" where
  "drop_entry n es = filter (\<lambda>(m, _). m \<noteq> n) es"

definition ensure_dir :: "state_dir \<Rightarrow> str + entries" where
  "ensure_dir d =
     (case d of
        DirMissing \<Rightarrow> Inr []
      | NotADirectory \<Rightarrow> Inl ''is not a directory''
      | DirOf es \<Rightarrow> Inr es)"

definition valid_name :: "str \<Rightarrow> bool" where
  "valid_name name =
     (1 \<le> length name \<and> length name \<le> 128 \<and> \<not> starts_with name ''.'' \<and>
      list_all (\<lambda>b. is_ascii_alphanumeric b \<or> b \<in> set ''.-_'') name)"

definition record_path :: "str \<Rightarrow> str + str" where
  "record_path name =
     (if \<not> valid_name name then Inl ''state record name is not a plain file name'' else Inr name)"

definition temporary_name :: "str \<Rightarrow> str \<Rightarrow> str" where
  "temporary_name name suffix = ''.'' @ name @ ''.tmp-'' @ suffix"

text \<open>The call of the write sequence that fails, if one does; a failing
  \<^verbatim>\<open>write_all\<close> leaves the bytes written so far.\<close>

datatype write_fault = FailCreate | FailWrite nat | FailSync | FailRename | FailDirSync

text \<open>A directory cannot be replaced by renaming a file over it.\<close>

fun late_fault :: "write_fault option \<Rightarrow> write_fault option" where
  "late_fault None = Some FailRename"
| "late_fault (Some FailDirSync) = Some FailRename"
| "late_fault f = f"

definition write_bytes ::
  "write_fault option \<Rightarrow> str \<Rightarrow> state_dir \<Rightarrow> str \<Rightarrow> str \<Rightarrow> nat \<Rightarrow> state_dir \<times> (str + unit)" where
  "write_bytes fault suffix dir name bytes max_bytes =
     (if max_bytes < length bytes then (dir, Inl ''state record exceeds its bound'')
      else case ensure_dir dir of
        Inl err \<Rightarrow> (dir, Inl err)
      | Inr es \<Rightarrow>
          (case record_path name of
             Inl err \<Rightarrow> (DirOf es, Inl err)
           | Inr path \<Rightarrow>
               let temporary = temporary_name name suffix;
                   created = put_entry temporary (RegularFile []) es;
                   filled = put_entry temporary (RegularFile bytes) es;
                   renamed = put_entry path (RegularFile bytes) (drop_entry temporary filled)
               in if map_of es temporary \<noteq> None then
                    (DirOf (drop_entry temporary es), Inl ''create temporary'')
                  else case (if map_of es path = Some SubDirectory then late_fault fault else fault) of
                    None \<Rightarrow> (DirOf renamed, Inr ())
                  | Some FailCreate \<Rightarrow> (DirOf (drop_entry temporary es), Inl ''create temporary'')
                  | Some (FailWrite k) \<Rightarrow>
                      (DirOf (drop_entry temporary (put_entry temporary (RegularFile (take k bytes)) es)), Inl ''write'')
                  | Some FailSync \<Rightarrow> (DirOf (drop_entry temporary filled), Inl ''sync'')
                  | Some FailRename \<Rightarrow> (DirOf (drop_entry temporary filled), Inl ''replace'')
                  | Some FailDirSync \<Rightarrow> (DirOf (drop_entry temporary renamed), Inl ''sync directory'')))"

text \<open>The directory states an interrupted write can leave behind.\<close>

definition write_states :: "str \<Rightarrow> entries \<Rightarrow> str \<Rightarrow> str \<Rightarrow> entries list" where
  "write_states suffix es name bytes =
     (let temporary = temporary_name name suffix
      in es # map (\<lambda>k. put_entry temporary (RegularFile (take k bytes)) es) [0..<length bytes + 1] @
         [put_entry name (RegularFile bytes)
            (drop_entry temporary (put_entry temporary (RegularFile bytes) es))])"

definition read_bytes :: "state_dir \<Rightarrow> str \<Rightarrow> nat \<Rightarrow> str + str option" where
  "read_bytes dir name max_bytes =
     rbind (record_path name) (\<lambda>path.
       case dir of
         DirMissing \<Rightarrow> Inr None
       | NotADirectory \<Rightarrow> Inl ''open''
       | DirOf es \<Rightarrow>
           (case map_of es path of
              None \<Rightarrow> Inr None
            | Some LinkEntry \<Rightarrow> Inl ''open''
            | Some SubDirectory \<Rightarrow> Inl ''is not a regular file''
            | Some OtherEntry \<Rightarrow> Inl ''is not a regular file''
            | Some (RegularFile bytes) \<Rightarrow>
                (if max_bytes < length bytes then Inl ''exceeds its bound'' else Inr (Some bytes))))"

definition write_record ::
  "(envelope \<Rightarrow> str) \<Rightarrow> ('a \<Rightarrow> json) \<Rightarrow> write_fault option \<Rightarrow> str \<Rightarrow> state_dir \<Rightarrow> str \<Rightarrow> str \<Rightarrow> nat \<Rightarrow> 'a
     \<Rightarrow> state_dir \<times> (str + unit)" where
  "write_record to_vec ser fault suffix dir name schema max_bytes data =
     write_bytes fault suffix dir name
       (to_vec \<lparr> env_schema = schema, env_version = state_version, env_data = ser data \<rparr>) max_bytes"

definition decode_record :: "(str \<Rightarrow> envelope option) \<Rightarrow> (json \<Rightarrow> 'a option) \<Rightarrow> str \<Rightarrow> str \<Rightarrow> str + 'a" where
  "decode_record from_slice de bytes schema =
     rbind (ok_or (from_slice bytes) ''state record is not a JSON envelope'') (\<lambda>envelope.
       if env_schema envelope \<noteq> schema \<or> env_version envelope \<noteq> state_version
       then Inl ''state record has another schema or version''
       else ok_or (de (env_data envelope)) ''state record data'')"

definition read_record ::
  "(str \<Rightarrow> envelope option) \<Rightarrow> (json \<Rightarrow> 'a option) \<Rightarrow> state_dir \<Rightarrow> str \<Rightarrow> str \<Rightarrow> nat \<Rightarrow> 'a option" where
  "read_record from_slice de dir name schema max_bytes =
     (case read_bytes dir name max_bytes of
        Inl _ \<Rightarrow> None
      | Inr None \<Rightarrow> None
      | Inr (Some bytes) \<Rightarrow>
          (case decode_record from_slice de bytes schema of Inl _ \<Rightarrow> None | Inr data \<Rightarrow> Some data))"

definition remove_record :: "state_dir \<Rightarrow> str \<Rightarrow> state_dir \<times> (str + unit)" where
  "remove_record dir name =
     (case record_path name of
        Inl err \<Rightarrow> (dir, Inl err)
      | Inr path \<Rightarrow>
          (case dir of
             DirMissing \<Rightarrow> (dir, Inr ())
           | NotADirectory \<Rightarrow> (dir, Inl ''remove'')
           | DirOf es \<Rightarrow>
               (if map_of es path = Some SubDirectory then (dir, Inl ''remove'')
                else (DirOf (drop_entry path es), Inr ()))))"

text \<open>\<open>age\<close> is the age in seconds of the named entry, when its modification time is readable.\<close>

definition stale_temporary_age :: nat where
  "stale_temporary_age = 10 * 60"

definition is_temporary_name :: "str \<Rightarrow> bool" where
  "is_temporary_name name = (starts_with name ''.'' \<and> contains name ''.tmp-'')"

definition list_records :: "(str \<Rightarrow> nat option) \<Rightarrow> state_dir \<Rightarrow> str \<Rightarrow> nat \<Rightarrow> state_dir \<times> str list" where
  "list_records age dir suffix limit =
     (case dir of
        DirMissing \<Rightarrow> (dir, [])
      | NotADirectory \<Rightarrow> (dir, [])
      | DirOf es \<Rightarrow>
          (let stale = (\<lambda>name. is_temporary_name name \<and>
                          (case age name of None \<Rightarrow> False | Some a \<Rightarrow> stale_temporary_age \<le> a));
               names = filter (\<lambda>name. \<not> is_temporary_name name \<and> valid_name name \<and> ends_with name suffix)
                         (map fst es)
           in (DirOf (filter (\<lambda>(name, _). \<not> stale name) es), take limit (sort names))))"

section \<open>Lookup after the entry operations\<close>

lemma map_of_put_entry [simp]: "map_of (put_entry n e es) m = (if m = n then Some e else map_of es m)"
  by (induction n e es rule: put_entry.induct) auto

lemma map_of_drop_entry [simp]: "map_of (drop_entry n es) m = (if m = n then None else map_of es m)"
  by (induction es) (auto simp: drop_entry_def)

lemma temporary_name_neq: "valid_name name \<Longrightarrow> temporary_name name suffix \<noteq> name"
  by (auto simp: valid_name_def temporary_name_def starts_with_def)

lemma temporary_name_invalid: "\<not> valid_name (temporary_name name suffix)"
  by (simp add: valid_name_def temporary_name_def starts_with_def)

lemma late_fault_Some: "late_fault fault \<noteq> None \<and> late_fault fault \<noteq> Some FailDirSync"
  by (cases fault rule: late_fault.cases) auto

lemma write_bytes_ok:
  assumes "write_bytes fault suffix dir name bytes max_bytes = (dir', Inr ())"
  shows "read_bytes dir' name max_bytes = Inr (Some bytes)"
  using assms temporary_name_neq [of name suffix] late_fault_Some [of fault]
  by (auto simp: write_bytes_def read_bytes_def record_path_def Let_def
      split: if_splits sum.splits option.splits write_fault.splits)

lemma write_bytes_err:
  assumes "write_bytes fault suffix dir name bytes max_bytes = (dir', Inl err)" and "valid_name name"
  shows "read_bytes dir' name n = read_bytes dir name n \<or>
         (fault = Some FailDirSync \<and> read_bytes dir' name n = read_bytes (DirOf [(name, RegularFile bytes)]) name n)"
  using assms temporary_name_neq [of name suffix] late_fault_Some [of fault]
  by (auto simp: write_bytes_def read_bytes_def record_path_def ensure_dir_def Let_def
      split: if_splits sum.splits option.splits write_fault.splits state_dir.splits)

lemma write_states_atomic:
  assumes "valid_name name" and "es' \<in> set (write_states suffix es name bytes)" and "valid_name m"
  shows "map_of es' m = map_of es m \<or> (m = name \<and> map_of es' m = Some (RegularFile bytes))"
  using assms temporary_name_invalid [of name suffix]
  by (auto simp: write_states_def Let_def split: if_splits)

end
