(* ===== verification/Nest_Egress.thy ===== *)
theory Nest_Egress
  imports Nest_Assets Nest_State_Files "HOL-Library.Countable"
begin

text \<open>
  Egress accounting of the binary cache (\<^verbatim>\<open>src/src/cache_egress.rs\<close>) and the file
  routes (\<^verbatim>\<open>src/src/routes/files.rs\<close>). Instants are integers (nanoseconds); the
  RFC 3339 printer of \<^verbatim>\<open>chrono\<close> and the record codec of \<^verbatim>\<open>serde_json\<close> are
  parameters. The counters are atomic: concurrent requests are a sequence of
  \<open>record_egress\<close> steps.
\<close>

section \<open>Counters\<close>

definition egress_record :: str where
  "egress_record = ''cache-egress.json''"

definition egress_schema :: str where
  "egress_schema = ''tiaris.nest.cache-egress''"

definition egress_max_bytes :: nat where
  "egress_max_bytes = 4096"

definition one_day :: int where
  "one_day = 24 * 60 * 60 * 1000000000"

record persisted_totals =
  pt_served_bytes_total :: u64
  pt_served_requests_total :: u64
  pt_missing_requests_total :: u64
  pt_counters_since :: int

record egress_snapshot =
  snap_served_bytes_total :: u64
  snap_served_requests_total :: u64
  snap_missing_requests_total :: u64
  snap_counters_since :: str

record egress_counters =
  served_bytes :: u64
  served_requests :: u64
  missing_requests :: u64
  counters_since :: int
  persisted :: "egress_snapshot option"

datatype egress = Served u64 | Missing | NoEgress

text \<open>The library code the component calls: time printing and the record codec.\<close>

record codec =
  rfc3339 :: "int \<Rightarrow> str"
  to_vec :: "envelope \<Rightarrow> str"
  from_slice :: "str \<Rightarrow> envelope option"
  ser_totals :: "persisted_totals \<Rightarrow> json"
  de_totals :: "json \<Rightarrow> persisted_totals option"

definition starting_at :: "int \<Rightarrow> egress_counters" where
  "starting_at since =
     \<lparr> served_bytes = 0, served_requests = 0, missing_requests = 0, counters_since = since, persisted = None \<rparr>"

definition snapshot :: "codec \<Rightarrow> egress_counters \<Rightarrow> egress_snapshot" where
  "snapshot k c =
     \<lparr> snap_served_bytes_total = served_bytes c, snap_served_requests_total = served_requests c,
       snap_missing_requests_total = missing_requests c, snap_counters_since = rfc3339 k (counters_since c) \<rparr>"

definition read_totals :: "codec \<Rightarrow> state_dir \<Rightarrow> persisted_totals option" where
  "read_totals k data_dir =
     read_record (from_slice k) (de_totals k) data_dir egress_record egress_schema egress_max_bytes"

definition restore_at :: "codec \<Rightarrow> state_dir \<Rightarrow> int \<Rightarrow> egress_counters" where
  "restore_at k data_dir now =
     (case read_totals k data_dir of
        None \<Rightarrow> starting_at now
      | Some totals \<Rightarrow>
          if \<not> pt_counters_since totals \<le> now + one_day then starting_at now
          else (let counters = (starting_at (pt_counters_since totals))
                      \<lparr> served_bytes := pt_served_bytes_total totals,
                        served_requests := pt_served_requests_total totals,
                        missing_requests := pt_missing_requests_total totals \<rparr>
                in counters \<lparr> persisted := Some (snapshot k counters) \<rparr>))"

definition totals_of :: "egress_snapshot \<Rightarrow> int \<Rightarrow> persisted_totals" where
  "totals_of s since =
     \<lparr> pt_served_bytes_total = snap_served_bytes_total s,
       pt_served_requests_total = snap_served_requests_total s,
       pt_missing_requests_total = snap_missing_requests_total s,
       pt_counters_since = since \<rparr>"

definition persisted_snapshot ::
  "codec \<Rightarrow> write_fault option \<Rightarrow> str \<Rightarrow> egress_counters \<Rightarrow> state_dir
     \<Rightarrow> egress_counters \<times> state_dir \<times> egress_snapshot \<times> (str + unit)" where
  "persisted_snapshot k fault suffix c data_dir =
     (let snap = snapshot k c
      in if persisted c = Some snap then (c, data_dir, snap, Inr ())
         else (case write_record (to_vec k) (ser_totals k) fault suffix data_dir egress_record egress_schema
                      egress_max_bytes (totals_of snap (counters_since c)) of
                 (data_dir', Inr _) \<Rightarrow> (c \<lparr> persisted := Some snap \<rparr>, data_dir', snap, Inr ())
               | (data_dir', Inl err) \<Rightarrow> (c, data_dir', snap, Inl err)))"

definition record_served :: "u64 \<Rightarrow> egress_counters \<Rightarrow> egress_counters" where
  "record_served bytes c =
     c \<lparr> served_bytes := sat_add (served_bytes c) bytes, served_requests := sat_add (served_requests c) 1 \<rparr>"

definition record_missing :: "egress_counters \<Rightarrow> egress_counters" where
  "record_missing c = c \<lparr> missing_requests := sat_add (missing_requests c) 1 \<rparr>"

fun record_egress :: "egress \<Rightarrow> egress_counters \<Rightarrow> egress_counters" where
  "record_egress (Served bytes) c = record_served bytes c"
| "record_egress Missing c = record_missing c"
| "record_egress NoEgress c = c"

definition content_length :: "http_response \<Rightarrow> u64" where
  "content_length response =
     (case Option.bind (map_of (resp_headers response) ''content-length'') (\<lambda>value. parse_u64 (trim value)) of
        None \<Rightarrow> 0 | Some n \<Rightarrow> n)"

definition classify_cache_response :: "http_response app_result \<Rightarrow> bool \<Rightarrow> egress" where
  "classify_cache_response result path_valid =
     (case result of
        Inr response \<Rightarrow>
          (if resp_status response = 200 \<or> resp_status response = 206
           then Served (content_length response) else NoEgress)
      | Inl NotFound \<Rightarrow> (if path_valid then Missing else NoEgress)
      | Inl _ \<Rightarrow> NoEgress)"

section \<open>File routes (routes/files.rs)\<close>

definition is_reserved_boot_namespace :: "str \<Rightarrow> bool" where
  "is_reserved_boot_namespace path =
     (hd (split_on CHR ''/'' (trim_start_matches CHR ''/'' path)) \<in> {''netboot'', ''netboot-quarantine''})"

definition boot_file ::
  "(str list \<Rightarrow> str) \<Rightarrow> fs \<Rightarrow> path_component list \<Rightarrow> str \<Rightarrow> str option \<Rightarrow> http_response app_result" where
  "boot_file mime fs boot_assets_dir path range_hdr =
     (if is_reserved_boot_namespace path then Inl NotFound
      else serve_file_from_root mime fs boot_assets_dir path range_hdr)"

definition static_file ::
  "(str list \<Rightarrow> str) \<Rightarrow> fs \<Rightarrow> path_component list \<Rightarrow> str \<Rightarrow> str option \<Rightarrow> http_response app_result" where
  "static_file mime fs static_dir path range_hdr = serve_file_from_root mime fs static_dir path range_hdr"

definition cache_file ::
  "(str list \<Rightarrow> str) \<Rightarrow> fs \<Rightarrow> path_component list \<Rightarrow> egress_counters \<Rightarrow> str \<Rightarrow> str option
     \<Rightarrow> egress_counters \<times> http_response app_result" where
  "cache_file mime fs root_dir c path range_hdr =
     (let path_valid = is_binary_cache_member_path path;
          result = serve_binary_cache_member_from_root mime fs root_dir path range_hdr
      in (record_egress (classify_cache_response result path_valid) c, result))"

section \<open>Runs of requests, reports and restarts\<close>

record egress_state =
  eg_counters :: egress_counters
  eg_dir :: state_dir
  eg_reports :: "egress_snapshot list"

inductive egress_init :: "codec \<Rightarrow> egress_state \<Rightarrow> bool" for k where
  "egress_init k \<lparr> eg_counters = restore_at k dir now, eg_dir = dir, eg_reports = [] \<rparr>"

text \<open>
  A request, a report whose record was written, and a restart at an instant that is
  not more than a day before the epoch of the counters. Reports are newest first.
\<close>

inductive egress_next :: "codec \<Rightarrow> egress_state \<Rightarrow> egress_state \<Rightarrow> bool" for k where
  Request: "egress_next k s (s \<lparr> eg_counters := record_egress e (eg_counters s) \<rparr>)"
| Report: "persisted_snapshot k fault suffix (eg_counters s) (eg_dir s) = (c, dir, snap, Inr ()) \<Longrightarrow>
     egress_next k s \<lparr> eg_counters = c, eg_dir = dir, eg_reports = snap # eg_reports s \<rparr>"
| Restart: "counters_since (eg_counters s) \<le> now + one_day \<Longrightarrow>
     egress_next k s (s \<lparr> eg_counters := restore_at k (eg_dir s) now \<rparr>)"

inductive_cases egress_nextE: "egress_next k s t"

definition snap_le :: "egress_snapshot \<Rightarrow> egress_snapshot \<Rightarrow> bool" where
  "snap_le a b =
     (snap_served_bytes_total a \<le> snap_served_bytes_total b \<and>
      snap_served_requests_total a \<le> snap_served_requests_total b \<and>
      snap_missing_requests_total a \<le> snap_missing_requests_total b \<and>
      snap_counters_since a = snap_counters_since b)"

definition codec_ok :: "codec \<Rightarrow> bool" where
  "codec_ok k =
     (\<forall>t. de_totals k (ser_totals k t) = Some t \<and>
          from_slice k (to_vec k \<lparr> env_schema = egress_schema, env_version = state_version, env_data = ser_totals k t \<rparr>)
            = Some \<lparr> env_schema = egress_schema, env_version = state_version, env_data = ser_totals k t \<rparr>)"

definition egress_inv :: "codec \<Rightarrow> egress_state \<Rightarrow> bool" where
  "egress_inv k s =
     (let c = eg_counters s; snap = snapshot k c
      in sorted_wrt (\<lambda>later earlier. snap_le earlier later) (snap # eg_reports s) \<and>
         (eg_reports s \<noteq> [] \<longrightarrow>
            read_totals k (eg_dir s) = Some (totals_of (hd (eg_reports s)) (counters_since c))) \<and>
         (\<forall>p. persisted c = Some p \<longrightarrow>
            snap_counters_since p = rfc3339 k (counters_since c) \<and>
            read_totals k (eg_dir s) = Some (totals_of p (counters_since c))))"

lemma snap_le_refl [simp]: "snap_le a a"
  by (simp add: snap_le_def)

lemma snap_le_trans: "snap_le a b \<Longrightarrow> snap_le b c \<Longrightarrow> snap_le a c"
  by (auto simp: snap_le_def)

lemma record_egress_le: "snap_le (snapshot k c) (snapshot k (record_egress e c))"
  by (cases e) (auto simp: snap_le_def snapshot_def record_served_def record_missing_def sat_add_ge)

lemma record_egress_frame [simp]:
  "counters_since (record_egress e c) = counters_since c" "persisted (record_egress e c) = persisted c"
  by (cases e; simp add: record_served_def record_missing_def)+

lemma snapshot_persisted [simp]: "snapshot k (c \<lparr> persisted := p \<rparr>) = snapshot k c"
  by (simp add: snapshot_def)

lemma persisted_update_same: "persisted c = p \<Longrightarrow> c \<lparr> persisted := p \<rparr> = c"
  by (cases c) simp

lemma valid_egress_record: "valid_name egress_record"
  by (simp add: valid_name_def egress_record_def starts_with_def is_ascii_alphanumeric_def
      is_ascii_alphabetic_def is_ascii_upper_def is_ascii_lower_def is_ascii_digit_def code_def)

lemma decode_written:
  assumes "codec_ok k"
  shows "decode_record (from_slice k) (de_totals k)
           (to_vec k \<lparr> env_schema = egress_schema, env_version = state_version, env_data = ser_totals k t \<rparr>)
           egress_schema = Inr t"
  using assms by (simp add: codec_ok_def decode_record_def ok_or_def)

lemma read_after_write:
  assumes "codec_ok k"
    and "write_record (to_vec k) (ser_totals k) fault suffix dir egress_record egress_schema egress_max_bytes t
           = (dir', Inr ())"
  shows "read_totals k dir' = Some t"
proof -
  have "read_bytes dir' egress_record egress_max_bytes = Inr (Some
          (to_vec k \<lparr> env_schema = egress_schema, env_version = state_version, env_data = ser_totals k t \<rparr>))"
    using assms(2) unfolding write_record_def by (rule write_bytes_ok)
  then show ?thesis
    by (simp add: read_totals_def read_record_def decode_written [OF assms(1)])
qed

lemma persisted_snapshot_ok:
  assumes "codec_ok k" and "persisted_snapshot k fault suffix c dir = (c', dir', snap, Inr ())"
    and "\<And>p. persisted c = Some p \<Longrightarrow> read_totals k dir = Some (totals_of p (counters_since c))"
  shows "snap = snapshot k c \<and> c' = c \<lparr> persisted := Some snap \<rparr> \<and>
         read_totals k dir' = Some (totals_of snap (counters_since c))"
proof (cases "persisted c = Some (snapshot k c)")
  case True
  then have "persisted_snapshot k fault suffix c dir = (c, dir, snapshot k c, Inr ())"
    by (simp add: persisted_snapshot_def Let_def)
  with assms(2) have "c' = c" "dir' = dir" "snap = snapshot k c" by auto
  with assms(3) [OF True] persisted_update_same [OF True] show ?thesis by simp
next
  case False
  obtain d r where w: "write_record (to_vec k) (ser_totals k) fault suffix dir egress_record egress_schema
      egress_max_bytes (totals_of (snapshot k c) (counters_since c)) = (d, r)"
    by (rule prod.exhaust)
  with False have p: "persisted_snapshot k fault suffix c dir =
      (case r of Inr _ \<Rightarrow> (c \<lparr> persisted := Some (snapshot k c) \<rparr>, d, snapshot k c, Inr ())
       | Inl err \<Rightarrow> (c, d, snapshot k c, Inl err))"
    by (cases r) (simp_all add: persisted_snapshot_def Let_def)
  with assms(2) have r: "r = Inr ()" by (cases r) simp_all
  with p assms(2) have "snap = snapshot k c" "c' = c \<lparr> persisted := Some (snapshot k c) \<rparr>" "dir' = d"
    by simp_all
  with read_after_write [OF assms(1) w [unfolded r]] show ?thesis by simp
qed

lemma egress_inv_request: "egress_inv k s \<Longrightarrow> egress_inv k (s \<lparr> eg_counters := record_egress e (eg_counters s) \<rparr>)"
  using record_egress_le [of k "eg_counters s" e]
  by (auto simp: egress_inv_def Let_def intro: snap_le_trans)

lemma egress_inv_report:
  assumes "codec_ok k" and inv: "egress_inv k s"
    and "persisted_snapshot k fault suffix (eg_counters s) (eg_dir s) = (c, dir, snap, Inr ())"
  shows "egress_inv k \<lparr> eg_counters = c, eg_dir = dir, eg_reports = snap # eg_reports s \<rparr>"
proof -
  have "read_totals k (eg_dir s) = Some (totals_of p (counters_since (eg_counters s)))"
    if "persisted (eg_counters s) = Some p" for p
    using inv that by (simp add: egress_inv_def Let_def)
  from persisted_snapshot_ok [OF assms(1,3) this]
  have "snap = snapshot k (eg_counters s)" "c = (eg_counters s) \<lparr> persisted := Some snap \<rparr>"
    "read_totals k dir = Some (totals_of snap (counters_since (eg_counters s)))" by auto
  with inv show ?thesis
    by (auto simp: egress_inv_def Let_def snapshot_def [of k "eg_counters s"])
qed

lemma restore_at_cases:
  obtains (fresh) "restore_at k dir now = starting_at now"
      "\<And>t. read_totals k dir = Some t \<Longrightarrow> now + one_day < pt_counters_since t"
  | (resume) t where "read_totals k dir = Some t" "pt_counters_since t \<le> now + one_day"
      "counters_since (restore_at k dir now) = pt_counters_since t"
      "persisted (restore_at k dir now) = Some (snapshot k (restore_at k dir now))"
      "totals_of (snapshot k (restore_at k dir now)) (pt_counters_since t) = t"
proof (cases "read_totals k dir")
  case None
  then show thesis by (intro fresh) (simp_all add: restore_at_def)
next
  case (Some t)
  show thesis
  proof (cases "pt_counters_since t \<le> now + one_day")
    case True
    with Some show thesis
      by (intro resume) (auto simp: restore_at_def Let_def starting_at_def snapshot_def totals_of_def)
  next
    case False
    with Some show thesis by (intro fresh) (simp_all add: restore_at_def)
  qed
qed

lemma egress_inv_init: "egress_init k s \<Longrightarrow> egress_inv k s"
proof (induction rule: egress_init.induct)
  case (1 dir now)
  show ?case
    by (rule restore_at_cases [of k dir now])
       (auto simp: egress_inv_def Let_def starting_at_def snapshot_def)
qed

lemma totals_of_inject:
  "totals_of a n = totals_of b n \<Longrightarrow> snap_counters_since a = snap_counters_since b \<Longrightarrow> a = b"
  by (simp add: totals_of_def)

lemma egress_inv_restart:
  assumes inv: "egress_inv k s" and clock: "counters_since (eg_counters s) \<le> now + one_day"
  shows "egress_inv k (s \<lparr> eg_counters := restore_at k (eg_dir s) now \<rparr>)"
proof (cases "eg_reports s")
  case Nil
  show ?thesis
    by (rule restore_at_cases [of k "eg_dir s" now])
       (auto simp: egress_inv_def Let_def Nil starting_at_def snapshot_def)
next
  case (Cons r rs)
  let ?c = "eg_counters s" and ?c' = "restore_at k (eg_dir s) now"
  have read: "read_totals k (eg_dir s) = Some (totals_of r (counters_since ?c))"
    and since: "snap_counters_since r = rfc3339 k (counters_since ?c)"
    and sorted: "sorted_wrt (\<lambda>later earlier. snap_le earlier later) (r # rs)"
    using inv Cons by (auto simp: egress_inv_def Let_def snap_le_def snapshot_def)
  show ?thesis
  proof (rule restore_at_cases [of k "eg_dir s" now])
    assume "\<And>t. read_totals k (eg_dir s) = Some t \<Longrightarrow> now + one_day < pt_counters_since t"
    from this [OF read] clock show ?thesis by (simp add: totals_of_def)
  next
    fix t
    assume t: "read_totals k (eg_dir s) = Some t" "counters_since ?c' = pt_counters_since t"
      "persisted ?c' = Some (snapshot k ?c')" "totals_of (snapshot k ?c') (pt_counters_since t) = t"
    have n: "pt_counters_since t = counters_since ?c" using t(1) read by (auto simp: totals_of_def)
    have r: "snapshot k ?c' = r"
      using t read n since by (intro totals_of_inject [of _ "counters_since ?c"]) (simp_all add: snapshot_def)
    show ?thesis
      using t(2,3) n read since sorted Cons by (simp add: egress_inv_def Let_def r)
  qed
qed

lemma egress_inv_next: "codec_ok k \<Longrightarrow> egress_inv k s \<Longrightarrow> egress_next k s t \<Longrightarrow> egress_inv k t"
  by (erule egress_nextE) (auto intro: egress_inv_request egress_inv_report egress_inv_restart)

interpretation egress_sys: invariant_system "egress_init k" "egress_next k" "\<lambda>s. codec_ok k \<longrightarrow> egress_inv k s" for k
  by unfold_locales (auto intro: egress_inv_init egress_inv_next)

section \<open>What the routes serve and count\<close>

lemma trim_space:
  assumes "\<not> is_cont (hd s)"
  shows "trim (CHR '' '' # s) = trim s"
proof -
  have "takeWhile is_cont s = []" and "dropWhile is_cont s = s" using assms by (cases s; simp)+
  then have "utf8_chars (CHR '' '' # s) = '' '' # utf8_chars s" by simp
  moreover have "is_whitespace '' ''" by (simp add: is_whitespace_def code_def)
  ultimately show ?thesis by (simp add: trim_def)
qed

lemma hd_split_on_Cons: "x \<noteq> c \<Longrightarrow> \<exists>p. hd (split_on c (x # s)) = x # p"
  by (auto split: list.splits)

lemma sanitize_head:
  assumes "sanitize_relative_path path = Inr parts" and "trim path = path"
  shows "hd parts = hd (split_on CHR ''/'' (trim_start_matches CHR ''/'' path))"
proof -
  from assms have ns: "\<not> starts_with path ''/''" and dot: "hd (split_on CHR ''/'' path) \<noteq> ''.''"
    and parts: "parts = filter kept_segment (split_on CHR ''/'' path)" "parts \<noteq> []"
    by (auto simp: sanitize_relative_path_eq_Inr)
  from parts have "path \<noteq> []" by (auto simp: kept_segment_def)
  then obtain x xs where path: "path = x # xs" "x \<noteq> CHR ''/''"
    using ns by (cases path) (auto simp: starts_with_def)
  obtain p where p: "hd (split_on CHR ''/'' path) = x # p"
    using hd_split_on_Cons path by blast
  then have "kept_segment (hd (split_on CHR ''/'' path))" using dot by (simp add: kept_segment_def)
  then have "hd parts = hd (split_on CHR ''/'' path)"
    unfolding parts by (cases "split_on CHR ''/'' path") auto
  moreover have "trim_start_matches CHR ''/'' path = path"
    using path by (simp add: trim_start_matches_def)
  ultimately show ?thesis by simp
qed

lemma content_length_header:
  "map_of (resp_headers resp) ''content-length'' = Some (nat_to_str (unat n)) \<Longrightarrow> content_length resp = n"
  by (simp add: content_length_def)

lemma map_of_insert_header:
  assumes "name \<noteq> other"
  shows "map_of (resp_headers (insert_header name v r)) other = map_of (resp_headers r) other"
proof -
  have "map_of (filter (\<lambda>(n, _). n \<noteq> name) hs @ [(name, v)]) other = map_of hs other" for hs
    using assms by (induction hs) auto
  then show ?thesis by (simp add: insert_header_def)
qed

definition files_fit :: "fs \<Rightarrow> bool" where
  "files_fit fs = (\<forall>p content. fs p = Some (FileNode content) \<longrightarrow> length content < 2 ^ 64)"

lemma served_content_length:
  assumes "serve_binary_cache_member_from_root mime fs root path r = Inr resp" and "files_fit fs"
  shows "(resp_status resp = 200 \<or> resp_status resp = 206) \<and>
           content_length resp = of_nat (length (resp_body resp)) \<and> length (resp_body resp) < 2 ^ 64 \<or>
         resp_status resp = 416"
proof -
  obtain resp0 where resp0: "serve_file_from_root mime fs root path r = Inr resp0"
    and resp: "resp = insert_header ''cache-control'' (binary_cache_member_cache_control path) resp0"
    using assms(1) by (auto simp: serve_binary_cache_member_from_root_def result_simps split: if_splits)
  obtain ct content where content: "length content < 2 ^ 64" "resp0 = range_response ct r content"
    using serve_file_from_root_ok [OF resp0] assms(2) unfolding files_fit_def by metis
  have hdr: "map_of (resp_headers resp) ''content-length'' = map_of (resp_headers resp0) ''content-length''"
    unfolding resp by (rule map_of_insert_header) simp
  have st: "resp_status resp = resp_status resp0" "resp_body resp = resp_body resp0"
    by (simp_all add: resp insert_header_def)
  have len: "content_length resp = of_nat n"
    if "map_of (resp_headers resp0) ''content-length'' = Some (nat_to_str n)" "n < 2 ^ 64" for n
    using that by (intro content_length_header) (simp add: hdr unat_of_nat_small)
  have body: "length (take n (drop k content)) = n" if "k + n \<le> length content" for k n
    using that by simp
  show ?thesis
  proof (rule range_response_cases [OF content(1), of ct r, folded content(2)])
    fix start n
    assume a: "resp_status resp0 = 206" "start + n \<le> length content" "resp_body resp0 = take n (drop start content)"
      "map_of (resp_headers resp0) ''content-length'' = Some (nat_to_str n)"
    have n: "n < 2 ^ 64" using a(2) content(1) by linarith
    show ?thesis using a(1) len [OF a(4) n] n unfolding st a(3) body [OF a(2)] by blast
  next
    assume a: "resp_status resp0 = 200" "resp_body resp0 = content"
      "map_of (resp_headers resp0) ''content-length'' = Some (nat_to_str (length content))"
    show ?thesis using a(1) len [OF a(3) content(1)] content(1) unfolding st a(2) by blast
  qed (simp add: st)
qed

section \<open>A concrete appliance\<close>

text \<open>A small file system, and a record codec that numbers the totals.\<close>

definition demo_fs :: fs where
  "demo_fs p =
     (if p = [''srv''] then Some DirNode
      else if p = [''srv'', ''nix-cache-info''] then Some (FileNode ''StoreDir'') else None)"

definition demo_codec :: codec where
  "demo_codec =
     \<lparr> rfc3339 = int_to_str,
       to_vec = (\<lambda>e. case env_data e of JNum n \<Rightarrow> nat_to_str (nat n) | _ \<Rightarrow> []),
       from_slice = (\<lambda>s. Some \<lparr> env_schema = egress_schema, env_version = state_version,
                                 env_data = JNum (int (digits_value s)) \<rparr>),
       ser_totals = (\<lambda>t. JNum (int (prod_encode (unat (pt_served_bytes_total t),
                       prod_encode (unat (pt_served_requests_total t),
                         prod_encode (unat (pt_missing_requests_total t), int_encode (pt_counters_since t))))))),
       de_totals = (\<lambda>j. case j of
           JNum n \<Rightarrow>
             (let (a, x) = prod_decode (nat n); (b, y) = prod_decode x; (c, z) = prod_decode y
              in Some \<lparr> pt_served_bytes_total = of_nat a, pt_served_requests_total = of_nat b,
                        pt_missing_requests_total = of_nat c, pt_counters_since = int_decode z \<rparr>)
         | _ \<Rightarrow> None) \<rparr>"

lemma demo_codec_ok: "codec_ok demo_codec"
  by (simp add: codec_ok_def demo_codec_def)

lemma demo_fs_fit: "files_fit demo_fs"
  by (simp add: files_fit_def demo_fs_def)

definition demo_counters :: egress_counters where
  "demo_counters = starting_at 0"

lemma demo_cache_file:
  "cache_file (\<lambda>_. ''text/plain'') demo_fs [RootDir, Normal ''srv''] demo_counters ''nix-cache-info'' None =
     (record_served 8 demo_counters,
      Inr \<lparr> resp_status = 200,
            resp_headers = [(''content-type'', ''text/plain''), (''accept-ranges'', ''bytes''),
                            (''content-length'', ''8''), (''cache-control'', ''public, max-age=60'')],
            resp_body = ''StoreDir'' \<rparr>)"
  by code_simp

lemma demo_boot_file:
  "is_ok (boot_file (\<lambda>_. ''text/plain'') demo_fs [RootDir, Normal ''srv''] ''nix-cache-info'' None)"
  by code_simp

lemma byte_51: "byte 51 = CHR ''3''"
  by code_simp

lemma demo_report:
  "persisted_snapshot demo_codec None ''00'' (record_served 5 demo_counters) DirMissing =
     ((record_served 5 demo_counters) \<lparr> persisted := Some (snapshot demo_codec (record_served 5 demo_counters)) \<rparr>,
      DirOf [(egress_record, RegularFile ''33'')], snapshot demo_codec (record_served 5 demo_counters), Inr ())"
  by (simp add: persisted_snapshot_def write_record_def write_bytes_def record_path_def valid_egress_record
      ensure_dir_def totals_of_def snapshot_def demo_codec_def demo_counters_def starting_at_def record_served_def
      sat_add_def prod_encode_def triangle_def int_encode_def sum_encode_def nat_to_str.simps byte_51
      egress_max_bytes_def drop_entry_def temporary_name_def valid_egress_record [unfolded egress_record_def]
      egress_record_def Let_def)

definition demo_restarted :: egress_state where
  "demo_restarted =
     \<lparr> eg_counters = restore_at demo_codec (DirOf [(egress_record, RegularFile ''33'')]) 7,
       eg_dir = DirOf [(egress_record, RegularFile ''33'')],
       eg_reports = [snapshot demo_codec (record_served 5 demo_counters)] \<rparr>"

lemma demo_restarted_reach: "reach (egress_init demo_codec) (egress_next demo_codec) demo_restarted"
proof -
  let ?s0 = "\<lparr> eg_counters = demo_counters, eg_dir = DirMissing, eg_reports = [] \<rparr>"
  have "restore_at demo_codec DirMissing 0 = demo_counters"
    by (simp add: restore_at_def read_totals_def read_record_def read_bytes_def record_path_def
        valid_egress_record demo_counters_def)
  then have "reach (egress_init demo_codec) (egress_next demo_codec) ?s0"
    using egress_init.intros [of demo_codec DirMissing 0] by (auto intro: reach_init)
  from reach_step [OF this egress_next.Request [of _ _ "Served 5"]]
  have "reach (egress_init demo_codec) (egress_next demo_codec) (?s0 \<lparr> eg_counters := record_served 5 demo_counters \<rparr>)"
    by simp
  from reach_step [OF this egress_next.Report [of demo_codec None "''00''"]] demo_report
  have "reach (egress_init demo_codec) (egress_next demo_codec)
    \<lparr> eg_counters = (record_served 5 demo_counters) \<lparr> persisted := Some (snapshot demo_codec (record_served 5 demo_counters)) \<rparr>,
      eg_dir = DirOf [(egress_record, RegularFile ''33'')],
      eg_reports = [snapshot demo_codec (record_served 5 demo_counters)] \<rparr>" by simp
  from reach_step [OF this egress_next.Restart [of _ 7]]
  show ?thesis by (simp add: demo_restarted_def demo_counters_def starting_at_def record_served_def one_day_def)
qed

text \<open>C2: a report never shows less than an earlier one, across requests and restarts:
  in every reachable history of requests, reports whose record was written and restarts
  (at instants not more than a day before the epoch of the counters), the reported
  totals only grow and keep their epoch.\<close>

theorem egress_reports_monotone:
  assumes "codec_ok k" and "reach (egress_init k) (egress_next k) s"
  shows "sorted_wrt (\<lambda>later earlier. snap_le earlier later) (eg_reports s)"
  using egress_sys.reach_inv [OF assms(2)] assms(1) by (simp add: egress_inv_def Let_def)

theorem egress_reports_monotone_witness:
  "\<exists>s. codec_ok demo_codec \<and> reach (egress_init demo_codec) (egress_next demo_codec) s \<and>
       eg_reports s \<noteq> [] \<and> sorted_wrt (\<lambda>later earlier. snap_le earlier later) (eg_reports s)"
  using egress_reports_monotone [OF demo_codec_ok demo_restarted_reach] demo_codec_ok demo_restarted_reach
  by (intro exI [of _ demo_restarted]) (simp add: demo_restarted_def)

text \<open>C36: the cache route counts a served response with exactly its body length,
  saturating at the 64-bit maximum, and leaves the counters alone for an unsatisfiable
  range; a miss is counted only for a well-formed binary-cache name.\<close>

theorem cache_file_accounting:
  assumes "files_fit fs" and "cache_file mime fs root c path r = (c', result)"
  shows "case result of
           Inr resp \<Rightarrow>
             if resp_status resp = 416 then c' = c
             else unat (served_bytes c') = min (unat (served_bytes c) + length (resp_body resp)) (2 ^ 64 - 1) \<and>
                  served_requests c' = sat_add (served_requests c) 1 \<and> missing_requests c' = missing_requests c
         | Inl err \<Rightarrow>
             if err = NotFound \<and> is_binary_cache_member_path path
             then c' = c \<lparr> missing_requests := sat_add (missing_requests c) 1 \<rparr> else c' = c"
proof (cases result)
  case (Inl err)
  then show ?thesis
    using assms(2) by (cases err)
      (auto simp: cache_file_def Let_def classify_cache_response_def record_missing_def)
next
  case (Inr resp)
  with assms(2) have ok: "serve_binary_cache_member_from_root mime fs root path r = Inr resp"
    and c': "c' = record_egress (classify_cache_response (Inr resp) (is_binary_cache_member_path path)) c"
    by (auto simp: cache_file_def Let_def)
  from served_content_length [OF ok assms(1)] show ?thesis
    by (auto simp: c' Inr classify_cache_response_def record_served_def unat_sat_add unat_of_nat_small)
qed

theorem cache_file_accounting_witness:
  "files_fit demo_fs \<and>
   (\<exists>c' resp. cache_file (\<lambda>_. ''text/plain'') demo_fs [RootDir, Normal ''srv''] demo_counters ''nix-cache-info'' None
       = (c', Inr resp) \<and> resp_body resp = ''StoreDir'' \<and> unat (served_bytes c') = 8)"
  using cache_file_accounting [OF demo_fs_fit demo_cache_file] demo_fs_fit demo_cache_file
  by (auto simp: demo_counters_def starting_at_def)

text \<open>A path that carries no surrounding white space and is not in the reserved
  namespaces is never served from the netboot trees.\<close>

theorem boot_file_respects_namespace:
  assumes "trim path = path" and "boot_file mime fs root path r = Inr resp"
  shows "\<exists>parts base content. sanitize_relative_path path = Inr parts \<and>
           hd parts \<notin> {''netboot'', ''netboot-quarantine''} \<and> fs_canonicalize fs root = Inr base \<and>
           fs (base @ parts) = Some (FileNode content)"
proof -
  from assms(2) have nr: "\<not> is_reserved_boot_namespace path"
    and ok: "serve_file_from_root mime fs root path r = Inr resp"
    by (auto simp: boot_file_def split: if_splits)
  show ?thesis
  proof (rule serve_file_from_root_ok [OF ok])
    fix parts base content
    assume a: "sanitize_relative_path path = Inr parts" "fs_canonicalize fs root = Inr base"
      "fs (base @ parts) = Some (FileNode content)"
    have "hd parts \<notin> {''netboot'', ''netboot-quarantine''}"
      using nr sanitize_head [OF a(1) assms(1)] by (simp add: is_reserved_boot_namespace_def)
    with a show ?thesis by blast
  qed
qed

theorem boot_file_respects_namespace_witness:
  "\<exists>parts base content.
     trim ''nix-cache-info'' = ''nix-cache-info'' \<and>
     is_ok (boot_file (\<lambda>_. ''text/plain'') demo_fs [RootDir, Normal ''srv''] ''nix-cache-info'' None) \<and>
     sanitize_relative_path ''nix-cache-info'' = Inr parts \<and>
     hd parts \<notin> {''netboot'', ''netboot-quarantine''} \<and>
     fs_canonicalize demo_fs [RootDir, Normal ''srv''] = Inr base \<and> demo_fs (base @ parts) = Some (FileNode content)"
proof -
  have t: "trim ''nix-cache-info'' = ''nix-cache-info''" by code_simp
  obtain resp where ok: "boot_file (\<lambda>_. ''text/plain'') demo_fs [RootDir, Normal ''srv''] ''nix-cache-info'' None = Inr resp"
    using demo_boot_file unfolding is_ok_iff by (elim exE)
  from boot_file_respects_namespace [OF t ok] obtain parts base content where
    "sanitize_relative_path ''nix-cache-info'' = Inr parts" "hd parts \<notin> {''netboot'', ''netboot-quarantine''}"
    "fs_canonicalize demo_fs [RootDir, Normal ''srv''] = Inr base" "demo_fs (base @ parts) = Some (FileNode content)"
    by (elim exE conjE)
  with t demo_boot_file show ?thesis
    by (intro exI [of _ parts] exI [of _ base] exI [of _ content] conjI)
qed

text \<open>A leading space defeats the namespace check: the check looks at the raw path, the
  file server at the trimmed one, so every file of the netboot tree is served.\<close>

theorem boot_file_leading_space:
  "boot_file mime fs root ('' netboot/'' @ rest) r = serve_file_from_root mime fs root (''netboot/'' @ rest) r"
proof -
  have "trim ('' netboot/'' @ rest) = trim (''netboot/'' @ rest)"
    using trim_space [of "''netboot/'' @ rest"] by (simp add: is_cont_def code_def)
  then have "sanitize_relative_path ('' netboot/'' @ rest) = sanitize_relative_path (''netboot/'' @ rest)"
    by (simp add: sanitize_relative_path_def)
  moreover have "\<not> is_reserved_boot_namespace ('' netboot/'' @ rest)"
    by (simp add: is_reserved_boot_namespace_def trim_start_matches_def split: list.splits)
  ultimately show ?thesis by (simp add: boot_file_def serve_file_from_root_def)
qed

end
