(* ===== verification/Nest_Redact.thy ===== *)
theory Nest_Redact
  imports Nest_Assets
begin

text \<open>
  Redaction of secrets in text (\<^verbatim>\<open>src/src/redact.rs\<close>) and the modular password hash scanner it
  uses (\<^verbatim>\<open>src/src/protected_material.rs\<close>). A position is a byte index; the loops of the code run
  over the rest of the text, and their termination is proved from the progress each match makes.
\<close>

section \<open>Searching\<close>

fun find_str :: "str \<Rightarrow> str \<Rightarrow> nat option" where
  "find_str [] p = (if p = [] then Some 0 else None)"
| "find_str (c # cs) p = (if starts_with (c # cs) p then Some 0 else map_option Suc (find_str cs p))"

definition rfind_char :: "char \<Rightarrow> str \<Rightarrow> nat option" where
  "rfind_char c s = (if c \<in> set s then Some (length s - 1 - length (takeWhile (\<lambda>x. x \<noteq> c) (rev s))) else None)"

text \<open>The length of the text before the first scalar value that satisfies the predicate.\<close>

definition find_char_or_end :: "(str \<Rightarrow> bool) \<Rightarrow> str \<Rightarrow> nat" where
  "find_char_or_end p s = length (concat (takeWhile (\<lambda>ch. \<not> p ch) (utf8_chars s)))"

definition positions :: "char \<Rightarrow> str \<Rightarrow> nat list" where
  "positions c s = filter (\<lambda>i. s ! i = c) [0..<length s]"

definition is_ascii_whitespace :: "char \<Rightarrow> bool" where
  "is_ascii_whitespace c = (code c \<in> {9, 10, 12, 13, 32})"

section \<open>Modular password hashes\<close>

definition modular_password_hash_prefixes :: "str list" where
  "modular_password_hash_prefixes =
     [''$1$'', ''$2a$'', ''$2b$'', ''$2x$'', ''$2y$'', ''$5$'', ''$6$'', ''$7$'', ''$y$'', ''$gy$'', ''$argon2d$'',
      ''$argon2i$'', ''$argon2id$'']"

text \<open>\<^verbatim>\<open>min_by_key\<close>: the first of the smallest.\<close>

fun min_by_fst :: "(nat \<times> nat) list \<Rightarrow> (nat \<times> nat) option" where
  "min_by_fst [] = None"
| "min_by_fst (x # xs) =
     (case min_by_fst xs of None \<Rightarrow> Some x | Some y \<Rightarrow> if fst y < fst x then Some y else Some x)"

definition hash_char :: "str \<Rightarrow> bool" where
  "hash_char ch = (case ch of [c] \<Rightarrow> is_ascii_alphanumeric c \<or> c \<in> set ''$./+=,-'' | _ \<Rightarrow> False)"

definition next_modular_password_hash :: "str \<Rightarrow> (nat \<times> nat) option" where
  "next_modular_password_hash text =
     (let lower = to_ascii_lowercase text
      in Option.bind (min_by_fst (List.map_filter (\<lambda>prefix. map_option (\<lambda>start. (start, length prefix)) (find_str lower prefix))
                        modular_password_hash_prefixes))
           (\<lambda>(start, prefix_len).
              let value_start = start + prefix_len
              in Some (start, value_start + find_char_or_end (\<lambda>ch. \<not> hash_char ch) (drop value_start text))))"

definition contains_modular_password_hash :: "str \<Rightarrow> bool" where
  "contains_modular_password_hash text = (next_modular_password_hash text \<noteq> None)"

section \<open>Keys and values\<close>

definition redaction :: str where "redaction = ''[REDACTED]''"

definition is_quote :: "char \<Rightarrow> bool" where
  "is_quote c = (c = CHR 0x27 \<or> c = CHR 0x22)"

definition strip_ascii_ws_end :: "str \<Rightarrow> str" where
  "strip_ascii_ws_end s = rev (dropWhile is_ascii_whitespace (rev s))"

definition assignment_key :: "str \<Rightarrow> nat \<Rightarrow> str option" where
  "assignment_key text equals =
     (let head_part = strip_ascii_ws_end (take equals text)
      in if head_part \<noteq> [] \<and> is_quote (last head_part) then
           (let quote = last head_part; body = butlast head_part
            in Option.bind (rfind_char quote body) (\<lambda>start.
                 if start + 1 < length body then Some (drop (start + 1) body) else None))
         else
           (let key = rev (takeWhile (\<lambda>c. is_ascii_alphanumeric c \<or> c \<in> set ''_-'') (rev head_part))
            in if key = [] then None else Some key))"

definition sensitive_assignment_key :: "str \<Rightarrow> bool" where
  "sensitive_assignment_key value =
     (let canonical = map to_ascii_lower (filter is_ascii_alphanumeric value)
      in list_ex (\<lambda>part. canonical = part \<or> ends_with canonical part)
           [''password'', ''passwd'', ''secret'', ''secretkey'', ''token'', ''apikey'', ''privatekey'', ''authorization'',
            ''credential'', ''credentials''] \<or>
         list_ex (\<lambda>part. contains canonical part)
           [''password'', ''passwd'', ''secret'', ''token'', ''apikey'', ''privatekey'', ''credential''] \<and>
         list_ex (\<lambda>suffix. ends_with canonical suffix) [''file'', ''path'', ''ref'', ''reference''])"

text \<open>The length of a quoted value after its opening quote, up to and with the closing one.\<close>

fun quoted_len :: "str \<Rightarrow> bool \<Rightarrow> str list \<Rightarrow> nat option" where
  "quoted_len quote escaped [] = None"
| "quoted_len quote escaped (ch # chs) =
     (if escaped then map_option ((+) (length ch)) (quoted_len quote False chs)
      else if ch = [CHR 0x5C] then map_option ((+) (length ch)) (quoted_len quote True chs)
      else if ch = quote then Some (length ch)
      else map_option ((+) (length ch)) (quoted_len quote False chs))"

definition value_stop :: "str \<Rightarrow> bool" where
  "value_stop ch = (is_whitespace ch \<or> ch \<in> {''&'', '';'', '',''})"

definition sensitive_value_end :: "str \<Rightarrow> nat \<Rightarrow> nat" where
  "sensitive_value_end text start =
     (case utf8_chars (drop start text) of
        [] \<Rightarrow> start
      | first # rest \<Rightarrow>
          (if first = [CHR 0x27] \<or> first = [CHR 0x22] then
             (case quoted_len first False rest of
                Some n \<Rightarrow> start + length first + n
              | None \<Rightarrow> length text)
           else start + find_char_or_end value_stop (drop start text)))"

definition skip_ascii_ws :: "str \<Rightarrow> nat \<Rightarrow> nat" where
  "skip_ascii_ws text i = i + length (takeWhile is_ascii_whitespace (drop i text))"

text \<open>The value after a separator at position \<open>i\<close>, when its key is sensitive.\<close>

definition sensitive_value :: "str \<Rightarrow> nat \<Rightarrow> (nat \<times> nat) option" where
  "sensitive_value text i =
     (case assignment_key text i of
        None \<Rightarrow> None
      | Some key \<Rightarrow>
          (if \<not> sensitive_assignment_key key then None
           else let value_start = skip_ascii_ws text (i + 1)
                in if value_start = length text then None
                   else let value_end = sensitive_value_end text value_start
                        in if value_start < value_end then Some (value_start, value_end) else None))"

definition next_sensitive_assignment :: "str \<Rightarrow> (nat \<times> nat) option" where
  "next_sensitive_assignment text =
     find_map (\<lambda>equals.
       if 0 < equals \<and> text ! (equals - 1) = CHR ''='' \<or> equals + 1 < length text \<and> text ! (equals + 1) = CHR ''=''
       then None else sensitive_value text equals) (positions CHR ''='' text)"

definition next_sensitive_quoted_key_value :: "str \<Rightarrow> (nat \<times> nat) option" where
  "next_sensitive_quoted_key_value text =
     find_map (\<lambda>colon.
       let head_part = strip_ascii_ws_end (take colon text)
       in if head_part = [] \<or> \<not> is_quote (last head_part) then None else sensitive_value text colon)
       (positions CHR '':'' text)"

lemma find_map_Some: "find_map f xs = Some y \<Longrightarrow> \<exists>x \<in> set xs. f x = Some y"
  by (induction xs) (auto split: option.splits)

lemma sensitive_value_progress: "sensitive_value text i = Some (a, b) \<Longrightarrow> i < a \<and> a < b"
  by (auto simp: sensitive_value_def skip_ascii_ws_def Let_def split: option.splits if_splits)

lemma next_sensitive_assignment_progress: "next_sensitive_assignment text = Some (a, b) \<Longrightarrow> text \<noteq> [] \<and> a < b"
  by (auto simp: next_sensitive_assignment_def positions_def dest!: find_map_Some sensitive_value_progress split: if_splits)

lemma next_sensitive_quoted_progress: "next_sensitive_quoted_key_value text = Some (a, b) \<Longrightarrow> text \<noteq> [] \<and> a < b"
  by (auto simp: next_sensitive_quoted_key_value_def positions_def Let_def
      dest!: find_map_Some sensitive_value_progress split: if_splits)

section \<open>The passes\<close>

function redact_assignments :: "str \<Rightarrow> str" where
  "redact_assignments remaining =
     (case next_sensitive_assignment remaining of
        None \<Rightarrow> remaining
      | Some (value_start, value_end) \<Rightarrow>
          take value_start remaining @ redaction @ redact_assignments (drop value_end remaining))"
  by pat_completeness auto

termination redact_assignments
  by (relation "measure length") (auto dest!: next_sensitive_assignment_progress)

function redact_quoted_key_values :: "str \<Rightarrow> str" where
  "redact_quoted_key_values remaining =
     (case next_sensitive_quoted_key_value remaining of
        None \<Rightarrow> remaining
      | Some (value_start, value_end) \<Rightarrow>
          take value_start remaining @ redaction @ redact_quoted_key_values (drop value_end remaining))"
  by pat_completeness auto

termination redact_quoted_key_values
  by (relation "measure length") (auto dest!: next_sensitive_quoted_progress)

lemma find_str_Some: "find_str s p = Some i \<Longrightarrow> starts_with (drop i s) p \<and> i \<le> length s"
  by (induction s arbitrary: i) (auto simp: starts_with_def split: if_splits)

lemma find_str_bound: "find_str s p = Some i \<Longrightarrow> i + length p \<le> length s"
  using find_str_Some [of s p i] by (auto simp: starts_with_iff dest!: arg_cong [of _ _ length])

function redact_bearer_values :: "str \<Rightarrow> str" where
  "redact_bearer_values remaining =
     (case find_str (to_ascii_lowercase remaining) ''bearer '' of
        None \<Rightarrow> remaining
      | Some start \<Rightarrow>
          (let value_start = start + length ''bearer '';
               value_end = sensitive_value_end remaining value_start
           in if value_end = value_start then take value_start remaining @ drop value_start remaining
              else take value_start remaining @ redaction @ redact_bearer_values (drop value_end remaining)))"
  by pat_completeness auto

lemma sensitive_value_end_ge: "start \<le> sensitive_value_end text start"
  by (auto simp: sensitive_value_end_def split: list.splits option.splits dest!: arg_cong [of "utf8_chars _" _ "\<lambda>l. l = []"])

lemma length_to_ascii_lowercase [simp]: "length (to_ascii_lowercase s) = length s"
  by (simp add: to_ascii_lowercase_def)

termination redact_bearer_values
proof (relation "measure length")
  fix remaining start value_start value_end
  assume "find_str (to_ascii_lowercase remaining) ''bearer '' = Some start" "value_start = start + length ''bearer ''"
    "value_end = sensitive_value_end remaining value_start" "value_end \<noteq> value_start"
  with find_str_bound [of "to_ascii_lowercase remaining" "''bearer ''" start] sensitive_value_end_ge [of value_start remaining]
  show "(drop value_end remaining, remaining) \<in> measure length" by auto
qed simp

definition authority_stop :: "str \<Rightarrow> bool" where
  "authority_stop ch = (is_whitespace ch \<or> ch \<in> {''/'', ''?'', ''#'', [CHR 0x27], [CHR 0x22], [CHR 0x60], '';'', '',''})"

function redact_url_userinfo :: "str \<Rightarrow> str" where
  "redact_url_userinfo text =
     (case find_str text ''://'' of
        None \<Rightarrow> text
      | Some scheme_end \<Rightarrow>
          (let authority_start = scheme_end + 3; rest = drop authority_start text;
               authority = take (find_char_or_end authority_stop rest) rest
           in case rfind_char CHR ''@'' authority of
                None \<Rightarrow> take authority_start text @ redact_url_userinfo rest
              | Some at_offset \<Rightarrow>
                  take authority_start text @ redaction @ ''@'' @
                  redact_url_userinfo (drop (authority_start + at_offset + 1) text)))"
  by pat_completeness auto

termination redact_url_userinfo
  by (relation "measure length") (auto dest!: find_str_bound)

lemma min_by_fst_in: "min_by_fst xs = Some x \<Longrightarrow> x \<in> set xs"
  by (induction xs arbitrary: x) (auto split: option.splits if_splits)

lemma next_hash_Some:
  assumes "next_modular_password_hash text = Some (a, b)"
  obtains prefix where "prefix \<in> set modular_password_hash_prefixes" "find_str (to_ascii_lowercase text) prefix = Some a"
    "a + length prefix \<le> b"
  using assms by (auto simp: next_modular_password_hash_def Let_def Option.bind_eq_Some_conv map_filter_def dest!: min_by_fst_in)

lemma prefixes_nonempty: "p \<in> set modular_password_hash_prefixes \<Longrightarrow> 0 < length p"
  by (auto simp: modular_password_hash_prefixes_def)

function redact_modular_password_hashes :: "str \<Rightarrow> str" where
  "redact_modular_password_hashes remaining =
     (case next_modular_password_hash remaining of
        None \<Rightarrow> remaining
      | Some (start, end) \<Rightarrow> take start remaining @ redaction @ redact_modular_password_hashes (drop end remaining))"
  by pat_completeness auto

termination redact_modular_password_hashes
proof (relation "measure length")
  fix remaining x start "end"
  assume n: "next_modular_password_hash remaining = Some x" "(start, end) = x"
  then obtain p where "p \<in> set modular_password_hash_prefixes" "find_str (to_ascii_lowercase remaining) p = Some start"
    "start + length p \<le> end" by (metis next_hash_Some)
  moreover from this have "start + length p \<le> length remaining"
    using find_str_bound [of "to_ascii_lowercase remaining" p start] by simp
  ultimately have "0 < end" "0 < length remaining" using prefixes_nonempty [of p] by linarith+
  then show "(drop end remaining, remaining) \<in> measure length" by simp
qed simp

declare redact_assignments.simps [simp del] redact_quoted_key_values.simps [simp del]
  redact_bearer_values.simps [simp del] redact_url_userinfo.simps [simp del] redact_modular_password_hashes.simps [simp del]

definition redact_sensitive_key_values :: "str \<Rightarrow> str" where
  "redact_sensitive_key_values text =
     redact_modular_password_hashes (redact_url_userinfo (redact_bearer_values
       (redact_quoted_key_values (redact_assignments text))))"

definition contains_sensitive_key_value :: "str \<Rightarrow> bool" where
  "contains_sensitive_key_value text = (redact_sensitive_key_values text \<noteq> text)"

section \<open>Occurrences\<close>

lemma contains_iff: "contains s p \<longleftrightarrow> (\<exists>a b. s = a @ p @ b)"
proof (induction s)
  case (Cons c s)
  show ?case
  proof
    assume "contains (c # s) p"
    then consider "starts_with (c # s) p" | "contains s p" by auto
    then show "\<exists>a b. c # s = a @ p @ b"
    proof cases
      case 1
      then show ?thesis by (metis append_Nil starts_with_iff)
    next
      case 2
      then show ?thesis using Cons by (metis append_Cons)
    qed
  next
    assume "\<exists>a b. c # s = a @ p @ b"
    then obtain a b where ab: "c # s = a @ p @ b" by blast
    show "contains (c # s) p"
    proof (cases a)
      case Nil
      then have "starts_with (c # s) p" using ab by simp
      then show ?thesis by simp
    next
      case (Cons d a')
      then show ?thesis using ab \<open>contains s p \<longleftrightarrow> _\<close> by auto
    qed
  qed
qed simp

lemma find_str_None_iff: "find_str s p = None \<longleftrightarrow> \<not> contains s p"
  by (induction s) auto

lemma contains_break:
  assumes "c \<notin> set p" and "p \<noteq> []"
  shows "contains (a @ c # b) p \<longleftrightarrow> contains a p \<or> contains b p"
proof
  assume "contains (a @ c # b) p"
  then obtain u v where uv: "a @ c # b = u @ p @ v" by (auto simp: contains_iff)
  then consider w where "a = u @ w" "w @ c # b = p @ v" | w where "u = a @ w" "c # b = w @ p @ v"
    by (auto simp: append_eq_append_conv2)
  then show "contains a p \<or> contains b p"
  proof cases
    case 1
    then consider x where "w = p @ x" | x where "p = w @ x" "c # b = x @ v" by (auto simp: append_eq_append_conv2)
    then show ?thesis
    proof cases
      case (2 x)
      then have "x = []" using assms(1) by (cases x) auto
      then have "a = u @ p @ []" using 1 2 by simp
      then show ?thesis unfolding contains_iff by blast
    qed (use 1 in \<open>auto simp: contains_iff\<close>)
  next
    case (2 w)
    then obtain w' where "w = c # w'" using assms by (cases w; cases p) auto
    then show ?thesis using 2 by (auto simp: contains_iff)
  qed
next
  assume "contains a p \<or> contains b p"
  then show "contains (a @ c # b) p"
    by (auto simp: contains_iff) (metis append.assoc append_Cons)+
qed

lemma min_by_fst_None: "min_by_fst xs = None \<longleftrightarrow> xs = []"
  by (cases xs) (auto split: option.splits)

lemma min_by_fst_least: "min_by_fst xs = Some x \<Longrightarrow> y \<in> set xs \<Longrightarrow> fst x \<le> fst y"
proof (induction xs arbitrary: x)
  case (Cons a xs)
  show ?case
  proof (cases "min_by_fst xs")
    case None
    with Cons.prems show ?thesis by (simp add: min_by_fst_None)
  next
    case (Some z)
    then have "y \<in> set xs \<Longrightarrow> fst z \<le> fst y" using Cons.IH by blast
    with Some Cons.prems show ?thesis by (fastforce split: if_splits)
  qed
qed simp

lemma find_str_first: "\<exists>i \<le> length a. find_str (a @ p @ b) p = Some i"
proof (induction a)
  case Nil
  have "starts_with (p @ b) p" by simp
  then show ?case by (cases "p @ b") auto
next
  case (Cons c a)
  then obtain i where "i \<le> length a" "find_str (a @ p @ b) p = Some i" by blast
  then show ?case by auto
qed

lemma no_hash_iff:
  "\<not> contains_modular_password_hash text \<longleftrightarrow>
     (\<forall>p \<in> set modular_password_hash_prefixes. \<not> contains (to_ascii_lowercase text) p)"
  by (auto simp: contains_modular_password_hash_def next_modular_password_hash_def Let_def min_by_fst_None
      map_filter_def filter_empty_conv find_str_None_iff Option.bind_eq_None_conv split_def)

lemma before_hash:
  assumes "next_modular_password_hash text = Some (a, b)" and "p \<in> set modular_password_hash_prefixes"
  shows "\<not> contains (take a (to_ascii_lowercase text)) p"
proof
  assume "contains (take a (to_ascii_lowercase text)) p"
  then obtain u v where uv: "take a (to_ascii_lowercase text) = u @ p @ v" by (auto simp: contains_iff)
  have "u @ p @ v @ drop a (to_ascii_lowercase text) = to_ascii_lowercase text"
    by (metis append.assoc append_take_drop_id uv)
  with find_str_first [of u p "v @ drop a (to_ascii_lowercase text)"] obtain i where
    i: "i \<le> length u" "find_str (to_ascii_lowercase text) p = Some i" by auto
  let ?ms = "List.map_filter (\<lambda>prefix. map_option (\<lambda>start. (start, length prefix)) (find_str (to_ascii_lowercase text) prefix))
    modular_password_hash_prefixes"
  have "(i, length p) \<in> set ?ms" using i(2) assms(2) by (force simp: map_filter_def)
  moreover obtain n where "min_by_fst ?ms = Some (a, n)"
    using assms(1) by (auto simp: next_modular_password_hash_def Let_def Option.bind_eq_Some_conv)
  ultimately have "a \<le> i" using min_by_fst_least by fastforce
  moreover have "length u + length p \<le> a" using arg_cong [OF uv, of length] by simp
  ultimately show False using i(1) prefixes_nonempty [OF assms(2)] by linarith
qed

lemma prefix_shape:
  "p \<in> set modular_password_hash_prefixes \<Longrightarrow> CHR ''['' \<notin> set p \<and> CHR '']'' \<notin> set p \<and> p \<noteq> [] \<and> \<not> contains ''redacted'' p"
  by (auto simp: modular_password_hash_prefixes_def starts_with_def)

lemma contains_redaction:
  assumes "p \<in> set modular_password_hash_prefixes"
  shows "contains (x @ ''[redacted]'' @ y) p \<longleftrightarrow> contains x p \<or> contains y p"
proof -
  have "x @ ''[redacted]'' @ y = x @ CHR ''['' # (''redacted'' @ CHR '']'' # y)" by simp
  moreover note p = prefix_shape [OF assms]
  ultimately show ?thesis
    using contains_break [of "CHR ''[''" p x "''redacted'' @ CHR '']'' # y"] contains_break [of "CHR '']''" p "''redacted''" y]
    by metis
qed

lemma redact_modular_no_hash:
  "p \<in> set modular_password_hash_prefixes \<Longrightarrow> \<not> contains (to_ascii_lowercase (redact_modular_password_hashes t)) p"
proof (induction t rule: redact_modular_password_hashes.induct)
  case (1 remaining)
  show ?case
  proof (cases "next_modular_password_hash remaining")
    case None
    then have "\<not> contains (to_ascii_lowercase remaining) p"
      using no_hash_iff [of remaining] "1.prems" by (auto simp: contains_modular_password_hash_def)
    then show ?thesis using None by (simp add: redact_modular_password_hashes.simps [of remaining])
  next
    case (Some ab)
    obtain a b where ab: "next_modular_password_hash remaining = Some (a, b)" using Some by (cases ab) auto
    let ?out = "redact_modular_password_hashes (drop b remaining)"
    have low: "to_ascii_lowercase redaction = ''[redacted]''" by code_simp
    have "to_ascii_lowercase (redact_modular_password_hashes remaining) =
        take a (to_ascii_lowercase remaining) @ ''[redacted]'' @ to_ascii_lowercase ?out"
      using ab low by (simp add: redact_modular_password_hashes.simps [of remaining] to_ascii_lowercase_def take_map)
    moreover have "\<not> contains (to_ascii_lowercase ?out) p" using "1.IH" [OF ab refl "1.prems"] .
    ultimately show ?thesis
      using contains_redaction [OF "1.prems"] before_hash [OF ab "1.prems"] by metis
  qed
qed

section \<open>Sensitive values\<close>

text \<open>How a key stands before its separator: bare, or between quotes. The key is then what
  \<open>assignment_key\<close> reads.\<close>

definition key_char :: "char \<Rightarrow> bool" where
  "key_char c = (is_ascii_alphanumeric c \<or> c \<in> set ''_-'')"

definition bare_key :: "str \<Rightarrow> str \<Rightarrow> str \<Rightarrow> bool" where
  "bare_key pre shown key = (shown = key \<and> key \<noteq> [] \<and> list_all key_char key \<and> (pre = [] \<or> \<not> key_char (last pre)))"

definition quoted_key :: "str \<Rightarrow> str \<Rightarrow> bool" where
  "quoted_key shown key =
     (shown \<noteq> [] \<and> is_quote (hd shown) \<and> shown = hd shown # key @ [hd shown] \<and> hd shown \<notin> set key \<and> key \<noteq> [])"

text \<open>The values: a quoted one, in which a backslash escapes the next scalar value; one whose quote is never
  closed, which is the rest of the text; and a bare one, up to the next white space, ampersand,
  semicolon or comma. What follows a value starts with a whole scalar value.\<close>

fun quoted_body :: "str \<Rightarrow> bool \<Rightarrow> str list \<Rightarrow> bool" where
  "quoted_body quote escaped [] = (\<not> escaped)"
| "quoted_body quote escaped (ch # chs) =
     (if escaped then quoted_body quote False chs
      else if ch = [CHR 0x5C] then quoted_body quote True chs
      else ch \<noteq> quote \<and> quoted_body quote False chs)"

definition boundary :: "str \<Rightarrow> bool" where
  "boundary s = (s = [] \<or> \<not> is_cont (hd s))"

definition closed_value :: "str \<Rightarrow> str \<Rightarrow> bool" where
  "closed_value v rest =
     (v \<noteq> [] \<and> is_quote (hd v) \<and> boundary rest \<and>
      (let body = butlast (tl v) in v = hd v # body @ [hd v] \<and> boundary body \<and> quoted_body [hd v] False (utf8_chars body)))"

definition open_value :: "str \<Rightarrow> str \<Rightarrow> bool" where
  "open_value v rest =
     (rest = [] \<and> v \<noteq> [] \<and> is_quote (hd v) \<and> boundary (tl v) \<and> quoted_len [hd v] False (utf8_chars (tl v)) = None)"

definition bare_value :: "str \<Rightarrow> str \<Rightarrow> bool" where
  "bare_value v rest =
     (v \<noteq> [] \<and> \<not> is_quote (hd v) \<and> \<not> is_ascii_whitespace (hd v) \<and> list_all (\<lambda>ch. \<not> value_stop ch) (utf8_chars v) \<and>
      boundary rest \<and> (rest = [] \<or> value_stop (hd (utf8_chars rest))))"

definition secret_value :: "str \<Rightarrow> str \<Rightarrow> bool" where
  "secret_value v rest = (closed_value v rest \<or> open_value v rest \<or> bare_value v rest)"

text \<open>No separator of the text before it has a sensitive key.\<close>

definition no_sensitive_key :: "char \<Rightarrow> str \<Rightarrow> bool" where
  "no_sensitive_key sep s =
     list_all (\<lambda>i. case assignment_key s i of None \<Rightarrow> True | Some key \<Rightarrow> \<not> sensitive_assignment_key key) (positions sep s)"

lemma takeWhile_all_append: "list_all P xs \<Longrightarrow> takeWhile P (xs @ ys) = xs @ takeWhile P ys"
  by (induction xs) auto

lemma positions_append: "\<exists>is. positions c (a @ c # b) = positions c a @ length a # is"
proof -
  have "[0..<length (a @ c # b)] = [0..<length a] @ length a # [Suc (length a)..<length a + Suc (length b)]"
    using upt_add_eq_append [of 0 "length a" "Suc (length b)"] upt_conv_Cons [of "length a" "length a + Suc (length b)"]
    by simp
  moreover have "filter (\<lambda>i. (a @ c # b) ! i = c) [0..<length a] = filter (\<lambda>i. a ! i = c) [0..<length a]"
    by (intro filter_cong) (auto simp: nth_append)
  ultimately show ?thesis by (simp add: positions_def)
qed

lemma find_map_append_None: "list_all (\<lambda>x. f x = None) xs \<Longrightarrow> find_map f (xs @ ys) = find_map f ys"
  by (induction xs) auto

lemma key_char_facts:
  "key_char c \<Longrightarrow> \<not> is_ascii_whitespace c \<and> \<not> is_quote c \<and> c \<noteq> CHR ''=''"
  by (auto simp: key_char_def is_ascii_alphanumeric_def is_ascii_alphabetic_def is_ascii_upper_def is_ascii_lower_def
      is_ascii_digit_def is_ascii_whitespace_def is_quote_def code_def)

lemma quote_facts: "is_quote c \<Longrightarrow> \<not> is_ascii_whitespace c \<and> c \<noteq> CHR ''='' \<and> \<not> is_cont c"
  by (auto simp: is_quote_def is_ascii_whitespace_def is_cont_def code_def)

lemma strip_ascii_ws_end_append:
  assumes "s \<noteq> []" and "\<not> is_ascii_whitespace (last s)" and "list_all is_ascii_whitespace ws"
  shows "strip_ascii_ws_end (s @ ws) = s"
proof -
  obtain c s' where s: "s = s' @ [c]" using assms(1) by (cases s rule: rev_cases) auto
  have "dropWhile is_ascii_whitespace (rev ws @ rev s) = rev s"
    using assms(2,3) by (simp add: s dropWhile_append list_all_iff)
  then show ?thesis by (simp add: strip_ascii_ws_end_def)
qed

lemma assignment_key_bare:
  assumes "bare_key pre shown key" and "list_all is_ascii_whitespace ws" and "take n text = pre @ shown @ ws"
  shows "assignment_key text n = Some key"
proof -
  have key: "shown = key" "key \<noteq> []" "list_all key_char key" "pre = [] \<or> \<not> key_char (last pre)"
    using assms(1) by (simp_all add: bare_key_def)
  have last: "key_char (last key)" using key(2,3) by (simp add: list_all_iff)
  then have "strip_ascii_ws_end ((pre @ key) @ ws) = pre @ key"
    using key(2) key_char_facts assms(2) by (intro strip_ascii_ws_end_append) auto
  moreover have "takeWhile key_char (rev key @ rev pre) = rev key"
  proof -
    have "takeWhile key_char (rev pre) = []" using key(4) by (cases pre rule: rev_cases) auto
    then show ?thesis using key(3) takeWhile_all_append [of key_char "rev key"] by simp
  qed
  then have "rev (takeWhile (\<lambda>c. is_ascii_alphanumeric c \<or> c \<in> set ''_-'') (rev (pre @ key))) = key"
    unfolding key_char_def [abs_def, symmetric] by simp
  ultimately show ?thesis
    using key_char_facts [OF last] key(1,2) assms(3) by (simp add: assignment_key_def Let_def)
qed

lemma rfind_char_append: "c \<notin> set b \<Longrightarrow> rfind_char c (a @ c # b) = Some (length a)"
proof -
  assume "c \<notin> set b"
  then have "takeWhile (\<lambda>x. x \<noteq> c) (rev b @ c # rev a) = rev b"
    using takeWhile_all_append [of "\<lambda>x. x \<noteq> c" "rev b" "c # rev a"] by (auto simp: list_all_iff)
  then show ?thesis by (simp add: rfind_char_def)
qed

lemma assignment_key_quoted:
  assumes "quoted_key shown key" and "list_all is_ascii_whitespace ws" and "take n text = pre @ shown @ ws"
  shows "assignment_key text n = Some key"
proof -
  obtain q where key: "is_quote q" "shown = q # key @ [q]" "q \<notin> set key" "key \<noteq> []"
    using assms(1) by (auto simp: quoted_key_def)
  have "strip_ascii_ws_end ((pre @ q # key @ [q]) @ ws) = pre @ q # key @ [q]"
    using quote_facts [OF key(1)] assms(2) by (intro strip_ascii_ws_end_append) auto
  then have head: "strip_ascii_ws_end (take n text) = (pre @ q # key) @ [q]" by (simp add: assms(3) key(2))
  show ?thesis
    unfolding assignment_key_def head using rfind_char_append [OF key(3), of pre] key(1,4)
    by (simp add: butlast_append Let_def)
qed

lemma utf8_chars_append: "boundary b \<Longrightarrow> utf8_chars (a @ b) = utf8_chars a @ utf8_chars b"
proof (induction a rule: utf8_chars.induct)
  case (2 c cs)
  have split: "takeWhile is_cont (cs @ b) = takeWhile is_cont cs \<and> dropWhile is_cont (cs @ b) = dropWhile is_cont cs @ b"
    if "boundary b" for cs
    using that by (induction cs; cases b) (auto simp: boundary_def)
  from split [OF 2(2)] 2(1) [OF 2(2)] show ?case by simp
qed simp

lemma quoted_len_body:
  "quoted_body q escaped chs \<Longrightarrow> q \<noteq> [CHR 0x5C] \<Longrightarrow> quoted_len q escaped (chs @ q # rest) = Some (length (concat chs) + length q)"
  by (induction q escaped chs rule: quoted_body.induct) (auto split: if_splits)

lemma secret_value_end:
  assumes "secret_value v rest" and "n = length p"
  shows "sensitive_value_end (p @ v @ rest) n = n + length v"
  using assms(1) unfolding secret_value_def
proof (elim disjE)
  assume c: "closed_value v rest"
  define q body where "q = hd v" and "body = butlast (tl v)"
  from c have v: "v = q # body @ [q]" "is_quote q" "boundary body" "boundary rest" "quoted_body [q] False (utf8_chars body)"
    by (simp_all add: closed_value_def q_def body_def Let_def)
  have b: "boundary (q # rest)" "boundary (body @ q # rest)"
    using v quote_facts by (auto simp: boundary_def hd_append)
  have q1: "utf8_chars (q # s) = [q] # utf8_chars s" if "boundary s" for s
    using utf8_chars_append [OF that, of "[q]"] by simp
  have "utf8_chars (v @ rest) = [q] # utf8_chars body @ [q] # utf8_chars rest"
    using q1 [OF b(2)] q1 [OF v(4)] utf8_chars_append [OF b(1), of body] by (simp add: v(1))
  moreover have "q = CHR 0x27 \<or> q = CHR 0x22" "[q] \<noteq> [CHR 0x5C]" using v(2) by (auto simp: is_quote_def)
  ultimately show ?thesis
    using quoted_len_body [OF v(5), of "utf8_chars rest"] by (auto simp: sensitive_value_end_def assms(2) v(1))
next
  assume o: "open_value v rest"
  then obtain q body where v: "v = q # body" "is_quote q" "boundary body" "rest = []" "quoted_len [q] False (utf8_chars body) = None"
    by (cases v) (auto simp: open_value_def)
  have "utf8_chars v = [q] # utf8_chars body" using utf8_chars_append [OF v(3), of "[q]"] by (simp add: v(1))
  then show ?thesis using v(2,4,5) by (auto simp: sensitive_value_end_def assms(2) is_quote_def)
next
  assume b: "bare_value v rest"
  then have u: "utf8_chars (v @ rest) = utf8_chars v @ utf8_chars rest" by (simp add: bare_value_def utf8_chars_append)
  have "takeWhile (\<lambda>ch. \<not> value_stop ch) (utf8_chars v @ utf8_chars rest) = utf8_chars v"
    using b takeWhile_all_append [of "\<lambda>ch. \<not> value_stop ch" "utf8_chars v"]
    by (cases "utf8_chars rest") (auto simp: bare_value_def list_all_iff)
  then have e: "find_char_or_end value_stop (v @ rest) = length v" by (simp add: find_char_or_end_def u)
  obtain c v' where v: "v = c # v'" "\<not> is_quote c" using b by (cases v) (auto simp: bare_value_def)
  have "hd (utf8_chars v) \<noteq> [CHR 0x27]" "hd (utf8_chars v) \<noteq> [CHR 0x22]" using v by (auto simp: is_quote_def)
  moreover have "utf8_chars v \<noteq> []" using v by simp
  ultimately show ?thesis using e u by (auto simp: sensitive_value_end_def assms(2) neq_Nil_conv)
qed

lemma secret_value_start: "secret_value v rest \<Longrightarrow> v \<noteq> [] \<and> \<not> is_ascii_whitespace (hd v)"
  using quote_facts by (auto simp: secret_value_def closed_value_def open_value_def bare_value_def)

text \<open>A secret: the text before it, the separator and the white space around it, and the value.\<close>

definition shown_key :: "str \<Rightarrow> str \<Rightarrow> str \<Rightarrow> bool" where
  "shown_key pre shown key = (bare_key pre shown key \<or> quoted_key shown key)"

lemma sensitive_value_found:
  assumes "shown_key pre shown key" and "sensitive_assignment_key key" and "list_all is_ascii_whitespace (ws @ ws')"
    and "secret_value v rest" and "t = pre @ shown @ ws @ sep # ws' @ v @ rest" and "n = length (pre @ shown @ ws)"
  shows "sensitive_value t n = Some (n + 1 + length ws', n + 1 + length ws' + length v)"
proof -
  have tk: "take n t = pre @ shown @ ws" by (simp add: assms(5,6))
  have key: "assignment_key t n = Some key"
    using assms(1,3) assignment_key_bare [OF _ _ tk] assignment_key_quoted [OF _ _ tk] by (auto simp: shown_key_def)
  obtain c v' where v: "v = c # v'" "\<not> is_ascii_whitespace c" using secret_value_start [OF assms(4)] by (cases v) auto
  have "drop (n + 1) t = ws' @ v @ rest" by (simp add: assms(5,6))
  moreover have "takeWhile is_ascii_whitespace (ws' @ v @ rest) = ws'"
    using assms(3) takeWhile_all_append [of is_ascii_whitespace ws' "v @ rest"] v by simp
  ultimately have ws: "skip_ascii_ws t (n + 1) = n + 1 + length ws'" by (simp add: skip_ascii_ws_def)
  have "sensitive_value_end ((pre @ shown @ ws @ sep # ws') @ v @ rest) (n + 1 + length ws') = n + 1 + length ws' + length v"
    by (rule secret_value_end [OF assms(4)]) (simp add: assms(6))
  then have e: "sensitive_value_end t (n + 1 + length ws') = n + 1 + length ws' + length v" by (simp add: assms(5))
  have "n + 1 + length ws' \<noteq> length t" by (simp add: assms(5,6) v(1))
  then show ?thesis
    unfolding sensitive_value_def key option.case Let_def ws e using assms(2) by (simp add: v(1))
qed

lemma no_sensitive_value:
  assumes "no_sensitive_key sep s" and "i \<in> set (positions sep s)"
  shows "sensitive_value (s @ u) i = None"
proof -
  have "i \<le> length s" using assms(2) by (simp add: positions_def)
  then have "assignment_key (s @ u) i = assignment_key s i" by (simp add: assignment_key_def)
  with assms show ?thesis by (auto simp: no_sensitive_key_def list_all_iff sensitive_value_def split: option.splits)
qed

lemma shown_key_last:
  assumes "shown_key pre shown key" and "list_all is_ascii_whitespace ws"
  shows "shown @ ws \<noteq> [] \<and> last (shown @ ws) \<noteq> CHR ''=''"
proof -
  have ws: "last ws \<noteq> CHR ''=''" if "ws \<noteq> []"
    using assms(2) last_in_set [OF that] by (auto simp: list_all_iff is_ascii_whitespace_def code_def)
  have "shown \<noteq> [] \<and> last shown \<noteq> CHR ''=''"
  proof (cases "bare_key pre shown key")
    case True
    then show ?thesis using key_char_facts [of "last key"] by (simp add: bare_key_def list_all_iff)
  next
    case False
    then obtain q where "shown = q # key @ [q]" "is_quote q" using assms(1) by (auto simp: shown_key_def quoted_key_def)
    then show ?thesis using quote_facts [of q] by simp
  qed
  then show ?thesis using ws by (cases "ws = []") auto
qed

text \<open>The first sensitive assignment of a text, and the first sensitive value after a quoted key.\<close>

lemma first_sensitive_assignment:
  assumes "shown_key pre shown key" and "sensitive_assignment_key key" and "list_all is_ascii_whitespace (ws @ ws')"
    and "secret_value v rest" and "hd (ws' @ v) \<noteq> CHR ''=''" and "no_sensitive_key CHR ''='' (pre @ shown @ ws)"
    and t: "t = pre @ shown @ ws @ CHR ''='' # ws' @ v @ rest" and n: "n = length (pre @ shown @ ws)"
  shows "next_sensitive_assignment t = Some (n + 1 + length ws', n + 1 + length ws' + length v)"
proof -
  have split: "t = (pre @ shown @ ws) @ CHR ''='' # ws' @ v @ rest" by (simp add: t)
  obtain ps where ps: "positions CHR ''='' t = positions CHR ''='' (pre @ shown @ ws) @ n # ps"
    using positions_append unfolding split n by metis
  have k: "shown @ ws \<noteq> []" "last (shown @ ws) \<noteq> CHR ''=''" using shown_key_last [OF assms(1)] assms(3) by simp_all
  have "t ! (n - 1) = last (pre @ shown @ ws)"
    using k(1) unfolding split n by (simp add: nth_append last_conv_nth del: append_assoc)
  then have l: "t ! (n - 1) \<noteq> CHR ''=''" using k by (cases "shown @ ws = []") (simp_all del: append_is_Nil_conv add: last_append)
  have "v \<noteq> []" using secret_value_start [OF assms(4)] by simp
  then have "t ! (n + 1) = hd (ws' @ v)" unfolding split n by (cases ws'; cases v) (simp_all add: nth_append)
  with assms(5) have r: "t ! (n + 1) \<noteq> CHR ''=''" by simp
  have "sensitive_value t i = None" if "i \<in> set (positions CHR ''='' (pre @ shown @ ws))" for i
    unfolding split by (rule no_sensitive_value [OF assms(6) that])
  then show ?thesis
    using l r sensitive_value_found [OF assms(1-4) t n]
    by (simp add: next_sensitive_assignment_def ps find_map_append_None list_all_iff)
qed

lemma first_sensitive_quoted_value:
  assumes "quoted_key shown key" and "sensitive_assignment_key key" and "list_all is_ascii_whitespace (ws @ ws')"
    and "secret_value v rest" and "no_sensitive_key CHR '':'' (pre @ shown @ ws)"
    and t: "t = pre @ shown @ ws @ CHR '':'' # ws' @ v @ rest" and n: "n = length (pre @ shown @ ws)"
  shows "next_sensitive_quoted_key_value t = Some (n + 1 + length ws', n + 1 + length ws' + length v)"
proof -
  have split: "t = (pre @ shown @ ws) @ CHR '':'' # ws' @ v @ rest" by (simp add: t)
  obtain ps where ps: "positions CHR '':'' t = positions CHR '':'' (pre @ shown @ ws) @ n # ps"
    using positions_append unfolding split n by metis
  obtain q where q: "is_quote q" "shown = q # key @ [q]" using assms(1) by (auto simp: quoted_key_def)
  have "strip_ascii_ws_end ((pre @ shown) @ ws) = pre @ shown"
    using quote_facts [OF q(1)] assms(3) by (intro strip_ascii_ws_end_append) (auto simp: q(2))
  then have h: "strip_ascii_ws_end (take n t) = pre @ shown" by (simp add: split n)
  have "sensitive_value t i = None" if "i \<in> set (positions CHR '':'' (pre @ shown @ ws))" for i
    unfolding split by (rule no_sensitive_value [OF assms(5) that])
  moreover have "shown_key pre shown key" using assms(1) by (simp add: shown_key_def)
  ultimately show ?thesis
    using sensitive_value_found [OF _ assms(2-4) t n] q h
    by (simp add: next_sensitive_quoted_key_value_def ps find_map_append_None list_all_iff Let_def)
qed

lemma redact_first_assignment:
  assumes "shown_key pre shown key" and "sensitive_assignment_key key" and "list_all is_ascii_whitespace (ws @ ws')"
    and "secret_value v rest" and "hd (ws' @ v) \<noteq> CHR ''=''" and "no_sensitive_key CHR ''='' (pre @ shown @ ws)"
  shows "redact_assignments (pre @ shown @ ws @ ''='' @ ws' @ v @ rest) =
    pre @ shown @ ws @ ''='' @ ws' @ redaction @ redact_assignments rest"
  using first_sensitive_assignment [OF assms refl refl]
  by (subst redact_assignments.simps) simp

lemma redact_first_quoted_value:
  assumes "quoted_key shown key" and "sensitive_assignment_key key" and "list_all is_ascii_whitespace (ws @ ws')"
    and "secret_value v rest" and "no_sensitive_key CHR '':'' (pre @ shown @ ws)"
  shows "redact_quoted_key_values (pre @ shown @ ws @ '':'' @ ws' @ v @ rest) =
    pre @ shown @ ws @ '':'' @ ws' @ redaction @ redact_quoted_key_values rest"
  using first_sensitive_quoted_value [OF assms refl refl]
  by (subst redact_quoted_key_values.simps) simp

section \<open>Properties\<close>

text \<open>C14: no redacted text contains a modular password hash: the pass that masks them runs last,
  and what it writes cannot complete another prefix.\<close>

theorem redacted_text_has_no_password_hash:
  "\<not> contains_modular_password_hash (redact_sensitive_key_values text)"
  by (simp add: no_hash_iff redact_sensitive_key_values_def redact_modular_no_hash)

text \<open>A bearer token that is separated from its scheme by more than one space is not masked,
  and the pass then stops, so that later tokens of the text are not masked either.\<close>

theorem bearer_token_after_two_spaces_survives:
  assumes "t = [] \<or> \<not> is_cont (hd t)"
  shows "redact_bearer_values (''Bearer  '' @ t) = ''Bearer  '' @ t"
proof -
  have low: "to_ascii_lowercase ''Bearer  '' = ''bearer  ''" by code_simp
  have low_append: "to_ascii_lowercase (''Bearer  '' @ t) = ''bearer  '' @ to_ascii_lowercase t"
    unfolding low [symmetric] unfolding to_ascii_lowercase_def map_append ..
  have f: "find_str (to_ascii_lowercase (''Bearer  '' @ t)) ''bearer '' = Some 0"
    unfolding low_append by (simp add: starts_with_def)
  have "takeWhile is_cont t = []" using assms by (cases t) auto
  then have "sensitive_value_end (''Bearer  '' @ t) 7 = 7"
    by (simp add: sensitive_value_end_def find_char_or_end_def value_stop_def is_whitespace_def code_def)
  then have e: "sensitive_value_end (''Bearer  '' @ t) (0 + length ''bearer '') = 0 + length ''bearer ''"
    by (simp add: eval_nat_numeral)
  show ?thesis
    unfolding redact_bearer_values.simps [of "''Bearer  '' @ t"] f by (simp only: option.case Let_def e refl if_True append_take_drop_id)
qed

theorem bearer_token_after_two_spaces_survives_witness:
  "\<not> is_cont (hd ''s3cr3t, Bearer tok'') \<and>
   redact_bearer_values (''Bearer  '' @ ''s3cr3t, Bearer tok'') = ''Bearer  s3cr3t, Bearer tok''"
proof -
  have c: "\<not> is_cont (hd ''s3cr3t, Bearer tok'')" by code_simp
  then show ?thesis using bearer_token_after_two_spaces_survives [of "''s3cr3t, Bearer tok''"] by simp
qed

text \<open>C15: secrets do not survive. The value of the first assignment to a sensitive key, and the value of
  the first quoted sensitive key with a colon, is masked as a whole; what stands before it is kept and
  the rest of the text is treated the same way. The key of an assignment may be bare or quoted, and
  white space may surround the separator; the value may be quoted, with escapes, or quoted and never
  closed, or bare. The redaction of a text is therefore the same for any two values of the assignment.\<close>

theorem redact_assignment_value:
  assumes "sensitive_assignment_key key" and "list_all is_ascii_whitespace (ws @ ws')" and "secret_value v rest"
  shows "(shown_key pre shown key \<and> no_sensitive_key CHR ''='' (pre @ shown @ ws) \<and> hd (ws' @ v) \<noteq> CHR ''='' \<longrightarrow>
      redact_assignments (pre @ shown @ ws @ ''='' @ ws' @ v @ rest) =
        pre @ shown @ ws @ ''='' @ ws' @ redaction @ redact_assignments rest \<and>
      (secret_value v' rest \<and> hd (ws' @ v') \<noteq> CHR ''='' \<longrightarrow>
         redact_sensitive_key_values (pre @ shown @ ws @ ''='' @ ws' @ v @ rest) =
           redact_sensitive_key_values (pre @ shown @ ws @ ''='' @ ws' @ v' @ rest))) \<and>
    (quoted_key shown key \<and> no_sensitive_key CHR '':'' (pre @ shown @ ws) \<longrightarrow>
      redact_quoted_key_values (pre @ shown @ ws @ '':'' @ ws' @ v @ rest) =
        pre @ shown @ ws @ '':'' @ ws' @ redaction @ redact_quoted_key_values rest)"
proof (intro conjI impI; elim conjE)
  assume k: "shown_key pre shown key" "no_sensitive_key CHR ''='' (pre @ shown @ ws)" "hd (ws' @ v) \<noteq> CHR ''=''"
  note masked = redact_first_assignment [OF k(1) assms(1,2) _ _ k(2)]
  from masked [OF assms(3) k(3)]
  show "redact_assignments (pre @ shown @ ws @ ''='' @ ws' @ v @ rest) =
    pre @ shown @ ws @ ''='' @ ws' @ redaction @ redact_assignments rest" .
  assume "secret_value v' rest" "hd (ws' @ v') \<noteq> CHR ''=''"
  from masked [OF assms(3) k(3)] masked [OF this]
  show "redact_sensitive_key_values (pre @ shown @ ws @ ''='' @ ws' @ v @ rest) =
    redact_sensitive_key_values (pre @ shown @ ws @ ''='' @ ws' @ v' @ rest)" by (simp add: redact_sensitive_key_values_def)
next
  assume "quoted_key shown key" "no_sensitive_key CHR '':'' (pre @ shown @ ws)"
  then show "redact_quoted_key_values (pre @ shown @ ws @ '':'' @ ws' @ v @ rest) =
    pre @ shown @ ws @ '':'' @ ws' @ redaction @ redact_quoted_key_values rest"
    by (intro redact_first_quoted_value [OF _ assms])
qed

definition demo_secret :: str where
  "demo_secret = [CHR 0x22] @ ''a; b'' @ [CHR 0x5C, CHR 0x22, CHR 0x22]"

theorem redact_assignment_value_witness:
  "redact_assignments (''x=1; '' @ ''api_token'' @ '' '' @ ''='' @ '' '' @ demo_secret @ ''; done'') =
     ''x=1; '' @ ''api_token'' @ '' '' @ ''='' @ '' '' @ redaction @ redact_assignments ''; done'' \<and>
   redact_sensitive_key_values (''x=1; '' @ ''api_token'' @ '' '' @ ''='' @ '' '' @ demo_secret @ ''; done'') =
     redact_sensitive_key_values (''x=1; '' @ ''api_token'' @ '' '' @ ''='' @ '' '' @ ''s3cr3t'' @ ''; done'')"
proof -
  have h: "sensitive_assignment_key ''api_token''" "list_all is_ascii_whitespace ('' '' @ '' '')" "secret_value demo_secret ''; done''"
    by code_simp+
  have k: "shown_key ''x=1; '' ''api_token'' ''api_token''" "no_sensitive_key CHR ''='' (''x=1; '' @ ''api_token'' @ '' '')"
    "hd ('' '' @ demo_secret) \<noteq> CHR ''=''" "secret_value ''s3cr3t'' ''; done''" "hd ('' '' @ ''s3cr3t'') \<noteq> CHR ''=''" by code_simp+
  from redact_assignment_value [OF h, of "''x=1; ''" "''api_token''" "''s3cr3t''"] k show ?thesis by blast
qed

end
