(* ===== verification/Nest_Validate.thy ===== *)
theory Nest_Validate
  imports Nest_Redact Nest_Models
begin

text \<open>
  Normalisers and validators of build jobs and cache artifacts (\<^verbatim>\<open>src/src/db.rs\<close>). The JSON
  printer and parser of \<^verbatim>\<open>serde_json\<close> and the reusable-input boundary
  (\<^verbatim>\<open>protected_material::validate_build_spec\<close>, \<^verbatim>\<open>validate_cache_metadata\<close>) are the
  parameters collected in \<open>json_env\<close>; a boundary gives the text of its error.
\<close>

record json_env =
  je_to_string :: "json \<Rightarrow> str"
  je_from_str :: "str \<Rightarrow> str + json"
  je_validate_build_spec :: "json \<Rightarrow> str option"
  je_validate_cache_metadata :: "json \<Rightarrow> str option"

definition max_build_log_bytes :: nat where "max_build_log_bytes = 64 * 1024"
definition max_build_error_chars :: nat where "max_build_error_chars = 2000"
definition max_build_progress_stage_chars :: nat where "max_build_progress_stage_chars = 48"
definition max_build_progress_message_chars :: nat where "max_build_progress_message_chars = 160"
definition max_cache_metadata_bytes :: nat where "max_cache_metadata_bytes = 1024 * 1024"
definition max_cache_artifact_metadata_bytes :: nat where "max_cache_artifact_metadata_bytes = 24 * 1024 * 1024"

definition allowed_build_states :: "str list" where
  "allowed_build_states = [''queued'', ''running'', ''succeeded'', ''failed'', ''cancelled'']"

section \<open>Identifiers\<close>

definition normalize_artifact_type :: "str \<Rightarrow> str \<Rightarrow> str app_result" where
  "normalize_artifact_type value field =
     (let value = to_ascii_lowercase (trim value)
      in if value \<notin> {''nixos_closure'', ''netboot_artifact'', ''desktop_image'', ''system_generation''}
         then Inl (Validation (field @ '' must be one of nixos_closure, netboot_artifact, desktop_image, system_generation''))
         else Inr value)"

definition normalize_input_revision :: "str \<Rightarrow> str app_result" where
  "normalize_input_revision value =
     (let value = trim value
      in if value = [] then Inl (Validation ''input_revision is required'')
         else if 256 < chars_count value \<or> any_char is_control value
         then Inl (Validation ''input_revision must be 256 characters or fewer and must not contain control characters'')
         else Inr value)"

definition normalize_build_target :: "str option \<Rightarrow> str \<Rightarrow> str app_result" where
  "normalize_build_target value fallback =
     (let value = to_ascii_lowercase (trim (case value of Some v \<Rightarrow> v | None \<Rightarrow> fallback))
      in if value = [] \<or> 64 < length value \<or> hd value \<in> set ''-._'' \<or> last value \<in> set ''-._'' \<or>
            \<not> list_all (\<lambda>c. is_ascii_lower c \<or> is_ascii_digit c \<or> c \<in> set ''-_.'') value
         then Inl (Validation ''target must be a safe build target identifier'')
         else Inr value)"

definition normalize_build_system :: "str \<Rightarrow> str app_result" where
  "normalize_build_system value =
     (let value = trim value
      in if value = [] \<or> 64 < length value \<or> hd value = CHR ''-'' \<or> last value = CHR ''-'' \<or>
            \<not> list_all (\<lambda>c. is_ascii_alphanumeric c \<or> c \<in> set ''-_'') value
         then Inl (Validation ''system must be a safe Nix system name such as x86_64-linux'')
         else Inr value)"

definition normalize_sha256 :: "str \<Rightarrow> str \<Rightarrow> bool \<Rightarrow> str app_result" where
  "normalize_sha256 value field allow_empty =
     (let value = trim value
      in if allow_empty \<and> value = [] then Inr []
         else if length value \<noteq> 64 \<or> \<not> list_all is_ascii_hexdigit value
         then Inl (Validation (field @ '' must be a 64-character SHA-256 hex digest''))
         else Inr (to_ascii_lowercase value))"

definition normalize_managed_id :: "str \<Rightarrow> str \<Rightarrow> str app_result" where
  "normalize_managed_id value field =
     (let value = trim value
      in if value = [] then Inl (Validation (field @ '' is required''))
         else if 128 < length value \<or> \<not> list_all (\<lambda>c. is_ascii_alphanumeric c \<or> c \<in> set ''-_.'') value
         then Inl (Validation (field @ '' must be a safe identifier of 128 characters or fewer''))
         else Inr value)"

section \<open>Documents\<close>

text \<open>A JSON object is ordered by its keys; an insertion replaces a member of the same key.\<close>

fun obj_insert :: "str \<Rightarrow> json \<Rightarrow> (str \<times> json) list \<Rightarrow> (str \<times> json) list" where
  "obj_insert k v [] = [(k, v)]"
| "obj_insert k v ((k', v') # ms) =
     (if k = k' then (k, v) # ms else if k < k' then (k, v) # (k', v') # ms else (k', v') # obj_insert k v ms)"

definition obj_of :: "(str \<times> json) list \<Rightarrow> json" where
  "obj_of ms = JObj (fold (\<lambda>(k, v). obj_insert k v) ms [])"

definition is_object :: "json \<Rightarrow> bool" where
  "is_object v = (case v of JObj _ \<Rightarrow> True | _ \<Rightarrow> False)"

definition build_spec_to_string ::
  "json_env \<Rightarrow> json option \<Rightarrow> str \<Rightarrow> str \<Rightarrow> str \<Rightarrow> str \<Rightarrow> str \<Rightarrow> str app_result" where
  "build_spec_to_string env value requested_artifact_type target system input_revision input_config_hash =
     (let value = (case value of
                     Some v \<Rightarrow> v
                   | None \<Rightarrow> obj_of [(''schema_version'', JNum 1), (''artifact_type'', JStr requested_artifact_type),
                                     (''target'', JStr target), (''system'', JStr system),
                                     (''input_revision'', JStr input_revision),
                                     (''input_config_hash'', JStr input_config_hash)])
      in case value of
           JObj ms \<Rightarrow>
             (let value = JObj (obj_insert ''input_config_hash'' (JStr input_config_hash)
                            (obj_insert ''input_revision'' (JStr input_revision)
                            (obj_insert ''system'' (JStr system)
                            (obj_insert ''target'' (JStr target)
                            (obj_insert ''artifact_type'' (JStr requested_artifact_type) ms)))))
              in case je_validate_build_spec env value of
                   Some err \<Rightarrow> Inl (Validation err)
                 | None \<Rightarrow>
                     (let encoded = je_to_string env value
                      in if max_cache_metadata_bytes < length encoded
                         then Inl (Validation (''build_spec must be '' @ nat_to_str max_cache_metadata_bytes @ '' bytes or fewer''))
                         else Inr encoded))
         | _ \<Rightarrow> Inl (Validation ''build_spec must be a JSON object''))"

definition metadata_to_string_with_limit :: "json_env \<Rightarrow> json option \<Rightarrow> str \<Rightarrow> nat \<Rightarrow> str app_result" where
  "metadata_to_string_with_limit env value field max_bytes =
     (let value = (case value of Some v \<Rightarrow> v | None \<Rightarrow> JObj [])
      in if \<not> is_object value then Inl (Validation (field @ '' must be a JSON object''))
         else case je_validate_cache_metadata env value of
                Some err \<Rightarrow> Inl (Validation (field @ '': '' @ err))
              | None \<Rightarrow>
                  (let encoded = je_to_string env value
                   in if max_bytes < length encoded
                      then Inl (Validation (field @ '' must be '' @ nat_to_str max_bytes @ '' bytes or fewer''))
                      else Inr encoded))"

definition metadata_to_string :: "json_env \<Rightarrow> json option \<Rightarrow> str \<Rightarrow> str app_result" where
  "metadata_to_string env value field = metadata_to_string_with_limit env value field max_cache_metadata_bytes"

definition json_from_db :: "json_env \<Rightarrow> str \<Rightarrow> str \<Rightarrow> json app_result" where
  "json_from_db env value field =
     (case je_from_str env value of Inl err \<Rightarrow> Inl (Config (field @ '': '' @ err)) | Inr v \<Rightarrow> Inr v)"

definition metadata_from_db :: "json_env \<Rightarrow> str \<Rightarrow> str \<Rightarrow> json app_result" where
  "metadata_from_db env value field =
     (case je_from_str env value of
        Inl err \<Rightarrow> Inl (Config (field @ '': '' @ err))
      | Inr v \<Rightarrow> (if is_object v then Inr v else Inl (Config (field @ '' must be a JSON object''))))"

section \<open>Status, logs and progress\<close>

definition validate_build_status :: "str \<Rightarrow> unit app_result" where
  "validate_build_status status =
     (if status \<in> set allowed_build_states then Inr ()
      else Inl (Validation (''status must be one of '' @ join '', '' allowed_build_states)))"

definition validate_terminal_build_status :: "str \<Rightarrow> unit app_result" where
  "validate_terminal_build_status status =
     (if status \<in> {''succeeded'', ''failed'', ''cancelled''} then Inr ()
      else Inl (Validation ''terminal build status must be succeeded, failed, or cancelled''))"

text \<open>The longest run of whole scalar values that fits.\<close>

fun fitting_bytes :: "nat \<Rightarrow> str list \<Rightarrow> nat \<Rightarrow> nat" where
  "fitting_bytes max_bytes [] n = n"
| "fitting_bytes max_bytes (ch # chs) n =
     (if max_bytes < n + length ch then n else fitting_bytes max_bytes chs (n + length ch))"

definition bounded_bytes :: "str \<Rightarrow> nat \<Rightarrow> str" where
  "bounded_bytes value max_bytes =
     (if length value \<le> max_bytes then value else take (fitting_bytes max_bytes (utf8_chars value) 0) value)"

definition bounded_log_text :: "str \<Rightarrow> str" where
  "bounded_log_text value = bounded_bytes (redact_sensitive_key_values value) max_build_log_bytes"

definition bounded_error_text :: "str \<Rightarrow> str" where
  "bounded_error_text value = take_chars max_build_error_chars (redact_sensitive_key_values value)"

definition normalize_build_progress_percent :: "int option \<Rightarrow> str \<Rightarrow> int option" where
  "normalize_build_progress_percent value status =
     (case value of
        Some v \<Rightarrow> Some (max 0 (min 100 v))
      | None \<Rightarrow>
          (if status \<in> {''succeeded'', ''failed'', ''cancelled''} then Some 100
           else if status = ''queued'' then Some 0 else None))"

definition stage_char :: "char \<Rightarrow> char option" where
  "stage_char b =
     (if is_ascii_alphanumeric b then Some (to_ascii_lower b)
      else if b \<in> set '' -_./'' then Some CHR ''_'' else None)"

fun stage_loop :: "str \<Rightarrow> bool \<Rightarrow> str \<Rightarrow> str" where
  "stage_loop normalized last_was_separator [] = normalized"
| "stage_loop normalized last_was_separator (b # bs) =
     (case stage_char b of
        None \<Rightarrow> stage_loop normalized last_was_separator bs
      | Some ch \<Rightarrow>
          (if ch = CHR ''_'' \<and> (normalized = [] \<or> last_was_separator) then stage_loop normalized last_was_separator bs
           else let normalized = normalized @ [ch]
                in if max_build_progress_stage_chars \<le> length normalized then normalized
                   else stage_loop normalized (ch = CHR ''_'') bs))"

definition bounded_progress_stage :: "str \<Rightarrow> str" where
  "bounded_progress_stage value =
     (let normalized = trim_end_matches CHR ''_'' (trim_start_matches CHR ''_'' (stage_loop [] False (trim value)))
      in if normalized = [] then ''running'' else normalized)"

definition bounded_progress_message :: "str \<Rightarrow> str" where
  "bounded_progress_message value =
     (let compact = take_chars max_build_progress_message_chars
                      (filter_chars (\<lambda>ch. \<not> is_control ch) (join '' '' (split_whitespace value)))
      in if compact = [] then ''Build progress updated'' else compact)"

definition terminal_build_progress_stage :: "str \<Rightarrow> str" where
  "terminal_build_progress_stage status =
     (if status = ''succeeded'' then ''succeeded'' else if status = ''cancelled'' then ''cancelled'' else ''failed'')"

definition json_get_str :: "json \<Rightarrow> str \<Rightarrow> str option" where
  "json_get_str v k =
     (case v of JObj ms \<Rightarrow> (case map_of ms k of Some (JStr s) \<Rightarrow> Some s | _ \<Rightarrow> None) | _ \<Rightarrow> None)"

definition terminal_build_progress_message :: "str \<Rightarrow> json option \<Rightarrow> str" where
  "terminal_build_progress_message status metadata =
     (if status = ''succeeded'' then ''Build completed and cached''
      else if status = ''cancelled'' then ''Build cancelled by Tiaris''
      else let kind = Option.bind metadata (\<lambda>v. json_get_str v ''error_kind'')
           in if kind = Some ''out_of_memory'' then ''Build ran out of memory''
              else if kind = Some ''insufficient_memory'' then ''Nest memory is below the required minimum''
              else if kind = Some ''insufficient_swap'' then ''Nest swap is below the required minimum''
              else if kind = Some ''insufficient_disk_space'' then ''Nest disk space is insufficient''
              else if kind = Some ''package_build_failed'' then ''A package failed to build''
              else if kind = Some ''source_build_blocked''
              then ''Blocked: requires building from source (not allowed for this Blueprint)''
              else if kind = Some ''nix_daemon_unavailable'' then ''Nix daemon is unavailable''
              else if kind = Some ''build_timeout'' then ''Build timed out''
              else ''Build failed'')"

section \<open>Paths and tokens\<close>

definition validate_non_negative_i64 :: "int \<Rightarrow> str \<Rightarrow> unit app_result" where
  "validate_non_negative_i64 value field =
     (if value < 0 then Inl (Validation (field @ '' must be zero or greater'')) else Inr ())"

definition validate_absolute_path :: "str \<Rightarrow> str \<Rightarrow> unit app_result" where
  "validate_absolute_path value field =
     (if 4096 < length value \<or> any_char (\<lambda>ch. is_control ch \<or> ch = [CHR 0x22] \<or> ch = [CHR 0x5C]) value
      then Inl (Validation (field @ '' contains unsupported characters''))
      else if \<not> starts_with value ''/'' \<or> value = ''/''
      then Inl (Validation (field @ '' must be an absolute normalized path''))
      else if list_ex (\<lambda>c. c = CurDir \<or> c = ParentDir) (path_components value)
      then Inl (Validation (field @ '' must be an absolute normalized path''))
      else Inr ())"

definition normalize_absolute_path :: "str \<Rightarrow> str \<Rightarrow> str app_result" where
  "normalize_absolute_path value field =
     (let value = trim value
      in if value = [] then Inl (Validation (field @ '' is required''))
         else rbind (validate_absolute_path value field) (\<lambda>_. Inr value))"

definition normalize_optional_absolute_path :: "str \<Rightarrow> str \<Rightarrow> str app_result" where
  "normalize_optional_absolute_path value field =
     (let value = trim value
      in if value = [] then Inr [] else rbind (validate_absolute_path value field) (\<lambda>_. Inr value))"

definition normalize_optional_url :: "str \<Rightarrow> str \<Rightarrow> str app_result" where
  "normalize_optional_url value field =
     (let value = trim value
      in if value = [] then Inr []
         else if 2048 < length value \<or>
                 any_char (\<lambda>ch. is_control ch \<or> (case ch of [c] \<Rightarrow> is_ascii_whitespace c | _ \<Rightarrow> False)) value
         then Inl (Validation (field @ '' contains unsupported characters''))
         else if \<not> (starts_with value ''http://'' \<or> starts_with value ''https://'')
         then Inl (Validation (field @ '' must be an http or https URL''))
         else Inr (trim_end_matches CHR ''/'' value))"

definition normalize_optional_store_path :: "str \<Rightarrow> str \<Rightarrow> str app_result" where
  "normalize_optional_store_path value field =
     (let value = trim value
      in if value = [] then Inr []
         else rbind (validate_absolute_path value field) (\<lambda>_.
              if \<not> starts_with value ''/nix/store/'' then Inl (Validation (field @ '' must be a /nix/store path''))
              else Inr value))"

definition normalize_cache_relative_path :: "str \<Rightarrow> str \<Rightarrow> str app_result" where
  "normalize_cache_relative_path value field =
     (let value = trim value
      in if value = [] then Inr []
         else case sanitize_relative_path value of
                Inl _ \<Rightarrow> Inl (Validation (field @ '' must be a relative cache path without traversal''))
              | Inr _ \<Rightarrow> Inr value)"

definition normalize_optional_nix_hash :: "str \<Rightarrow> str \<Rightarrow> str app_result" where
  "normalize_optional_nix_hash value field =
     (let value = trim value
      in if value = [] then Inr []
         else if 160 < length value \<or> list_ex (\<lambda>c. \<not> (is_ascii_alphanumeric c \<or> c \<in> set '':-_='')) value
         then Inl (Validation (field @ '' is not a safe Nix hash''))
         else Inr value)"

definition normalize_optional_cache_token :: "str \<Rightarrow> str \<Rightarrow> str app_result" where
  "normalize_optional_cache_token value field =
     (let value = trim value
      in if value = [] then Inr []
         else if 32 < length value \<or> \<not> list_all (\<lambda>c. is_ascii_lower c \<or> is_ascii_digit c \<or> c = CHR ''-'') value
         then Inl (Validation (field @ '' is invalid''))
         else Inr value)"

fun validate_references :: "json list \<Rightarrow> unit app_result" where
  "validate_references [] = Inr ()"
| "validate_references (item # items) =
     (case item of
        JStr reference \<Rightarrow>
          rbind (normalize_optional_store_path reference ''reference'') (\<lambda>_. validate_references items)
      | _ \<Rightarrow> Inl (Validation ''references must contain strings only''))"

definition references_to_string :: "json_env \<Rightarrow> json option \<Rightarrow> str app_result" where
  "references_to_string env value =
     (let value = (case value of Some v \<Rightarrow> v | None \<Rightarrow> JArr [])
      in case value of
           JArr array \<Rightarrow>
             (if 10000 < length array then Inl (Validation ''references must contain 10000 entries or fewer'')
              else rbind (validate_references array) (\<lambda>_. Inr (je_to_string env value)))
         | _ \<Rightarrow> Inl (Validation ''references must be a JSON array''))"

definition validate_optional_timestamp :: "str option \<Rightarrow> str \<Rightarrow> unit app_result" where
  "validate_optional_timestamp value field =
     (case value of
        Some v \<Rightarrow>
          (if 64 < chars_count v \<or> any_char is_control v then Inl (Validation (field @ '' is invalid'')) else Inr ())
      | None \<Rightarrow> Inr ())"

section \<open>Rejections\<close>

definition truncate_chars :: "str \<Rightarrow> nat \<Rightarrow> str" where
  "truncate_chars value max_chars = take_chars max_chars value"

definition sanitize_report_field :: "str \<Rightarrow> nat \<Rightarrow> str \<Rightarrow> str" where
  "sanitize_report_field value max_chars fallback =
     (let cleaned = take_chars max_chars (filter_chars (\<lambda>ch. \<not> is_control ch) (trim value))
      in if cleaned = [] then fallback else cleaned)"

definition rejection_codes :: "(str \<times> str) list" where
  "rejection_codes =
     [(''contains protected material'', ''protected_material''),
      (''build_spec must be'', ''invalid_build_spec''),
      (''cache_metadata must be'', ''invalid_cache_metadata''),
      (''managed_job_id'', ''invalid_job_identity''),
      (''requested_artifact_type must be'', ''invalid_artifact_type''),
      (''target must be'', ''invalid_target''),
      (''system must be'', ''invalid_system''),
      (''input_revision'', ''invalid_input_revision''),
      (''input_config_hash must be'', ''invalid_input_config_hash'')]"

definition classify_validation_rejection :: "str \<Rightarrow> str" where
  "classify_validation_rejection reason =
     (case find (\<lambda>(needle, _). contains reason needle) rejection_codes of
        Some (_, c) \<Rightarrow> c
      | None \<Rightarrow> ''rejected'')"

section \<open>Bounds\<close>

lemma contains_take: "contains (take n s) p \<Longrightarrow> contains s p"
  unfolding contains_iff by (metis append.assoc append_take_drop_id)

lemma no_hash_take: "\<not> contains_modular_password_hash s \<Longrightarrow> \<not> contains_modular_password_hash (take n s)"
  by (auto simp: no_hash_iff to_ascii_lowercase_def take_map [symmetric] dest: contains_take)

lemma concat_take_prefix: "\<exists>m. concat (take n xs) = take m (concat xs)"
  by (rule exI [of _ "length (concat (take n xs))"]) (metis append_eq_conv_conj append_take_drop_id concat_append)

lemma take_chars_prefix: "\<exists>m. take_chars n s = take m s"
  using concat_take_prefix [of n "utf8_chars s"] by (simp add: take_chars_def)

lemma no_hash_redacted: "\<not> contains_modular_password_hash (redact_sensitive_key_values s)"
  by (simp add: no_hash_iff redact_sensitive_key_values_def redact_modular_no_hash)

lemma bounded_bytes_prefix: "\<exists>m. bounded_bytes s n = take m s"
  unfolding bounded_bytes_def by (metis order_refl take_all)

lemma bounded_log_no_hash: "\<not> contains_modular_password_hash (bounded_log_text v)"
  unfolding bounded_log_text_def using bounded_bytes_prefix no_hash_take no_hash_redacted by metis

lemma fitting_bytes_ge: "n \<le> fitting_bytes m chs n"
  by (induction m chs n rule: fitting_bytes.induct) (auto intro: le_trans)

lemma fitting_bytes_spec:
  assumes "n \<le> m"
  shows "\<exists>k \<le> length chs. fitting_bytes m chs n = n + length (concat (take k chs)) \<and>
           n + length (concat (take k chs)) \<le> m \<and>
           (k < length chs \<longrightarrow> m < n + length (concat (take (Suc k) chs)))"
  using assms
proof (induction m chs n rule: fitting_bytes.induct)
  case (2 m ch chs n)
  show ?case
  proof (cases "m < n + length ch")
    case True
    then show ?thesis using "2.prems" by (intro exI [of _ 0]) simp
  next
    case False
    with 2 obtain k where k: "k \<le> length chs" "fitting_bytes m chs (n + length ch) = n + length ch + length (concat (take k chs))"
      "n + length ch + length (concat (take k chs)) \<le> m"
      "k < length chs \<longrightarrow> m < n + length ch + length (concat (take (Suc k) chs))" by auto
    then show ?thesis using False by (intro exI [of _ "Suc k"]) auto
  qed
qed simp

lemma bounded_bytes_eq:
  "\<exists>k \<le> chars_count s. bounded_bytes s n = take_chars k s \<and> length (bounded_bytes s n) \<le> n \<and>
     (k < chars_count s \<longrightarrow> n < length (take_chars (Suc k) s))"
proof (cases "length s \<le> n")
  case True
  then show ?thesis
    by (intro exI [of _ "chars_count s"]) (simp add: bounded_bytes_def take_chars_id)
next
  case False
  from fitting_bytes_spec [of 0 n "utf8_chars s"] obtain k where k: "k \<le> length (utf8_chars s)"
    "fitting_bytes n (utf8_chars s) 0 = length (concat (take k (utf8_chars s)))" "length (concat (take k (utf8_chars s))) \<le> n"
    "k < length (utf8_chars s) \<longrightarrow> n < length (concat (take (Suc k) (utf8_chars s)))" by auto
  have "take (length (concat (take k (utf8_chars s)))) s = concat (take k (utf8_chars s))"
    by (metis append_eq_conv_conj append_take_drop_id concat_append concat_utf8_chars)
  with k False show ?thesis
    by (intro exI [of _ k]) (simp add: bounded_bytes_def take_chars_def chars_count_def)
qed

section \<open>Progress stages\<close>

definition stage_ok :: "str \<Rightarrow> bool" where
  "stage_ok s = (list_all (\<lambda>c. is_ascii_lower c \<or> is_ascii_digit c \<or> c = CHR ''_'') s \<and>
     length s \<le> max_build_progress_stage_chars \<and> \<not> contains s ''__'')"

lemma stage_char_ok: "stage_char b = Some c \<Longrightarrow> is_ascii_lower c \<or> is_ascii_digit c \<or> c = CHR ''_''"
  by (auto simp: stage_char_def is_ascii_alphanumeric_def is_ascii_alphabetic_def is_ascii_lower_def is_ascii_digit_def
      is_ascii_upper_def to_ascii_lower_def split: if_splits)

lemma contains_snoc:
  assumes "\<not> contains s ''__''" and "c \<noteq> CHR ''_'' \<or> s = [] \<or> last s \<noteq> CHR ''_''"
  shows "\<not> contains (s @ [c]) ''__''"
proof
  assume "contains (s @ [c]) ''__''"
  then obtain a b where ab: "s @ [c] = a @ ''__'' @ b" by (auto simp: contains_iff)
  then show False
    using assms by (cases b rule: rev_cases) (auto simp: contains_iff)
qed

lemma stage_loop_ok:
  assumes "stage_ok s" and "length s < max_build_progress_stage_chars" and "sep = (s \<noteq> [] \<and> last s = CHR ''_'')"
  shows "stage_ok (stage_loop s sep bs)"
  using assms
proof (induction bs arbitrary: s sep)
  case (Cons b bs)
  show ?case
  proof (cases "stage_char b")
    case None
    with Cons show ?thesis by simp
  next
    case (Some c)
    show ?thesis
    proof (cases "c = CHR ''_'' \<and> (s = [] \<or> sep)")
      case True
      with Some Cons show ?thesis by simp
    next
      case False
      then have ok: "stage_ok (s @ [c])"
        using Cons.prems stage_char_ok [OF Some] contains_snoc [of s c] by (auto simp: stage_ok_def)
      show ?thesis
      proof (cases "max_build_progress_stage_chars \<le> length (s @ [c])")
        case True
        with Some False ok show ?thesis by (auto simp: Let_def)
      next
        case shorter: False
        with ok Cons.IH [of "s @ [c]" "c = CHR ''_''"] have "stage_ok (stage_loop (s @ [c]) (c = CHR ''_'') bs)" by simp
        with Some False shorter show ?thesis by (auto simp: Let_def simp del: length_append)
      qed
    qed
  qed
qed simp

lemma stage_ok_sub: "stage_ok (a @ s @ b) \<Longrightarrow> stage_ok s"
  unfolding stage_ok_def contains_iff by (auto simp: list_all_iff) (metis append.assoc)

lemma trim_underscores:
  "\<exists>a b. s = a @ trim_end_matches c (trim_start_matches c s) @ b"
proof -
  let ?t = "dropWhile (\<lambda>x. x = c) s"
  have "s = takeWhile (\<lambda>x. x = c) s @ ?t" by simp
  moreover have "?t = rev (dropWhile (\<lambda>x. x = c) (rev ?t)) @ rev (takeWhile (\<lambda>x. x = c) (rev ?t))"
    by (metis rev_append rev_rev_ident takeWhile_dropWhile_id)
  ultimately show ?thesis unfolding trim_end_matches_def trim_start_matches_def by metis
qed

lemma trim_underscores_ends:
  assumes "trim_end_matches c (trim_start_matches c s) \<noteq> []" (is "?r \<noteq> []")
  shows "hd ?r \<noteq> c \<and> last ?r \<noteq> c"
proof -
  let ?t = "dropWhile (\<lambda>x. x = c) s"
  have r: "?r = rev (dropWhile (\<lambda>x. x = c) (rev ?t))" by (simp add: trim_end_matches_def trim_start_matches_def)
  have ne: "dropWhile (\<lambda>x. x = c) (rev ?t) \<noteq> []" using assms by (simp add: r)
  have "last ?r \<noteq> c" using hd_dropWhile_not [OF ne] by (simp add: r last_rev)
  moreover have "?t = ?r @ rev (takeWhile (\<lambda>x. x = c) (rev ?t))"
    unfolding r by (metis rev_append rev_rev_ident takeWhile_dropWhile_id)
  then have "hd ?r = hd ?t" "?t \<noteq> []" using assms by (metis hd_append, metis Nil_is_append_conv)
  then have "hd ?r \<noteq> c" using hd_dropWhile_not [of "\<lambda>x. x = c" s] by simp
  ultimately show ?thesis by simp
qed

section \<open>Errors of the normalisers\<close>

lemma normalize_managed_id_err:
  "normalize_managed_id x f = Inl e \<Longrightarrow>
     e = Validation (f @ '' is required'') \<or> e = Validation (f @ '' must be a safe identifier of 128 characters or fewer'')"
  by (auto simp: normalize_managed_id_def Let_def split: if_splits)

lemma normalize_artifact_type_err:
  "normalize_artifact_type x f = Inl e \<Longrightarrow>
     e = Validation (f @ '' must be one of nixos_closure, netboot_artifact, desktop_image, system_generation'')"
  by (auto simp: normalize_artifact_type_def Let_def split: if_splits)

lemma normalize_sha256_err:
  "normalize_sha256 x f b = Inl e \<Longrightarrow> e = Validation (f @ '' must be a 64-character SHA-256 hex digest'')"
  by (auto simp: normalize_sha256_def Let_def split: if_splits)

lemma build_spec_to_string_err:
  assumes "build_spec_to_string env v t1 t2 t3 t4 t5 = Inl e"
  shows "e = Validation ''build_spec must be a JSON object'' \<or>
    (\<exists>spec err. je_validate_build_spec env spec = Some err \<and> e = Validation err) \<or>
    e = Validation (''build_spec must be '' @ nat_to_str max_cache_metadata_bytes @ '' bytes or fewer'')"
  using assms unfolding build_spec_to_string_def Let_def
  by (auto split: json.splits option.splits if_splits simp del: obj_insert.simps)

lemma metadata_to_string_err:
  assumes "metadata_to_string_with_limit env v f n = Inl e"
  shows "e = Validation (f @ '' must be a JSON object'') \<or>
    (\<exists>m err. je_validate_cache_metadata env m = Some err \<and> e = Validation (f @ '': '' @ err)) \<or>
    e = Validation (f @ '' must be '' @ nat_to_str n @ '' bytes or fewer'')"
  using assms unfolding metadata_to_string_with_limit_def Let_def by (auto split: option.splits if_splits)

section \<open>Properties\<close>

text \<open>C18: a stored progress stage is never empty, has at most 48 characters, all of them lower-case
  letters, digits or single underscores, and neither starts nor ends with an underscore.\<close>

theorem bounded_progress_stage_spec:
  "bounded_progress_stage v \<noteq> [] \<and> stage_ok (bounded_progress_stage v) \<and>
   hd (bounded_progress_stage v) \<noteq> CHR ''_'' \<and> last (bounded_progress_stage v) \<noteq> CHR ''_''"
proof -
  let ?s = "stage_loop [] False (trim v)"
  let ?r = "trim_end_matches CHR ''_'' (trim_start_matches CHR ''_'' ?s)"
  have "stage_ok ?s" by (rule stage_loop_ok) (simp_all add: stage_ok_def max_build_progress_stage_chars_def)
  then have r: "stage_ok ?r" using trim_underscores stage_ok_sub by metis
  show ?thesis
  proof (cases "?r = []")
    case True
    moreover have "stage_ok ''running''" by code_simp
    ultimately show ?thesis by (simp add: bounded_progress_stage_def)
  next
    case False
    with r trim_underscores_ends [OF this] show ?thesis by (simp add: bounded_progress_stage_def Let_def)
  qed
qed

text \<open>C17: what is stored of a build log fits the byte limit, is cut between scalar values, is the
  longest such part of the redacted log, and holds no password hash.\<close>

theorem bounded_log_text_spec:
  "length (bounded_log_text v) \<le> max_build_log_bytes \<and> \<not> contains_modular_password_hash (bounded_log_text v) \<and>
   (\<exists>k. bounded_log_text v = take_chars k (redact_sensitive_key_values v) \<and>
      (k < chars_count (redact_sensitive_key_values v) \<longrightarrow>
         max_build_log_bytes < length (take_chars (Suc k) (redact_sensitive_key_values v))))"
  using bounded_bytes_eq [of "redact_sensitive_key_values v" max_build_log_bytes] bounded_log_no_hash [of v]
  unfolding bounded_log_text_def by blast

theorem bounded_log_text_spec_witness:
  "bounded_log_text ''$6$abc ok'' = ''[REDACTED] ok'' \<and> length (bounded_log_text ''$6$abc ok'') \<le> max_build_log_bytes"
proof -
  have "bounded_log_text ''$6$abc ok'' = ''[REDACTED] ok''" by code_simp
  with bounded_log_text_spec [of "''$6$abc ok''"] show ?thesis by blast
qed

text \<open>C16: every reason for which a managed job is refused maps to its own code of the closed set:
  the generic code is never used for a refusal by these validators.\<close>

theorem rejection_codes_exact:
  assumes "\<And>v err. je_validate_build_spec env v = Some err \<Longrightarrow> contains err ''contains protected material''"
    and "\<And>v err. je_validate_cache_metadata env v = Some err \<Longrightarrow> contains err ''contains protected material''"
  shows "(normalize_managed_id x ''managed_job_id'' = Inl e \<longrightarrow>
      (\<exists>r. e = Validation r \<and> classify_validation_rejection r = ''invalid_job_identity'')) \<and>
    (normalize_artifact_type x ''requested_artifact_type'' = Inl e \<longrightarrow>
      (\<exists>r. e = Validation r \<and> classify_validation_rejection r = ''invalid_artifact_type'')) \<and>
    (normalize_build_target y x = Inl e \<longrightarrow>
      (\<exists>r. e = Validation r \<and> classify_validation_rejection r = ''invalid_target'')) \<and>
    (normalize_build_system x = Inl e \<longrightarrow>
      (\<exists>r. e = Validation r \<and> classify_validation_rejection r = ''invalid_system'')) \<and>
    (normalize_input_revision x = Inl e \<longrightarrow>
      (\<exists>r. e = Validation r \<and> classify_validation_rejection r = ''invalid_input_revision'')) \<and>
    (normalize_sha256 x ''input_config_hash'' False = Inl e \<longrightarrow>
      (\<exists>r. e = Validation r \<and> classify_validation_rejection r = ''invalid_input_config_hash'')) \<and>
    (build_spec_to_string env v t1 t2 t3 t4 t5 = Inl e \<longrightarrow>
      (\<exists>r. e = Validation r \<and> classify_validation_rejection r \<in> {''invalid_build_spec'', ''protected_material''})) \<and>
    (metadata_to_string env v ''cache_metadata'' = Inl e \<longrightarrow>
      (\<exists>r. e = Validation r \<and> classify_validation_rejection r \<in> {''invalid_cache_metadata'', ''protected_material''}))"
proof -
  have pm: "classify_validation_rejection r = ''protected_material''" if "contains r ''contains protected material''" for r
    using that by (simp add: classify_validation_rejection_def rejection_codes_def)
  have pm_app: "contains (a @ r) p" if "contains r p" for a r p
    using that unfolding contains_iff by (metis append.assoc)
  have msgs:
    "classify_validation_rejection (''managed_job_id'' @ '' is required'') = ''invalid_job_identity''"
    "classify_validation_rejection (''managed_job_id'' @ '' must be a safe identifier of 128 characters or fewer'') = ''invalid_job_identity''"
    "classify_validation_rejection (''requested_artifact_type'' @ '' must be one of nixos_closure, netboot_artifact, desktop_image, system_generation'') = ''invalid_artifact_type''"
    "classify_validation_rejection ''target must be a safe build target identifier'' = ''invalid_target''"
    "classify_validation_rejection ''system must be a safe Nix system name such as x86_64-linux'' = ''invalid_system''"
    "classify_validation_rejection ''input_revision is required'' = ''invalid_input_revision''"
    "classify_validation_rejection ''input_revision must be 256 characters or fewer and must not contain control characters'' = ''invalid_input_revision''"
    "classify_validation_rejection (''input_config_hash'' @ '' must be a 64-character SHA-256 hex digest'') = ''invalid_input_config_hash''"
    "classify_validation_rejection ''build_spec must be a JSON object'' = ''invalid_build_spec''"
    "classify_validation_rejection (''build_spec must be '' @ nat_to_str max_cache_metadata_bytes @ '' bytes or fewer'') = ''invalid_build_spec''"
    "classify_validation_rejection (''cache_metadata'' @ '' must be a JSON object'') = ''invalid_cache_metadata''"
    "classify_validation_rejection (''cache_metadata'' @ '' must be '' @ nat_to_str max_cache_metadata_bytes @ '' bytes or fewer'') = ''invalid_cache_metadata''"
    by code_simp+
  have ex: "\<exists>r. e = Validation r \<and> classify_validation_rejection r \<in> S" if "e = Validation r" "classify_validation_rejection r \<in> S" for e r S
    using that by blast
  have one: "\<exists>r. e = Validation r \<and> classify_validation_rejection r = c" if "e = Validation r" "classify_validation_rejection r = c" for e r c
    using that by blast
  show ?thesis
  proof (intro conjI impI)
    assume "normalize_managed_id x ''managed_job_id'' = Inl e"
    from normalize_managed_id_err [OF this] show "\<exists>r. e = Validation r \<and> classify_validation_rejection r = ''invalid_job_identity''"
      by (elim disjE) (rule one, assumption, rule msgs)+
  next
    assume "normalize_artifact_type x ''requested_artifact_type'' = Inl e"
    from normalize_artifact_type_err [OF this] show "\<exists>r. e = Validation r \<and> classify_validation_rejection r = ''invalid_artifact_type''"
      by (rule one) (rule msgs)
  next
    assume "normalize_build_target y x = Inl e"
    then have "e = Validation ''target must be a safe build target identifier''"
      unfolding normalize_build_target_def Let_def by (simp only: sum.inject sum.distinct split: if_splits)
    then show "\<exists>r. e = Validation r \<and> classify_validation_rejection r = ''invalid_target''" by (rule one) (rule msgs)
  next
    assume "normalize_build_system x = Inl e"
    then have "e = Validation ''system must be a safe Nix system name such as x86_64-linux''"
      unfolding normalize_build_system_def Let_def by (simp only: sum.inject sum.distinct split: if_splits)
    then show "\<exists>r. e = Validation r \<and> classify_validation_rejection r = ''invalid_system''" by (rule one) (rule msgs)
  next
    assume "normalize_input_revision x = Inl e"
    then have "e = Validation ''input_revision is required'' \<or>
        e = Validation ''input_revision must be 256 characters or fewer and must not contain control characters''"
      unfolding normalize_input_revision_def Let_def by (simp only: sum.inject sum.distinct simp_thms split: if_splits)
    then show "\<exists>r. e = Validation r \<and> classify_validation_rejection r = ''invalid_input_revision''"
      by (elim disjE) (rule one, assumption, rule msgs)+
  next
    assume "normalize_sha256 x ''input_config_hash'' False = Inl e"
    from normalize_sha256_err [OF this] show "\<exists>r. e = Validation r \<and> classify_validation_rejection r = ''invalid_input_config_hash''"
      by (rule one) (rule msgs)
  next
    assume "build_spec_to_string env v t1 t2 t3 t4 t5 = Inl e"
    from build_spec_to_string_err [OF this]
    show "\<exists>r. e = Validation r \<and> classify_validation_rejection r \<in> {''invalid_build_spec'', ''protected_material''}"
    proof (elim disjE exE conjE)
      fix spec err assume "je_validate_build_spec env spec = Some err" "e = Validation err"
      from this(2) show ?thesis by (rule ex) (rule insertI2, rule singleton_iff [THEN iffD2], rule pm, rule assms(1), fact)
    qed (rule ex, assumption, unfold msgs, rule insertI1)+
  next
    assume "metadata_to_string env v ''cache_metadata'' = Inl e"
    from metadata_to_string_err [OF this [unfolded metadata_to_string_def]]
    show "\<exists>r. e = Validation r \<and> classify_validation_rejection r \<in> {''invalid_cache_metadata'', ''protected_material''}"
    proof (elim disjE exE conjE)
      fix m err assume m: "je_validate_cache_metadata env m = Some err" "e = Validation (''cache_metadata'' @ '': '' @ err)"
      have "contains (''cache_metadata'' @ '': '' @ err) ''contains protected material''"
        by (intro pm_app assms(2)) (rule m)
      with m(2) show ?thesis by (intro ex) (assumption, rule insertI2, rule singleton_iff [THEN iffD2], rule pm)
    qed (rule ex, assumption, unfold msgs, rule insertI1)+
  qed
qed

definition demo_json :: json_env where
  "demo_json =
     \<lparr> je_to_string = (\<lambda>_. ''{}''), je_from_str = (\<lambda>_. Inr (JObj [])),
       je_validate_build_spec = (\<lambda>v. if json_get_str v ''target'' = Some ''bad'' then Some ''build_spec contains protected material'' else None),
       je_validate_cache_metadata = (\<lambda>_. None) \<rparr>"

theorem rejection_codes_exact_witness:
  "normalize_managed_id '' '' ''managed_job_id'' = Inl (Validation ''managed_job_id is required'') \<and>
   (\<exists>r. Validation ''managed_job_id is required'' = Validation r \<and> classify_validation_rejection r = ''invalid_job_identity'')"
proof -
  have b: "normalize_managed_id '' '' ''managed_job_id'' = Inl (Validation ''managed_job_id is required'')" by code_simp
  have c: "contains ''build_spec contains protected material'' ''contains protected material''" by code_simp
  have h1: "contains err ''contains protected material''" if "je_validate_build_spec demo_json v = Some err" for v err
  proof -
    have e: "err = ''build_spec contains protected material''"
      using that unfolding demo_json_def by (simp only: json_env.simps option.inject option.distinct split: if_splits)
    show ?thesis unfolding e by (rule c)
  qed
  have h2: "contains err ''contains protected material''" if "je_validate_cache_metadata demo_json v = Some err" for v err
    using that unfolding demo_json_def by (simp only: json_env.simps option.distinct)
  note spec = rejection_codes_exact [of demo_json "'' ''" "Validation ''managed_job_id is required''", OF h1 h2]
  show ?thesis by (rule conjI [OF b]) (rule mp [OF conjunct1 [OF spec] b])
qed

end
