(* ===== verification/Nest_Build_Queue.thy ===== *)
theory Nest_Build_Queue
  imports Nest_Validate Nest_Db "HOL-Library.Multiset"
begin

text \<open>
  The build queue of \<^verbatim>\<open>src/src/db.rs\<close>: the rows of \<^verbatim>\<open>nest_build_jobs\<close> and of the ledger of
  quarantined builds, and every operation on them. The artifacts, their protections and the
  inventory generation are tables of the same store. Rows hold the JSON text of their documents;
  reading a job parses it. \<^verbatim>\<open>now\<close> is the instant \<^verbatim>\<open>now_rfc3339\<close> returns, \<open>sha256_hex\<close> the
  hexadecimal digest. The \<^verbatim>\<open>CHECK\<close> on the status column is part of the invariant: no statement
  writes another value.
\<close>

section \<open>Rows\<close>

record job_row =
  jr_id :: int
  jr_managed_job_id :: "str option"
  jr_requested_artifact_type :: str
  jr_build_spec :: str
  jr_target :: str
  jr_system :: str
  jr_input_revision :: str
  jr_input_config_hash :: str
  jr_status :: str
  jr_progress_percent :: "int option"
  jr_progress_stage :: "str option"
  jr_progress_message :: "str option"
  jr_logs :: str
  jr_error :: str
  jr_rejection_code :: str
  jr_output_path :: str
  jr_output_sha256 :: str
  jr_output_size_bytes :: int
  jr_exit_code :: "int option"
  jr_cache_metadata :: str
  jr_started_at :: "str option"
  jr_completed_at :: "str option"
  jr_cancel_requested_at :: "str option"
  jr_created_at :: str
  jr_updated_at :: str

record remediation =
  rem_job_id :: int
  rem_managed_job_id :: "str option"
  rem_original_status :: str
  rem_rule :: str
  rem_build_spec_sha256 :: str
  rem_cache_purge_status :: str
  rem_created_at :: str
  rem_updated_at :: str
  rem_purged_at :: "str option"

record artifact_row =
  ar_id :: int
  ar_managed_artifact_id :: "str option"
  ar_artifact_type :: str
  ar_hash :: str
  ar_size_bytes :: int
  ar_path :: str
  ar_store_path :: str
  ar_narinfo_path :: str
  ar_nar_url :: str
  ar_file_hash :: str
  ar_nar_hash :: str
  ar_nar_size_bytes :: int
  ar_closure_size_bytes :: int
  ar_closure_file_size_bytes :: int
  ar_compression :: str
  ar_references_json :: str
  ar_serving_url :: str
  ar_source_build_job_id :: "str option"
  ar_cache_metadata :: str
  ar_verification_status :: str
  ar_last_verified_at :: "str option"
  ar_created_at :: str
  ar_updated_at :: str

record cache_protection =
  cp_artifact_type :: str
  cp_hash :: str
  cp_updated_at :: str

record cache_inventory =
  inv_instance_id :: str
  inv_generation :: int

record build_store =
  bs_jobs :: "job_row list"
  bs_job_seq :: int
  bs_remediations :: "remediation list"
  bs_artifacts :: "artifact_row list"
  bs_artifact_seq :: int
  bs_inventory :: cache_inventory
  bs_protections :: "cache_protection list"

type_synonym 'a build_db = "(build_store, 'a) db"

definition job_of_row :: "json_env \<Rightarrow> job_row \<Rightarrow> build_job app_result" where
  "job_of_row env row =
     rbind (metadata_from_db env (jr_build_spec row) ''build job build_spec'') (\<lambda>build_spec.
     rbind (metadata_from_db env (jr_cache_metadata row) ''build job cache_metadata'') (\<lambda>cache_metadata.
     Inr \<lparr> job_id = jr_id row, job_managed_job_id = jr_managed_job_id row,
           job_requested_artifact_type = jr_requested_artifact_type row, job_build_spec = build_spec,
           job_target = jr_target row, job_system = jr_system row, job_input_revision = jr_input_revision row,
           job_input_config_hash = jr_input_config_hash row, job_status = jr_status row,
           job_progress_percent = jr_progress_percent row, job_progress_stage = jr_progress_stage row,
           job_progress_message = jr_progress_message row, job_logs = jr_logs row, job_error = jr_error row,
           job_rejection_code = jr_rejection_code row, job_output_path = jr_output_path row,
           job_output_sha256 = jr_output_sha256 row, job_output_size_bytes = jr_output_size_bytes row,
           job_exit_code = jr_exit_code row, job_cache_metadata = cache_metadata,
           job_started_at = jr_started_at row, job_completed_at = jr_completed_at row,
           job_cancel_requested_at = jr_cancel_requested_at row, job_created_at = jr_created_at row,
           job_updated_at = jr_updated_at row \<rparr>))"

text \<open>A row as \<^verbatim>\<open>INSERT\<close> leaves it: the defaults of the schema and a queued status.\<close>

definition new_job_row :: "str \<Rightarrow> int \<Rightarrow> job_row" where
  "new_job_row now i =
     \<lparr> jr_id = i, jr_managed_job_id = None, jr_requested_artifact_type = [], jr_build_spec = ''{}'', jr_target = [],
       jr_system = [], jr_input_revision = [], jr_input_config_hash = [], jr_status = ''queued'',
       jr_progress_percent = None, jr_progress_stage = None, jr_progress_message = None, jr_logs = [], jr_error = [],
       jr_rejection_code = [], jr_output_path = [], jr_output_sha256 = [], jr_output_size_bytes = 0,
       jr_exit_code = None, jr_cache_metadata = ''{}'', jr_started_at = None, jr_completed_at = None,
       jr_cancel_requested_at = None, jr_created_at = now, jr_updated_at = now \<rparr>"

section \<open>Statements\<close>

definition insert_job :: "(int \<Rightarrow> job_row) \<Rightarrow> int build_db" where
  "insert_job mk s =
     (let i = bs_job_seq s + 1 in (Inr i, s \<lparr> bs_jobs := bs_jobs s @ [mk i], bs_job_seq := i \<rparr>))"

text \<open>\<^verbatim>\<open>UPDATE ... WHERE\<close>, with the number of rows it changed.\<close>

definition update_jobs :: "(build_store \<Rightarrow> job_row \<Rightarrow> bool) \<Rightarrow> (job_row \<Rightarrow> job_row) \<Rightarrow> nat build_db" where
  "update_jobs p f s =
     (Inr (count_where (p s) (bs_jobs s)), s \<lparr> bs_jobs := update_where (p s) f (bs_jobs s) \<rparr>)"

definition remediated :: "build_store \<Rightarrow> int \<Rightarrow> bool" where
  "remediated s i = list_ex (\<lambda>r. rem_job_id r = i) (bs_remediations s)"

section \<open>Reading\<close>

definition get_build_job :: "json_env \<Rightarrow> int \<Rightarrow> build_job build_db" where
  "get_build_job env i =
     db_bind (db_get (\<lambda>s. find (\<lambda>r. jr_id r = i) (bs_jobs s))) (\<lambda>row.
     db_bind (db_lift (ok_or row NotFound)) (\<lambda>row. db_lift (job_of_row env row)))"

definition get_build_job_by_managed_id :: "json_env \<Rightarrow> str \<Rightarrow> build_job build_db" where
  "get_build_job_by_managed_id env managed_job_id =
     db_bind (db_get (\<lambda>s. find (\<lambda>r. jr_managed_job_id r = Some managed_job_id) (bs_jobs s))) (\<lambda>row.
     db_bind (db_lift (ok_or row NotFound)) (\<lambda>row. db_lift (job_of_row env row)))"

definition build_job_rows_to_models :: "json_env \<Rightarrow> job_row list \<Rightarrow> build_job list app_result" where
  "build_job_rows_to_models env rows = rcollect (map (job_of_row env) rows)"

definition list_build_jobs :: "json_env \<Rightarrow> build_job list build_db" where
  "list_build_jobs env =
     db_bind (db_get (\<lambda>s. order_desc (\<lambda>r. (jr_created_at r, jr_id r)) (bs_jobs s))) (\<lambda>rows.
     db_lift (build_job_rows_to_models env rows))"

definition active_build_job_count :: "nat build_db" where
  "active_build_job_count = db_get (\<lambda>s. count_where (\<lambda>r. jr_status r \<in> {''queued'', ''running''}) (bs_jobs s))"

definition build_job_cancel_requested :: "int \<Rightarrow> bool build_db" where
  "build_job_cancel_requested i =
     db_bind (db_get (\<lambda>s. find (\<lambda>r. jr_id r = i) (bs_jobs s))) (\<lambda>row.
     db_ret (case row of
               Some r \<Rightarrow> jr_status r = ''cancelled'' \<or>
                         (case jr_cancel_requested_at r of Some v \<Rightarrow> v \<noteq> [] | None \<Rightarrow> False)
             | None \<Rightarrow> True))"

section \<open>Reports\<close>

text \<open>SQLite's \<^verbatim>\<open>LENGTH\<close> of a text: its scalar values before the first NUL.\<close>

definition sql_length :: "str \<Rightarrow> nat" where
  "sql_length s = chars_count (takeWhile (\<lambda>c. c \<noteq> CHR 0x00) s)"

definition sql_length_opt :: "str option \<Rightarrow> nat" where
  "sql_length_opt s = (case s of Some v \<Rightarrow> sql_length v | None \<Rightarrow> 0)"

definition report_group :: "job_row \<Rightarrow> nat" where
  "report_group r =
     (if jr_status r \<notin> {''succeeded'', ''failed'', ''cancelled''} then 0
      else if jr_rejection_code r \<noteq> [] then 1 else 2)"

definition estimated_bytes :: "job_row \<Rightarrow> nat" where
  "estimated_bytes r =
     2048 + 4 * (sql_length_opt (jr_managed_job_id r) + sql_length (jr_requested_artifact_type r) +
       sql_length (jr_build_spec r) + sql_length (jr_target r) + sql_length (jr_system r) +
       sql_length (jr_input_revision r) + sql_length (jr_input_config_hash r) + sql_length (jr_status r) +
       sql_length_opt (jr_progress_stage r) + sql_length_opt (jr_progress_message r) + sql_length (jr_logs r) +
       sql_length (jr_error r) + sql_length (jr_rejection_code r) + sql_length (jr_output_path r) +
       sql_length (jr_output_sha256 r) + sql_length (jr_cache_metadata r) + sql_length_opt (jr_started_at r) +
       sql_length_opt (jr_completed_at r) + sql_length_opt (jr_cancel_requested_at r) +
       sql_length (jr_created_at r) + sql_length (jr_updated_at r))"

definition wrap_group :: "int option \<Rightarrow> job_row \<Rightarrow> nat" where
  "wrap_group cursor r = (case cursor of None \<Rightarrow> 0 | Some c \<Rightarrow> if jr_id r < c then 0 else 1)"

text \<open>The managed jobs of one group, from its cursor down and then around.\<close>

definition rotated_group :: "int option \<Rightarrow> nat \<Rightarrow> job_row list \<Rightarrow> job_row list" where
  "rotated_group cursor g rows =
     sort_key (\<lambda>r. (wrap_group cursor r, - jr_id r))
       (filter (\<lambda>r. jr_managed_job_id r \<noteq> None \<and> report_group r = g) rows)"

definition group_priority :: "nat \<Rightarrow> nat \<Rightarrow> nat" where
  "group_priority round g =
     (if round mod 4 = 1 then (if g = 2 then 0 else if g = 1 then 1 else 2)
      else if round mod 4 = 2 then (if g = 1 then 0 else if g = 0 then 1 else 2)
      else g)"

text \<open>Position within the group first, then the group's priority in this round.\<close>

definition ranked_jobs :: "int option \<Rightarrow> int option \<Rightarrow> int option \<Rightarrow> nat \<Rightarrow> job_row list \<Rightarrow> job_row list" where
  "ranked_jobs active_cursor rejection_cursor terminal_cursor round rows =
     map snd (sort_key (\<lambda>((position, g), r). (position, group_priority round g))
       (concat (map (\<lambda>(g, cursor). map (\<lambda>(i, r). ((i, g), r)) (enumerate 1 (rotated_group cursor g rows)))
          [(0, active_cursor), (1, rejection_cursor), (2, terminal_cursor)])))"

text \<open>The rows of a page: the first, and those within both limits.\<close>

definition page_of :: "('r \<Rightarrow> nat) \<Rightarrow> nat \<Rightarrow> nat \<Rightarrow> 'r list \<Rightarrow> 'r list" where
  "page_of bytes max_items budget rows =
     map (\<lambda>(i, r). r) (filter (\<lambda>(i, r). i = 1 \<or> i \<le> max_items \<and> sum_list (map bytes (take i rows)) \<le> budget)
       (enumerate 1 rows))"

definition clamp_limit :: "nat \<Rightarrow> nat" where
  "clamp_limit n = min (max n 1) (2 ^ 63 - 1)"

definition list_build_jobs_report_page ::
  "json_env \<Rightarrow> int option \<Rightarrow> int option \<Rightarrow> int option \<Rightarrow> u8 \<Rightarrow> nat \<Rightarrow> nat \<Rightarrow> build_job list build_db" where
  "list_build_jobs_report_page env active_cursor rejection_cursor terminal_cursor priority_round max_items budget =
     db_bind (db_get (\<lambda>s. page_of estimated_bytes (clamp_limit max_items) (clamp_limit budget)
                 (ranked_jobs active_cursor rejection_cursor terminal_cursor (unat priority_round) (bs_jobs s)))) (\<lambda>rows.
     db_lift (build_job_rows_to_models env rows))"

section \<open>Enqueueing\<close>

definition waiting_message :: str where
  "waiting_message = ''Waiting for Nest to claim the build''"

definition create_build_job :: "json_env \<Rightarrow> str \<Rightarrow> create_build_job_request \<Rightarrow> build_job build_db" where
  "create_build_job env now input =
     db_bind (db_lift (normalize_artifact_type (cbj_requested_artifact_type input) ''requested_artifact_type'')) (\<lambda>artifact_type.
     db_bind (db_lift (normalize_build_target (cbj_target input) artifact_type)) (\<lambda>target.
     db_bind (db_lift (normalize_build_system (case cbj_system input of Some v \<Rightarrow> v | None \<Rightarrow> ''x86_64-linux''))) (\<lambda>system.
     db_bind (db_lift (normalize_input_revision (cbj_input_revision input))) (\<lambda>input_revision.
     db_bind (db_lift (normalize_sha256 (cbj_input_config_hash input) ''input_config_hash'' False)) (\<lambda>input_config_hash.
     db_bind (db_lift (build_spec_to_string env (cbj_build_spec input) artifact_type target system input_revision
                         input_config_hash)) (\<lambda>build_spec.
     db_bind (db_lift (metadata_to_string env (cbj_cache_metadata input) ''cache_metadata'')) (\<lambda>cache_metadata.
     db_bind (insert_job (\<lambda>i. (new_job_row now i)
                \<lparr> jr_requested_artifact_type := artifact_type, jr_build_spec := build_spec, jr_target := target,
                  jr_system := system, jr_input_revision := input_revision, jr_input_config_hash := input_config_hash,
                  jr_progress_percent := Some 0, jr_progress_stage := Some ''queued'',
                  jr_progress_message := Some waiting_message, jr_cache_metadata := cache_metadata \<rparr>)) (\<lambda>i.
     get_build_job env i))))))))"

text \<open>\<^verbatim>\<open>ON CONFLICT(managed_job_id) DO UPDATE\<close>: only a queued row takes the new inputs, and a
  running one the new metadata.\<close>

definition merge_job :: "str \<Rightarrow> job_row \<Rightarrow> job_row \<Rightarrow> job_row" where
  "merge_job now new old =
     (let q = (jr_status old = ''queued'')
      in old \<lparr> jr_requested_artifact_type := (if q then jr_requested_artifact_type new else jr_requested_artifact_type old),
               jr_build_spec := (if q then jr_build_spec new else jr_build_spec old),
               jr_target := (if q then jr_target new else jr_target old),
               jr_system := (if q then jr_system new else jr_system old),
               jr_input_revision := (if q then jr_input_revision new else jr_input_revision old),
               jr_input_config_hash := (if q then jr_input_config_hash new else jr_input_config_hash old),
               jr_progress_percent := (if q then jr_progress_percent new else jr_progress_percent old),
               jr_progress_stage := (if q then jr_progress_stage new else jr_progress_stage old),
               jr_progress_message := (if q then jr_progress_message new else jr_progress_message old),
               jr_cache_metadata := (if q \<or> jr_status old = ''running'' then jr_cache_metadata new
                                     else jr_cache_metadata old),
               jr_updated_at := now \<rparr>)"

definition upsert_job :: "str \<Rightarrow> (int \<Rightarrow> job_row) \<Rightarrow> (job_row \<Rightarrow> job_row \<Rightarrow> job_row) \<Rightarrow> unit build_db" where
  "upsert_job managed_job_id mk merge =
     db_bind (db_get (\<lambda>s. (list_ex (\<lambda>r. jr_managed_job_id r = Some managed_job_id) (bs_jobs s), bs_job_seq s + 1)))
       (\<lambda>(present, i).
          if present then db_then (update_jobs (\<lambda>_ r. jr_managed_job_id r = Some managed_job_id) (merge (mk i))) (db_ret ())
          else db_then (insert_job mk) (db_ret ()))"

definition upsert_managed_build_job ::
  "json_env \<Rightarrow> str \<Rightarrow> str \<Rightarrow> str \<Rightarrow> json option \<Rightarrow> str option \<Rightarrow> str option \<Rightarrow> str \<Rightarrow> str \<Rightarrow> json option \<Rightarrow>
     build_job build_db" where
  "upsert_managed_build_job env now managed_job_id requested_artifact_type build_spec target system input_revision
     input_config_hash cache_metadata =
     db_bind (db_lift (normalize_managed_id managed_job_id ''managed_job_id'')) (\<lambda>managed_job_id.
     db_bind (db_lift (normalize_artifact_type requested_artifact_type ''requested_artifact_type'')) (\<lambda>artifact_type.
     db_bind (db_lift (normalize_build_target target artifact_type)) (\<lambda>target.
     db_bind (db_lift (normalize_build_system (case system of Some v \<Rightarrow> v | None \<Rightarrow> ''x86_64-linux''))) (\<lambda>system.
     db_bind (db_lift (normalize_input_revision input_revision)) (\<lambda>input_revision.
     db_bind (db_lift (normalize_sha256 input_config_hash ''input_config_hash'' False)) (\<lambda>input_config_hash.
     db_bind (db_lift (build_spec_to_string env build_spec artifact_type target system input_revision
                         input_config_hash)) (\<lambda>build_spec.
     db_bind (db_lift (metadata_to_string env cache_metadata ''cache_metadata'')) (\<lambda>cache_metadata.
     db_then (upsert_job managed_job_id
                (\<lambda>i. (new_job_row now i)
                   \<lparr> jr_managed_job_id := Some managed_job_id, jr_requested_artifact_type := artifact_type,
                     jr_build_spec := build_spec, jr_target := target, jr_system := system,
                     jr_input_revision := input_revision, jr_input_config_hash := input_config_hash,
                     jr_progress_percent := Some 0, jr_progress_stage := Some ''queued'',
                     jr_progress_message := Some waiting_message, jr_cache_metadata := cache_metadata \<rparr>)
                (merge_job now))
     (get_build_job_by_managed_id env managed_job_id)))))))))"

definition merge_rejection :: "str \<Rightarrow> job_row \<Rightarrow> job_row \<Rightarrow> job_row" where
  "merge_rejection now new old =
     (if jr_status old \<noteq> ''queued'' then old
      else old \<lparr> jr_status := ''failed'', jr_progress_percent := Some 100, jr_progress_stage := Some ''failed'',
                 jr_progress_message := jr_progress_message new, jr_error := jr_error new,
                 jr_rejection_code := jr_rejection_code new,
                 jr_completed_at := (case jr_completed_at old of Some t \<Rightarrow> Some t | None \<Rightarrow> Some now),
                 jr_updated_at := now \<rparr>)"

definition opt_text :: "str option \<Rightarrow> str" where
  "opt_text v = (case v of Some s \<Rightarrow> s | None \<Rightarrow> [])"

definition record_rejected_managed_build_job ::
  "str \<Rightarrow> str \<Rightarrow> str \<Rightarrow> str option \<Rightarrow> str option \<Rightarrow> str \<Rightarrow> str \<Rightarrow> str \<Rightarrow> unit build_db" where
  "record_rejected_managed_build_job now managed_job_id requested_artifact_type target system input_revision
     input_config_hash reason =
     db_bind (db_lift (normalize_managed_id managed_job_id ''managed_job_id'')) (\<lambda>managed_job_id.
     let error = ''Nest rejected this build job: '' @ reason
     in upsert_job managed_job_id
          (\<lambda>i. (new_job_row now i)
             \<lparr> jr_managed_job_id := Some managed_job_id,
               jr_requested_artifact_type := sanitize_report_field requested_artifact_type 64 ''unknown'',
               jr_target := sanitize_report_field (opt_text target) 64 [],
               jr_system := sanitize_report_field (opt_text system) 64 ''x86_64-linux'',
               jr_input_revision := sanitize_report_field input_revision 256 [],
               jr_input_config_hash := sanitize_report_field input_config_hash 64 [],
               jr_status := ''failed'', jr_progress_percent := Some 100, jr_progress_stage := Some ''failed'',
               jr_progress_message := Some (truncate_chars ''Rejected by Nest validation'' 256),
               jr_error := truncate_chars error 2048,
               jr_rejection_code := classify_validation_rejection reason,
               jr_completed_at := Some now \<rparr>)
          (merge_rejection now))"

section \<open>Cancelling\<close>

text \<open>The \<^verbatim>\<open>SET\<close> of both cancellations.\<close>

definition cancel_row :: "str \<Rightarrow> job_row \<Rightarrow> job_row" where
  "cancel_row now r =
     (let q = (jr_status r = ''queued'')
      in r \<lparr> jr_status := (if q then ''cancelled'' else jr_status r),
             jr_progress_percent := Some (if q then 100 else (case jr_progress_percent r of Some p \<Rightarrow> p | None \<Rightarrow> 5)),
             jr_progress_stage := Some (if q then ''cancelled'' else ''cancelling''),
             jr_progress_message := Some (if q then ''Build cancelled before start''
                                          else ''Cancellation requested; waiting for Nest to stop the build''),
             jr_cancel_requested_at := (if jr_status r = ''running'' then Some now else jr_cancel_requested_at r),
             jr_completed_at := (if q then Some now else jr_completed_at r),
             jr_updated_at := now \<rparr>)"

definition cancel_listed_job :: "str \<Rightarrow> int \<Rightarrow> unit build_db" where
  "cancel_listed_job now i = db_then (update_jobs (\<lambda>_ r. jr_id r = i) (cancel_row now)) (db_ret ())"

fun cancel_listed :: "str \<Rightarrow> str list \<Rightarrow> build_job list \<Rightarrow> nat \<Rightarrow> nat build_db" where
  "cancel_listed now retained [] cancelled = db_ret cancelled"
| "cancel_listed now retained (job # jobs) cancelled =
     (case job_managed_job_id job of
        None \<Rightarrow> cancel_listed now retained jobs cancelled
      | Some managed_job_id \<Rightarrow>
          (if managed_job_id \<in> set retained \<or> job_status job \<notin> {''queued'', ''running''}
           then cancel_listed now retained jobs cancelled
           else db_then (cancel_listed_job now (job_id job)) (cancel_listed now retained jobs (cancelled + 1))))"

definition cancel_absent_managed_build_jobs :: "json_env \<Rightarrow> str \<Rightarrow> str list \<Rightarrow> nat build_db" where
  "cancel_absent_managed_build_jobs env now retained_managed_job_ids =
     db_bind (list_build_jobs env) (\<lambda>current. cancel_listed now retained_managed_job_ids current 0)"

fun cancel_managed_build_jobs :: "str \<Rightarrow> str list \<Rightarrow> nat build_db" where
  "cancel_managed_build_jobs now [] = db_ret 0"
| "cancel_managed_build_jobs now (managed_job_id # ids) =
     db_bind (db_lift (normalize_managed_id managed_job_id ''managed_job_id'')) (\<lambda>managed_job_id.
     db_bind (update_jobs (\<lambda>_ r. jr_managed_job_id r = Some managed_job_id \<and> jr_status r \<in> {''queued'', ''running''})
                (cancel_row now)) (\<lambda>affected.
     db_bind (cancel_managed_build_jobs now ids) (\<lambda>n. db_ret (affected + n))))"

section \<open>Running\<close>

definition fail_row :: "str \<Rightarrow> str \<Rightarrow> str \<Rightarrow> job_row \<Rightarrow> job_row" where
  "fail_row now message error r =
     r \<lparr> jr_status := ''failed'', jr_progress_percent := Some 100, jr_progress_stage := Some ''failed'',
         jr_progress_message := Some message, jr_error := error, jr_completed_at := Some now, jr_updated_at := now \<rparr>"

definition recover_running_build_jobs :: "str \<Rightarrow> str \<Rightarrow> nat build_db" where
  "recover_running_build_jobs now reason =
     update_jobs (\<lambda>_ r. jr_status r = ''running'')
       (fail_row now ''Build interrupted by Nest restart recovery'' (bounded_error_text reason))"

definition fail_running_build_job_after_worker_error :: "str \<Rightarrow> int \<Rightarrow> str \<Rightarrow> bool build_db" where
  "fail_running_build_job_after_worker_error now i reason =
     db_bind (update_jobs (\<lambda>_ r. jr_id r = i \<and> jr_status r = ''running'')
                (fail_row now ''Build stopped safely after an internal worker error'' (bounded_error_text reason)))
       (\<lambda>affected. db_ret (0 < affected))"

definition claim_row :: "str \<Rightarrow> job_row \<Rightarrow> job_row" where
  "claim_row now r =
     r \<lparr> jr_status := ''running'', jr_progress_percent := Some 5, jr_progress_stage := Some ''claimed'',
         jr_progress_message := Some ''Build claimed by Nest'',
         jr_started_at := (case jr_started_at r of Some t \<Rightarrow> Some t | None \<Rightarrow> Some now),
         jr_cancel_requested_at := None, jr_logs := [], jr_error := [], jr_updated_at := now \<rparr>"

definition next_queued :: "build_store \<Rightarrow> job_row option" where
  "next_queued s =
     (case sort_key (\<lambda>r. (jr_created_at r, jr_id r)) (filter (\<lambda>r. jr_status r = ''queued'') (bs_jobs s)) of
        [] \<Rightarrow> None | r # _ \<Rightarrow> Some r)"

definition claim_next_build_job :: "json_env \<Rightarrow> str \<Rightarrow> build_job option build_db" where
  "claim_next_build_job env now =
     db_bind (db_get next_queued) (\<lambda>queued.
       case queued of
         None \<Rightarrow> db_ret None
       | Some r \<Rightarrow>
           db_then (update_jobs (\<lambda>_ x. jr_id x = jr_id r) (claim_row now))
             (db_bind (db_lift (job_of_row env (claim_row now r))) (\<lambda>job. db_ret (Some job))))"

definition update_build_job_logs :: "str \<Rightarrow> int \<Rightarrow> str \<Rightarrow> unit build_db" where
  "update_build_job_logs now i logs =
     db_then (update_jobs (\<lambda>_ r. jr_id r = i \<and> jr_status r = ''running'')
                (\<lambda>r. r \<lparr> jr_logs := bounded_log_text logs, jr_updated_at := now \<rparr>)) (db_ret ())"

definition update_build_job_progress :: "str \<Rightarrow> int \<Rightarrow> int option \<Rightarrow> str \<Rightarrow> str \<Rightarrow> unit build_db" where
  "update_build_job_progress now i progress_percent progress_stage progress_message =
     db_then (update_jobs (\<lambda>_ r. jr_id r = i \<and> jr_status r = ''running'')
                (\<lambda>r. r \<lparr> jr_progress_percent := normalize_build_progress_percent progress_percent ''running'',
                         jr_progress_stage := Some (bounded_progress_stage progress_stage),
                         jr_progress_message := Some (bounded_progress_message progress_message),
                         jr_updated_at := now \<rparr>)) (db_ret ())"

definition finish_row ::
  "str \<Rightarrow> str \<Rightarrow> str \<Rightarrow> str \<Rightarrow> str \<Rightarrow> str \<Rightarrow> int \<Rightarrow> int option \<Rightarrow> str \<Rightarrow> str \<Rightarrow> str \<Rightarrow> str \<Rightarrow> job_row \<Rightarrow> job_row" where
  "finish_row now status logs error output_path output_sha256 output_size_bytes exit_code cancelled_metadata
     cache_metadata progress_stage progress_message r =
     (let c = (jr_cancel_requested_at r \<noteq> None \<and> status \<noteq> ''cancelled'')
      in r \<lparr> jr_status := (if c then ''cancelled'' else status),
             jr_logs := logs,
             jr_error := (if c then ''build cancelled by Tiaris'' else error),
             jr_output_path := (if c then [] else output_path),
             jr_output_sha256 := (if c then [] else output_sha256),
             jr_output_size_bytes := (if c then 0 else output_size_bytes),
             jr_exit_code := (if c then None else exit_code),
             jr_cache_metadata := (if c then cancelled_metadata else cache_metadata),
             jr_progress_percent := Some 100,
             jr_progress_stage := Some (if c then ''cancelled'' else progress_stage),
             jr_progress_message := Some (if c then ''Build cancelled by Tiaris'' else progress_message),
             jr_completed_at := Some now, jr_updated_at := now \<rparr>)"

definition finish_build_job ::
  "json_env \<Rightarrow> str \<Rightarrow> int \<Rightarrow> str \<Rightarrow> str \<Rightarrow> str \<Rightarrow> str \<Rightarrow> str \<Rightarrow> int \<Rightarrow> int option \<Rightarrow> json option \<Rightarrow> build_job build_db" where
  "finish_build_job env now i status logs error output_path output_sha256 output_size_bytes exit_code cache_metadata =
     db_then (db_lift (validate_terminal_build_status status))
     (let logs = bounded_log_text logs; error = bounded_error_text error
      in db_bind (db_lift (normalize_optional_absolute_path output_path ''output_path'')) (\<lambda>output_path.
         db_bind (db_lift (normalize_sha256 output_sha256 ''output_sha256'' True)) (\<lambda>output_sha256.
         db_then (db_lift (validate_non_negative_i64 output_size_bytes ''output_size_bytes''))
         (let progress_message = terminal_build_progress_message status cache_metadata
          in db_bind (db_lift (metadata_to_string env cache_metadata ''cache_metadata'')) (\<lambda>cache_metadata.
             db_bind (db_lift (metadata_to_string env (Some (JObj [(''cancelled'', JBool True)])) ''cache_metadata''))
               (\<lambda>cancelled_metadata.
             db_then (update_jobs (\<lambda>s r. jr_id r = i \<and> \<not> remediated s (jr_id r))
                        (finish_row now status logs error output_path output_sha256 output_size_bytes exit_code
                           cancelled_metadata cache_metadata (terminal_build_progress_stage status) progress_message))
             (get_build_job env i)))))))"

definition update_build_job_report ::
  "json_env \<Rightarrow> str \<Rightarrow> str \<Rightarrow> str \<Rightarrow> int option \<Rightarrow> str option \<Rightarrow> str option \<Rightarrow> str \<Rightarrow> str \<Rightarrow> str \<Rightarrow> str \<Rightarrow> int \<Rightarrow> str option \<Rightarrow>
     str option \<Rightarrow> json option \<Rightarrow> build_job build_db" where
  "update_build_job_report env now managed_job_id status progress_percent progress_stage progress_message logs error
     output_path output_sha256 output_size_bytes started_at completed_at cache_metadata =
     db_bind (db_lift (normalize_managed_id managed_job_id ''managed_job_id'')) (\<lambda>managed_job_id.
     db_then (db_lift (validate_build_status status))
     (let logs = bounded_log_text logs; error = bounded_error_text error
      in db_bind (db_lift (normalize_optional_absolute_path output_path ''output_path'')) (\<lambda>output_path.
         db_bind (db_lift (normalize_sha256 output_sha256 ''output_sha256'' True)) (\<lambda>output_sha256.
         db_then (db_lift (validate_non_negative_i64 output_size_bytes ''output_size_bytes''))
         (db_then (db_lift (validate_optional_timestamp started_at ''started_at''))
         (db_then (db_lift (validate_optional_timestamp completed_at ''completed_at''))
         (db_bind (db_lift (metadata_to_string env cache_metadata ''cache_metadata'')) (\<lambda>cache_metadata.
          db_then (update_jobs (\<lambda>s r. jr_managed_job_id r = Some managed_job_id \<and> \<not> remediated s (jr_id r))
                     (\<lambda>r. r \<lparr> jr_status := status,
                              jr_progress_percent := normalize_build_progress_percent progress_percent status,
                              jr_progress_stage := map_option bounded_progress_stage progress_stage,
                              jr_progress_message := map_option bounded_progress_message progress_message,
                              jr_logs := logs, jr_error := error, jr_output_path := output_path,
                              jr_output_sha256 := output_sha256, jr_output_size_bytes := output_size_bytes,
                              jr_started_at := started_at, jr_completed_at := completed_at,
                              jr_cache_metadata := cache_metadata, jr_updated_at := now \<rparr>))
          (get_build_job_by_managed_id env managed_job_id)))))))))"

section \<open>Quarantine\<close>

definition quarantine_reason :: str where
  "quarantine_reason = ''protected reusable input removed during Nest upgrade''"

definition safe_spec :: json where
  "safe_spec = obj_of [(''schema_version'', JNum 1), (''security_quarantine'', JStr quarantine_reason)]"

definition safe_metadata :: "str \<Rightarrow> json" where
  "safe_metadata status =
     JObj [(''security_quarantine'', obj_of [(''status'', JStr status), (''reason'', JStr quarantine_reason),
        (''scope'', JStr ''static_binary_cache''), (''store_gc'', JStr ''operator_managed'')])]"

definition quarantine_error :: str where
  "quarantine_error = ''Build quarantined because reusable input failed the protected-material boundary''"

definition quarantine_row :: "json_env \<Rightarrow> str \<Rightarrow> job_row \<Rightarrow> job_row" where
  "quarantine_row env now r =
     r \<lparr> jr_build_spec := je_to_string env safe_spec,
         jr_cache_metadata := je_to_string env (safe_metadata ''pending_purge''),
         jr_status := ''failed'', jr_progress_percent := Some 100, jr_progress_stage := Some ''failed'',
         jr_progress_message := Some ''Build quarantined during Nest security upgrade'',
         jr_logs := [], jr_error := quarantine_error,
         jr_completed_at := (case jr_completed_at r of Some t \<Rightarrow> Some t | None \<Rightarrow> Some now), jr_updated_at := now \<rparr>"

definition quarantine_rule :: "bool \<Rightarrow> bool \<Rightarrow> str" where
  "quarantine_rule protected_spec protected_metadata =
     (if protected_spec \<and> protected_metadata then ''protected_build_spec_and_cache_metadata''
      else if protected_spec then ''protected_build_spec'' else ''protected_cache_metadata'')"

text \<open>The two statements of one quarantine, in a transaction.\<close>

definition quarantine_job :: "json_env \<Rightarrow> (str \<Rightarrow> str) \<Rightarrow> str \<Rightarrow> str \<Rightarrow> job_row \<Rightarrow> unit build_db" where
  "quarantine_job env sha256_hex now rule row =
     db_transaction
       (db_then (\<lambda>s. (Inr (), if remediated s (jr_id row) then s
                              else s \<lparr> bs_remediations := bs_remediations s @
                                [\<lparr> rem_job_id = jr_id row, rem_managed_job_id = jr_managed_job_id row,
                                   rem_original_status = jr_status row, rem_rule = rule,
                                   rem_build_spec_sha256 = sha256_hex (jr_build_spec row),
                                   rem_cache_purge_status = ''pending_purge'', rem_created_at = now,
                                   rem_updated_at = now, rem_purged_at = None \<rparr>] \<rparr>))
       (db_then (update_jobs (\<lambda>_ r. jr_id r = jr_id row) (quarantine_row env now)) (db_ret ())))"

fun quarantine_rows :: "json_env \<Rightarrow> (str \<Rightarrow> str) \<Rightarrow> str \<Rightarrow> job_row list \<Rightarrow> nat build_db" where
  "quarantine_rows env sha256_hex now [] = db_ret 0"
| "quarantine_rows env sha256_hex now (row # rows) =
     db_bind (db_lift (json_from_db env (jr_build_spec row) ''build job build_spec'')) (\<lambda>spec.
     db_bind (db_lift (json_from_db env (jr_cache_metadata row) ''build job cache_metadata'')) (\<lambda>metadata.
     let protected_spec = (je_validate_build_spec env spec \<noteq> None);
         protected_metadata = (je_validate_cache_metadata env metadata \<noteq> None);
         redacted_logs = redact_sensitive_key_values (jr_logs row);
         redacted_error = redact_sensitive_key_values (jr_error row)
     in if protected_spec \<or> protected_metadata then
          db_then (quarantine_job env sha256_hex now (quarantine_rule protected_spec protected_metadata) row)
            (db_bind (quarantine_rows env sha256_hex now rows) (\<lambda>n. db_ret (n + 1)))
        else if redacted_logs \<noteq> jr_logs row \<or> redacted_error \<noteq> jr_error row then
          db_then (update_jobs (\<lambda>_ r. jr_id r = jr_id row)
                     (\<lambda>r. r \<lparr> jr_logs := redacted_logs, jr_error := redacted_error, jr_updated_at := now \<rparr>))
            (quarantine_rows env sha256_hex now rows)
        else quarantine_rows env sha256_hex now rows))"

definition quarantine_protected_build_jobs :: "json_env \<Rightarrow> (str \<Rightarrow> str) \<Rightarrow> str \<Rightarrow> nat build_db" where
  "quarantine_protected_build_jobs env sha256_hex now =
     db_bind (db_get (\<lambda>s. sort_key jr_id (bs_jobs s))) (\<lambda>rows. quarantine_rows env sha256_hex now rows)"

definition pending_protected_build_job_remediations :: "(int \<times> str option \<times> str) list build_db" where
  "pending_protected_build_job_remediations =
     db_get (\<lambda>s. concat (map (\<lambda>m.
         if rem_cache_purge_status m = ''pending_purge''
         then map (\<lambda>j. (rem_job_id m, rem_managed_job_id m, jr_output_path j))
                (filter (\<lambda>j. jr_id j = rem_job_id m) (bs_jobs s))
         else []) (sort_key rem_job_id (bs_remediations s))))"

definition protected_build_job_remediation_exists :: "int \<Rightarrow> bool build_db" where
  "protected_build_job_remediation_exists i = db_get (\<lambda>s. count_where (\<lambda>r. rem_job_id r = i) (bs_remediations s) \<noteq> 0)"

section \<open>Invariant\<close>

definition percent_ok :: "int option \<Rightarrow> bool" where
  "percent_ok p = (case p of None \<Rightarrow> True | Some v \<Rightarrow> 0 \<le> v \<and> v \<le> 100)"

definition job_ok :: "json_env \<Rightarrow> build_store \<Rightarrow> job_row \<Rightarrow> bool" where
  "job_ok env s r =
     (jr_id r \<le> bs_job_seq s \<and> jr_status r \<in> set allowed_build_states \<and> percent_ok (jr_progress_percent r) \<and>
      0 \<le> jr_output_size_bytes r \<and> \<not> contains_modular_password_hash (jr_logs r) \<and>
      (remediated s (jr_id r) \<longrightarrow>
         jr_status r = ''failed'' \<and> jr_build_spec r = je_to_string env safe_spec \<and> jr_logs r = []))"

definition build_inv :: "json_env \<Rightarrow> build_store \<Rightarrow> bool" where
  "build_inv env s =
     (distinct (map jr_id (bs_jobs s)) \<and> distinct (List.map_filter jr_managed_job_id (bs_jobs s)) \<and>
      (\<forall>r \<in> set (bs_jobs s). job_ok env s r) \<and>
      distinct (map rem_job_id (bs_remediations s)) \<and>
      (\<forall>m \<in> set (bs_remediations s). rem_job_id m \<in> jr_id ` set (bs_jobs s)))"

lemma job_ok_jobs [simp]: "job_ok env (s \<lparr> bs_jobs := x \<rparr>) = job_ok env s"
  by (auto simp: job_ok_def remediated_def fun_eq_iff)

lemma map_filter_update_where:
  "(\<And>r. r \<in> set rows \<Longrightarrow> p r \<Longrightarrow> key (f r) = key r) \<Longrightarrow>
   List.map_filter key (update_where p f rows) = List.map_filter key rows"
  by (induction rows) (auto simp: List.map_filter_def)

lemma map_update_where:
  "(\<And>r. r \<in> set rows \<Longrightarrow> p r \<Longrightarrow> key (f r) = key r) \<Longrightarrow> map key (update_where p f rows) = map key rows"
  by (induction rows) auto

lemma remediated_iff: "remediated s i \<longleftrightarrow> i \<in> rem_job_id ` set (bs_remediations s)"
  by (auto simp: remediated_def list_ex_iff)

lemma keeps_update_jobs:
  assumes "\<And>s r. p s r \<Longrightarrow> job_ok env s r \<Longrightarrow> job_ok env s (f r)"
    and "\<And>r. jr_id (f r) = jr_id r" and "\<And>r. jr_managed_job_id (f r) = jr_managed_job_id r"
  shows "keeps (build_inv env) (update_jobs p f)"
  unfolding keeps_iff
proof (intro allI impI)
  fix s
  assume inv: "build_inv env s"
  have k: "map jr_id (update_where (p s) f (bs_jobs s)) = map jr_id (bs_jobs s)"
    "List.map_filter jr_managed_job_id (update_where (p s) f (bs_jobs s)) = List.map_filter jr_managed_job_id (bs_jobs s)"
    by (simp_all add: map_update_where map_filter_update_where assms(2,3))
  then have "jr_id ` set (update_where (p s) f (bs_jobs s)) = jr_id ` set (bs_jobs s)"
    by (metis list.set_map)
  moreover have "job_ok env s r" if "r \<in> set (update_where (p s) f (bs_jobs s))" for r
    using that inv assms(1) by (auto simp: build_inv_def set_update_where)
  ultimately show "build_inv env (snd (update_jobs p f s))"
    using inv k by (simp add: build_inv_def update_jobs_def)
qed

lemma build_inv_fresh:
  assumes "build_inv env s" and "bs_job_seq s < i"
  shows "i \<notin> jr_id ` set (bs_jobs s)" and "\<not> remediated s i"
  using assms by (fastforce simp: build_inv_def job_ok_def remediated_iff)+

lemma job_ok_seq: "job_ok env s r \<Longrightarrow> job_ok env (s \<lparr> bs_jobs := x, bs_job_seq := bs_job_seq s + 1 \<rparr>) r"
  by (auto simp: job_ok_def remediated_def)

lemma insert_job_inv:
  assumes "build_inv env s" and "\<And>i. jr_id (mk i) = i"
    and "\<And>i. job_ok env (s \<lparr> bs_job_seq := i, bs_remediations := [] \<rparr>) (mk i)"
    and "\<And>i. jr_managed_job_id (mk i) \<notin> Some ` {k. \<exists>r \<in> set (bs_jobs s). jr_managed_job_id r = Some k}"
  shows "build_inv env (snd (insert_job mk s))"
proof -
  define i where "i = bs_job_seq s + 1"
  have f: "i \<notin> jr_id ` set (bs_jobs s)" "\<not> remediated s i"
    using build_inv_fresh [OF assms(1), of i] by (auto simp: i_def)
  have "job_ok env (s \<lparr> bs_jobs := bs_jobs s @ [mk i], bs_job_seq := i \<rparr>) (mk i)"
    using assms(2,3) [of i] f(2) by (auto simp: job_ok_def remediated_def)
  moreover have "job_ok env (s \<lparr> bs_jobs := bs_jobs s @ [mk i], bs_job_seq := i \<rparr>) r" if "r \<in> set (bs_jobs s)" for r
    using assms(1) that by (simp add: i_def build_inv_def job_ok_seq)
  moreover have "distinct (List.map_filter jr_managed_job_id (bs_jobs s @ [mk i]))"
    using assms(1) assms(4) [of i]
    by (cases "jr_managed_job_id (mk i)") (auto simp: build_inv_def List.map_filter_def)
  moreover have "distinct (map jr_id (bs_jobs s @ [mk i]))"
    using assms(1,2) f(1) by (auto simp: build_inv_def)
  ultimately show ?thesis
    using assms(1) by (auto simp: build_inv_def insert_job_def Let_def i_def)
qed

lemma no_hash_Nil [simp]: "\<not> contains_modular_password_hash []"
  by code_simp

lemma new_job_row_ok [simp]: "job_ok env (s \<lparr> bs_job_seq := i, bs_remediations := [] \<rparr>) (new_job_row now i)"
  by (simp add: job_ok_def new_job_row_def remediated_def allowed_build_states_def percent_ok_def)

lemma new_job_row_id [simp]: "jr_id (new_job_row now i) = i" "jr_managed_job_id (new_job_row now i) = None"
  by (simp_all add: new_job_row_def)

lemma keeps_upsert_job:
  assumes "\<And>i. jr_id (mk i) = i" and "\<And>i. jr_managed_job_id (mk i) = Some k"
    and "\<And>i s. job_ok env (s \<lparr> bs_job_seq := i, bs_remediations := [] \<rparr>) (mk i)"
    and "\<And>s i r. job_ok env s r \<Longrightarrow> job_ok env s (merge (mk i) r)"
    and "\<And>i r. jr_id (merge (mk i) r) = jr_id r" and "\<And>i r. jr_managed_job_id (merge (mk i) r) = jr_managed_job_id r"
  shows "keeps (build_inv env) (upsert_job k mk merge)"
  unfolding upsert_job_def
proof (rule keeps_bind_get)
  fix s
  assume inv: "build_inv env s"
  show "build_inv env (snd ((case (list_ex (\<lambda>r. jr_managed_job_id r = Some k) (bs_jobs s), bs_job_seq s + 1) of
      (present, i) \<Rightarrow>
        if present then db_then (update_jobs (\<lambda>_ r. jr_managed_job_id r = Some k) (merge (mk i))) (db_ret ())
        else db_then (insert_job mk) (db_ret ())) s))"
  proof (cases "list_ex (\<lambda>r. jr_managed_job_id r = Some k) (bs_jobs s)")
    case True
    have "keeps (build_inv env) (db_then (update_jobs (\<lambda>_ r. jr_managed_job_id r = Some k) (merge (mk i))) (db_ret ()))" for i
      by (intro db_rules keeps_update_jobs assms)
    with True inv show ?thesis by (simp add: keeps_snd)
  next
    case False
    have "build_inv env (snd (insert_job mk s))"
      using False by (intro insert_job_inv inv assms) (auto simp: assms(2) list_ex_iff)
    with False show ?thesis by (auto intro: then_step)
  qed
qed

lemmas row_defs = merge_job_def merge_rejection_def cancel_row_def fail_row_def claim_row_def finish_row_def
  quarantine_row_def

lemma row_ids [simp]:
  "jr_id (merge_job now new r) = jr_id r" "jr_managed_job_id (merge_job now new r) = jr_managed_job_id r"
  "jr_id (merge_rejection now new r) = jr_id r" "jr_managed_job_id (merge_rejection now new r) = jr_managed_job_id r"
  "jr_id (cancel_row now r) = jr_id r" "jr_managed_job_id (cancel_row now r) = jr_managed_job_id r"
  "jr_id (fail_row now m e r) = jr_id r" "jr_managed_job_id (fail_row now m e r) = jr_managed_job_id r"
  "jr_id (claim_row now r) = jr_id r" "jr_managed_job_id (claim_row now r) = jr_managed_job_id r"
  "jr_id (finish_row now a1 a2 a3 a4 a5 a6 a7 a8 a9 a10 a11 r) = jr_id r"
  "jr_managed_job_id (finish_row now a1 a2 a3 a4 a5 a6 a7 a8 a9 a10 a11 r) = jr_managed_job_id r"
  "jr_id (quarantine_row env now r) = jr_id r" "jr_managed_job_id (quarantine_row env now r) = jr_managed_job_id r"
  by (simp_all add: row_defs Let_def)

lemma merge_job_ok:
  "job_ok env s r \<Longrightarrow> percent_ok (jr_progress_percent new) \<Longrightarrow> job_ok env s (merge_job now new r)"
  by (auto simp: job_ok_def merge_job_def Let_def)

lemma merge_rejection_ok: "job_ok env s r \<Longrightarrow> job_ok env s (merge_rejection now new r)"
  by (auto simp: job_ok_def merge_rejection_def allowed_build_states_def percent_ok_def)

lemma cancel_row_ok: "job_ok env s r \<Longrightarrow> job_ok env s (cancel_row now r)"
  by (auto simp: job_ok_def cancel_row_def allowed_build_states_def percent_ok_def Let_def split: option.splits)

lemma fail_row_ok: "job_ok env s r \<Longrightarrow> job_ok env s (fail_row now m e r)"
  by (auto simp: job_ok_def fail_row_def allowed_build_states_def percent_ok_def)

lemma claim_row_ok: "job_ok env s r \<Longrightarrow> \<not> remediated s (jr_id r) \<Longrightarrow> job_ok env s (claim_row now r)"
  by (auto simp: job_ok_def claim_row_def allowed_build_states_def percent_ok_def)

lemma finish_row_ok:
  "job_ok env s r \<Longrightarrow> \<not> remediated s (jr_id r) \<Longrightarrow> status \<in> set allowed_build_states \<Longrightarrow>
   \<not> contains_modular_password_hash logs \<Longrightarrow> 0 \<le> sz \<Longrightarrow>
   job_ok env s (finish_row now status logs e p h sz x cm m st msg r)"
  by (auto simp: job_ok_def finish_row_def allowed_build_states_def percent_ok_def Let_def)

lemma percent_normalized [simp]: "percent_ok (normalize_build_progress_percent v st)"
  by (auto simp: percent_ok_def normalize_build_progress_percent_def split: option.splits)

lemma not_remediated: "job_ok env s r \<Longrightarrow> jr_status r \<noteq> ''failed'' \<Longrightarrow> \<not> remediated s (jr_id r)"
  by (auto simp: job_ok_def)

lemma validated_status:
  "validate_terminal_build_status st = Inr u \<Longrightarrow> st \<in> set allowed_build_states"
  "validate_build_status st = Inr u \<Longrightarrow> st \<in> set allowed_build_states"
  by (auto simp: validate_terminal_build_status_def validate_build_status_def allowed_build_states_def split: if_splits)

lemma validated_size: "validate_non_negative_i64 v f = Inr u \<Longrightarrow> 0 \<le> v"
  by (auto simp: validate_non_negative_i64_def split: if_splits)

section \<open>Every operation keeps the invariant\<close>

lemma get_build_job_keeps [db_rules, intro]: "keeps P (get_build_job env i)"
  unfolding get_build_job_def by (intro db_rules)

lemma get_build_job_by_managed_id_keeps [db_rules, intro]: "keeps P (get_build_job_by_managed_id env k)"
  unfolding get_build_job_by_managed_id_def by (intro db_rules)

lemma list_build_jobs_keeps [db_rules, intro]: "keeps P (list_build_jobs env)"
  unfolding list_build_jobs_def by (intro db_rules)

lemma fresh_row_ok:
  assumes "jr_id r = i" and "jr_status r \<in> set allowed_build_states" and "percent_ok (jr_progress_percent r)"
    and "0 \<le> jr_output_size_bytes r" and "jr_logs r = []"
  shows "job_ok env (s \<lparr> bs_job_seq := i, bs_remediations := [] \<rparr>) r"
  using assms by (simp add: job_ok_def remediated_def)

lemma create_build_job_keeps: "keeps (build_inv env) (create_build_job env now input)"
  unfolding create_build_job_def
proof (intro keeps_bind_lift keeps_bind get_build_job_keeps)
  fix a b c d e f g
  show "keeps (build_inv env) (insert_job (\<lambda>i. (new_job_row now i)
      \<lparr> jr_requested_artifact_type := a, jr_build_spec := f, jr_target := b, jr_system := c, jr_input_revision := d,
        jr_input_config_hash := e, jr_progress_percent := Some 0, jr_progress_stage := Some ''queued'',
        jr_progress_message := Some waiting_message, jr_cache_metadata := g \<rparr>))"
    unfolding keeps_iff
    by (intro allI impI insert_job_inv fresh_row_ok) (auto simp: new_job_row_def allowed_build_states_def percent_ok_def)
qed

lemma upsert_managed_build_job_keeps:
  "keeps (build_inv env) (upsert_managed_build_job env now k a b c d e f g)"
  unfolding upsert_managed_build_job_def
  by (intro keeps_bind_lift keeps_then get_build_job_by_managed_id_keeps keeps_upsert_job merge_job_ok fresh_row_ok)
    (simp_all add: new_job_row_def allowed_build_states_def percent_ok_def)

lemma record_rejected_managed_build_job_keeps:
  "keeps (build_inv env) (record_rejected_managed_build_job now k a b c d e reason)"
  unfolding record_rejected_managed_build_job_def Let_def
  by (intro keeps_bind_lift keeps_upsert_job merge_rejection_ok fresh_row_ok)
    (simp_all add: new_job_row_def allowed_build_states_def percent_ok_def)

lemma cancel_listed_job_keeps [db_rules]: "keeps (build_inv env) (cancel_listed_job now i)"
  unfolding cancel_listed_job_def by (intro db_rules keeps_update_jobs cancel_row_ok) simp_all

lemma cancel_listed_keeps [db_rules]: "keeps (build_inv env) (cancel_listed now retained jobs n)"
  by (induction now retained jobs n rule: cancel_listed.induct)
    (simp only: cancel_listed.simps, intro db_rules; simp)+

lemma cancel_absent_managed_build_jobs_keeps:
  "keeps (build_inv env) (cancel_absent_managed_build_jobs env' now retained)"
  unfolding cancel_absent_managed_build_jobs_def by (intro db_rules)

lemma cancel_managed_build_jobs_keeps: "keeps (build_inv env) (cancel_managed_build_jobs now ids)"
  by (induction now ids rule: cancel_managed_build_jobs.induct)
    (simp only: cancel_managed_build_jobs.simps, intro db_rules keeps_update_jobs cancel_row_ok; simp)+

lemma recover_running_build_jobs_keeps: "keeps (build_inv env) (recover_running_build_jobs now reason)"
  unfolding recover_running_build_jobs_def by (intro keeps_update_jobs fail_row_ok) simp_all

lemma fail_running_build_job_after_worker_error_keeps:
  "keeps (build_inv env) (fail_running_build_job_after_worker_error now i reason)"
  unfolding fail_running_build_job_after_worker_error_def
  by (intro db_rules keeps_update_jobs fail_row_ok) simp_all

lemma update_build_job_logs_keeps: "keeps (build_inv env) (update_build_job_logs now i logs)"
  unfolding update_build_job_logs_def
  by (intro db_rules keeps_update_jobs) (auto simp: job_ok_def bounded_log_no_hash)

lemma update_build_job_progress_keeps: "keeps (build_inv env) (update_build_job_progress now i p st msg)"
  unfolding update_build_job_progress_def
  by (intro db_rules keeps_update_jobs) (auto simp: job_ok_def)

lemma finish_build_job_keeps:
  "keeps (build_inv env) (finish_build_job env now i st logs err path sha sz ec md)"
  unfolding finish_build_job_def Let_def
  by (intro keeps_then_lift keeps_bind_lift keeps_then get_build_job_keeps keeps_update_jobs finish_row_ok)
    (auto simp: bounded_log_no_hash dest: validated_status validated_size)

lemma update_build_job_report_keeps:
  "keeps (build_inv env) (update_build_job_report env now k st p ps pm logs err path sha sz sa ca md)"
  unfolding update_build_job_report_def Let_def
  by (intro keeps_then_lift keeps_bind_lift keeps_then get_build_job_by_managed_id_keeps keeps_update_jobs)
    (auto simp: job_ok_def bounded_log_no_hash dest: validated_status validated_size)

subsection \<open>Claiming\<close>

lemma next_queued_Some:
  assumes "next_queued s = Some r"
  shows "r \<in> set (bs_jobs s)" and "jr_status r = ''queued''"
proof -
  from assms obtain rs where "sort_key (\<lambda>r. (jr_created_at r, jr_id r)) (filter (\<lambda>r. jr_status r = ''queued'') (bs_jobs s)) = r # rs"
    by (auto simp: next_queued_def split: list.splits)
  then have "r \<in> set (sort_key (\<lambda>r. (jr_created_at r, jr_id r)) (filter (\<lambda>r. jr_status r = ''queued'') (bs_jobs s)))"
    by simp
  then show "r \<in> set (bs_jobs s)" "jr_status r = ''queued''" by simp_all
qed

lemma same_id: "distinct (map jr_id rows) \<Longrightarrow> a \<in> set rows \<Longrightarrow> b \<in> set rows \<Longrightarrow> jr_id a = jr_id b \<Longrightarrow> a = b"
  by (rule inj_onD [of jr_id "set rows"]) (auto simp: distinct_map)

lemma claim_next_build_job_cases:
  obtains "next_queued s = None" and "claim_next_build_job env now s = (Inr None, s)"
  | r where "next_queued s = Some r"
    and "claim_next_build_job env now s =
      (map_sum id Some (job_of_row env (claim_row now r)),
       s \<lparr> bs_jobs := update_where (\<lambda>x. jr_id x = jr_id r) (claim_row now) (bs_jobs s) \<rparr>)"
proof (cases "next_queued s")
  case None
  then show ?thesis by (intro that(1)) (simp_all add: claim_next_build_job_def)
next
  case (Some r)
  then show ?thesis
    by (intro that(2) [of r])
      (auto simp: claim_next_build_job_def update_jobs_def db_then_def db_bind_def split: sum.splits)
qed

lemma claim_next_build_job_keeps: "keeps (build_inv env) (claim_next_build_job env' now)"
  unfolding keeps_iff
proof (intro allI impI)
  fix s
  assume inv: "build_inv env s"
  show "build_inv env (snd (claim_next_build_job env' now s))"
  proof (rule claim_next_build_job_cases [of s env' now])
    assume "claim_next_build_job env' now s = (Inr None, s)"
    with inv show ?thesis by simp
  next
    fix r
    assume n: "next_queued s = Some r" and c: "claim_next_build_job env' now s =
      (map_sum id Some (job_of_row env' (claim_row now r)),
       s \<lparr> bs_jobs := update_where (\<lambda>x. jr_id x = jr_id r) (claim_row now) (bs_jobs s) \<rparr>)"
    have "job_ok env s r" using inv next_queued_Some(1) [OF n] by (simp add: build_inv_def)
    then have nr: "\<not> remediated s (jr_id r)" using next_queued_Some(2) [OF n] by (intro not_remediated) auto
    have "keeps (build_inv env) (update_jobs (\<lambda>t x. jr_id x = jr_id r \<and> \<not> remediated t (jr_id x)) (claim_row now))"
      by (intro keeps_update_jobs claim_row_ok) auto
    from keeps_snd [OF this inv] nr show ?thesis
      by (auto simp: c update_jobs_def update_where_def elim!: back_subst [of "build_inv env"] intro!: arg_cong [where f = "\<lambda>x. s \<lparr> bs_jobs := x \<rparr>"])
  qed
qed

subsection \<open>Quarantine\<close>

lemma quarantine_job_eq:
  "quarantine_job env h now rule row s =
     (Inr (), s \<lparr> bs_remediations := (if remediated s (jr_id row) then bs_remediations s else bs_remediations s @
          [\<lparr> rem_job_id = jr_id row, rem_managed_job_id = jr_managed_job_id row, rem_original_status = jr_status row,
             rem_rule = rule, rem_build_spec_sha256 = h (jr_build_spec row), rem_cache_purge_status = ''pending_purge'',
             rem_created_at = now, rem_updated_at = now, rem_purged_at = None \<rparr>]),
        bs_jobs := update_where (\<lambda>r. jr_id r = jr_id row) (quarantine_row env now) (bs_jobs s) \<rparr>)"
  by (simp add: quarantine_job_def db_transaction_def update_jobs_def db_then_def db_bind_def)

lemma remediated_after_quarantine:
  "remediated (snd (quarantine_job env h now rule row s)) i \<longleftrightarrow> remediated s i \<or> i = jr_id row"
  by (auto simp: quarantine_job_eq remediated_def)

lemma ids_after_quarantine:
  "map jr_id (bs_jobs (snd (quarantine_job env h now rule row s))) = map jr_id (bs_jobs s)"
  by (simp add: quarantine_job_eq map_update_where)

lemma quarantine_row_ok:
  "job_ok env s r \<Longrightarrow> job_ok env (snd (quarantine_job env h now rule row s)) (quarantine_row env now r)"
  by (auto simp: job_ok_def quarantine_job_eq quarantine_row_def allowed_build_states_def percent_ok_def)

lemma quarantine_job_inv:
  assumes inv: "build_inv env s" and mem: "jr_id row \<in> jr_id ` set (bs_jobs s)"
  shows "build_inv env (snd (quarantine_job env h now rule row s))" (is "build_inv env ?t")
proof -
  have jobs: "bs_jobs ?t = update_where (\<lambda>r. jr_id r = jr_id row) (quarantine_row env now) (bs_jobs s)"
    by (simp add: quarantine_job_eq)
  have ids: "jr_id ` set (bs_jobs ?t) = jr_id ` set (bs_jobs s)"
    using ids_after_quarantine [of env h now rule row s] by (metis list.set_map)
  have "job_ok env ?t r" if "r \<in> set (bs_jobs ?t)" for r
  proof -
    from that [unfolded jobs set_update_where] obtain x where x: "x \<in> set (bs_jobs s)"
      and r: "r = (if jr_id x = jr_id row then quarantine_row env now x else x)" by auto
    have ok: "job_ok env s x" using inv x by (simp add: build_inv_def)
    show ?thesis
    proof (cases "jr_id x = jr_id row")
      case True
      with r quarantine_row_ok [OF ok] show ?thesis by simp
    next
      case False
      with r ok show ?thesis
        by (simp add: job_ok_def remediated_after_quarantine) (simp add: quarantine_job_eq)
    qed
  qed
  moreover have "distinct (map rem_job_id (bs_remediations ?t)) \<and>
      rem_job_id ` set (bs_remediations ?t) \<subseteq> jr_id ` set (bs_jobs s)"
    using inv mem by (auto simp: quarantine_job_eq build_inv_def remediated_iff)
  moreover have "List.map_filter jr_managed_job_id (bs_jobs ?t) = List.map_filter jr_managed_job_id (bs_jobs s)"
    unfolding jobs by (intro map_filter_update_where) simp
  ultimately show ?thesis
    using inv ids_after_quarantine [of env h now rule row s] ids by (auto simp: build_inv_def)
qed

definition scan_ok :: "build_store \<Rightarrow> job_row list \<Rightarrow> bool" where
  "scan_ok s rows = (distinct (map jr_id rows) \<and>
     (\<forall>row \<in> set rows. jr_id row \<in> jr_id ` set (bs_jobs s) \<and> (remediated s (jr_id row) \<longrightarrow> jr_logs row = [])))"

lemma redact_Nil [simp]: "redact_sensitive_key_values [] = []"
  by code_simp

lemma redact_update_inv:
  fixes e now :: str
  assumes inv: "build_inv env s" and "scan_ok s (row # rows)"
  defines "t \<equiv> snd (update_jobs (\<lambda>_ r. jr_id r = jr_id row)
    (\<lambda>r. r \<lparr> jr_logs := redact_sensitive_key_values (jr_logs row), jr_error := e, jr_updated_at := now \<rparr>) s)"
  shows "build_inv env t" and "scan_ok t rows"
proof -
  let ?f = "\<lambda>r. r \<lparr> jr_logs := redact_sensitive_key_values (jr_logs row), jr_error := e, jr_updated_at := now \<rparr>"
  have l: "remediated s (jr_id row) \<Longrightarrow> jr_logs row = []" using assms(2) by (simp add: scan_ok_def)
  have "keeps (build_inv env) (update_jobs (\<lambda>u r. jr_id r = jr_id row \<and> (remediated u (jr_id row) \<longrightarrow> jr_logs row = [])) ?f)"
    by (intro keeps_update_jobs) (auto simp: job_ok_def no_hash_redacted)
  from keeps_snd [OF this inv] l show "build_inv env t"
    by (simp add: t_def update_jobs_def cong: conj_cong)
  have "map jr_id (bs_jobs t) = map jr_id (bs_jobs s)"
    by (simp add: t_def update_jobs_def map_update_where)
  then have "jr_id ` set (bs_jobs t) = jr_id ` set (bs_jobs s)" by (metis list.set_map)
  with assms(2) show "scan_ok t rows" by (auto simp: scan_ok_def t_def update_jobs_def remediated_def)
qed

lemma scan_ok_after_quarantine:
  assumes "scan_ok s (row # rows)"
  shows "scan_ok (snd (quarantine_job env h now rule row s)) rows"
proof -
  have "jr_id ` set (bs_jobs (snd (quarantine_job env h now rule row s))) = jr_id ` set (bs_jobs s)"
    using ids_after_quarantine [of env h now rule row s] by (metis list.set_map)
  moreover have "jr_id row \<notin> jr_id ` set rows" using assms by (simp add: scan_ok_def)
  then have "x \<in> set rows \<Longrightarrow> jr_id x \<noteq> jr_id row" for x by (metis imageI)
  ultimately show ?thesis using assms by (auto simp: scan_ok_def remediated_after_quarantine)
qed

lemma quarantine_rows_inv:
  "build_inv env s \<Longrightarrow> scan_ok s rows \<Longrightarrow> build_inv env (snd (quarantine_rows env h now rows s))"
proof (induction rows arbitrary: s)
  case Nil
  then show ?case by simp
next
  case (Cons row rows)
  have tail: "scan_ok s rows" using Cons.prems(2) by (simp add: scan_ok_def)
  let ?m = "jr_logs row" and ?e = "redact_sensitive_key_values (jr_error row)"
  define u where "u = update_jobs (\<lambda>_ r. jr_id r = jr_id row)
     (\<lambda>r. r \<lparr> jr_logs := redact_sensitive_key_values ?m, jr_error := ?e, jr_updated_at := now \<rparr>)"
  have upd: "build_inv env (snd (db_then u (quarantine_rows env h now rows) s))"
  proof (cases "u s")
    case (Pair a t)
    then obtain n where a: "a = Inr n" by (auto simp: u_def update_jobs_def)
    have "build_inv env t" "scan_ok t rows"
      using redact_update_inv [OF Cons.prems, of now ?e, folded u_def] Pair by simp_all
    then show ?thesis using Cons.IH a Pair by simp
  qed
  have q: "build_inv env (snd (db_then (quarantine_job env h now rule row)
      (db_bind (quarantine_rows env h now rows) (\<lambda>n. db_ret (n + 1))) s))" for rule
  proof (cases "quarantine_job env h now rule row s")
    case (Pair a t)
    then have a: "a = Inr ()" by (simp add: quarantine_job_eq)
    have "jr_id row \<in> jr_id ` set (bs_jobs s)" using Cons.prems(2) by (simp add: scan_ok_def)
    from quarantine_job_inv [OF Cons.prems(1) this, of h now rule] have "build_inv env t" using Pair by simp
    moreover have "scan_ok t rows" using scan_ok_after_quarantine [OF Cons.prems(2), of env h now rule] Pair by simp
    ultimately have "build_inv env (snd (quarantine_rows env h now rows t))" by (rule Cons.IH)
    then show ?thesis using Pair a by (auto intro: bind_step)
  qed
  show ?case
    using upd q Cons.prems(1) Cons.IH [OF Cons.prems(1) tail]
    by (simp add: db_bind_def Let_def u_def split: sum.split)
qed

lemma quarantine_protected_build_jobs_keeps:
  "keeps (build_inv env) (quarantine_protected_build_jobs env h now)"
  unfolding quarantine_protected_build_jobs_def
proof (rule keeps_bind_get)
  fix s
  assume inv: "build_inv env s"
  have "distinct (map jr_id (sort_key jr_id (bs_jobs s)))"
    using inv by (simp add: build_inv_def distinct_map)
  moreover have "remediated s (jr_id r) \<longrightarrow> jr_logs r = []" if "r \<in> set (bs_jobs s)" for r
    using inv that by (simp add: build_inv_def job_ok_def)
  ultimately have "scan_ok s (sort_key jr_id (bs_jobs s))" by (auto simp: scan_ok_def)
  with inv show "build_inv env (snd (quarantine_rows env h now (sort_key jr_id (bs_jobs s)) s))"
    by (rule quarantine_rows_inv)
qed

subsection \<open>Pages\<close>

lemma enumerate_prefix:
  assumes "\<And>i. P (Suc i) \<Longrightarrow> 0 < i \<Longrightarrow> P i"
  shows "\<exists>k \<le> length xs. map snd (filter (\<lambda>(i, x). P i) (enumerate 1 xs)) = take k xs \<and>
    (\<forall>i. 0 < i \<longrightarrow> i \<le> length xs \<longrightarrow> P i = (i \<le> k))"
proof (induction xs rule: rev_induct)
  case Nil
  show ?case by simp
next
  case (snoc x xs)
  then obtain k where k: "k \<le> length xs" "map snd (filter (\<lambda>(i, x). P i) (enumerate 1 xs)) = take k xs"
    "\<forall>i. 0 < i \<longrightarrow> i \<le> length xs \<longrightarrow> P i = (i \<le> k)" by blast
  show ?case
  proof (cases "P (Suc (length xs))")
    case True
    have down: "P (Suc (length xs) - j)" if "j \<le> length xs" for j
      using that
    proof (induction j)
      case (Suc j)
      then have "P (Suc (length xs - j))" by (simp add: Suc_diff_le)
      with Suc.prems show ?case using assms [of "length xs - j"] by simp
    qed (use True in simp)
    have all: "P i" if "0 < i" "i \<le> length xs" for i
      using down [of "Suc (length xs) - i"] that by simp
    then have "k = length xs" using k(1) k(3) [rule_format, of "length xs"] by (cases xs) auto
    with k True all show ?thesis
      by (intro exI [of _ "Suc (length xs)"]) (auto simp: enumerate_append_eq le_Suc_eq)
  next
    case False
    with k show ?thesis by (intro exI [of _ k]) (auto simp: enumerate_append_eq le_Suc_eq)
  qed
qed

lemma page_of_prefix:
  "\<exists>k \<le> length rows. page_of bytes m b rows = take k rows \<and>
    (\<forall>i. 0 < i \<longrightarrow> i \<le> length rows \<longrightarrow> (i = 1 \<or> i \<le> m \<and> sum_list (map bytes (take i rows)) \<le> b) = (i \<le> k))"
proof -
  have "sum_list (map bytes (take i rows)) \<le> sum_list (map bytes (take (Suc i) rows))" for i
    by (cases "i < length rows") (auto simp: take_Suc_conv_app_nth)
  then have "Suc i = 1 \<or> Suc i \<le> m \<and> sum_list (map bytes (take (Suc i) rows)) \<le> b \<Longrightarrow> 0 < i \<Longrightarrow>
      i = 1 \<or> i \<le> m \<and> sum_list (map bytes (take i rows)) \<le> b" for i
    using order_trans by fastforce
  from enumerate_prefix [of "\<lambda>i. i = 1 \<or> i \<le> m \<and> sum_list (map bytes (take i rows)) \<le> b", OF this]
  show ?thesis by (simp add: page_of_def split_def)
qed

text \<open>A page is a prefix: never empty when there are rows, and within both limits unless it is a
  single row.\<close>

lemma page_of_spec:
  obtains k where "k \<le> length rows" and "page_of bytes m b rows = take k rows" and "rows \<noteq> [] \<Longrightarrow> 0 < k"
    and "1 < k \<Longrightarrow> k \<le> m \<and> sum_list (map bytes (take k rows)) \<le> b"
    and "k < length rows \<Longrightarrow> m \<le> k \<or> b < sum_list (map bytes (take (Suc k) rows))"
proof -
  obtain k where k: "k \<le> length rows" "page_of bytes m b rows = take k rows"
    "\<And>i. 0 < i \<Longrightarrow> i \<le> length rows \<Longrightarrow> (i = 1 \<or> i \<le> m \<and> sum_list (map bytes (take i rows)) \<le> b) = (i \<le> k)"
    using page_of_prefix [of rows bytes m b] by blast
  show ?thesis
  proof (rule that [OF k(1,2)])
    show "0 < k" if "rows \<noteq> []" using k(3) [of 1] that by (cases rows) auto
    show "k \<le> m \<and> sum_list (map bytes (take k rows)) \<le> b" if "1 < k" using k(3) [of k] k(1) that by auto
    show "m \<le> k \<or> b < sum_list (map bytes (take (Suc k) rows))" if "k < length rows" using k(3) [of "Suc k"] that by auto
  qed
qed

lemma rcollect_Inr: "rcollect (map f xs) = Inr ys \<Longrightarrow> list_all2 (\<lambda>x y. f x = Inr y) xs ys"
  by (induction xs arbitrary: ys) (auto simp: result_simps)

lemma rcollect_key:
  assumes "rcollect (map f xs) = Inr ys" and "\<And>x y. f x = Inr y \<Longrightarrow> g y = k x"
  shows "map g ys = map k xs"
  using rcollect_Inr [OF assms(1)] by (induction rule: list_all2_induct) (auto simp: assms(2))

lemma job_of_row_id: "job_of_row env r = Inr j \<Longrightarrow> job_id j = jr_id r"
  by (auto simp: job_of_row_def result_simps)

lemma mset_ranked_jobs:
  "mset (ranked_jobs ac rc tc round rows) = mset (filter (\<lambda>r. jr_managed_job_id r \<noteq> None) rows)"
proof -
  have g: "report_group r \<in> {0, 1, 2}" for r by (simp add: report_group_def)
  let ?groups = "concat (map (\<lambda>(g, cursor). map (\<lambda>(i, r). ((i, g), r)) (enumerate 1 (rotated_group cursor g rows)))
      [(0 :: nat, ac), (1, rc), (2, tc)])"
  have "mset (ranked_jobs ac rc tc round rows) = mset (map snd ?groups)"
    unfolding ranked_jobs_def mset_map mset_sort ..
  also have "map snd ?groups = rotated_group ac 0 rows @ rotated_group rc 1 rows @ rotated_group tc 2 rows"
    by (simp add: comp_def split_def)
  also have "mset \<dots> = mset (filter (\<lambda>r. jr_managed_job_id r \<noteq> None \<and> report_group r = 0) rows) +
      (mset (filter (\<lambda>r. jr_managed_job_id r \<noteq> None \<and> report_group r = 1) rows) +
       mset (filter (\<lambda>r. jr_managed_job_id r \<noteq> None \<and> report_group r = 2) rows))"
    by (simp add: rotated_group_def)
  also have "\<dots> = mset (filter (\<lambda>r. jr_managed_job_id r \<noteq> None) rows)"
    using g by (induction rows) (auto simp: report_group_def)
  finally show ?thesis .
qed

section \<open>First come, first built\<close>

text \<open>A queue seen by a worker that takes one item at a time, and what taking repeatedly gives.\<close>

fun drain :: "('s \<Rightarrow> ('j \<times> 's) option) \<Rightarrow> nat \<Rightarrow> 's \<Rightarrow> 'j list \<times> 's" where
  "drain deq 0 s = ([], s)"
| "drain deq (Suc n) s =
     (case deq s of None \<Rightarrow> ([], s) | Some (j, t) \<Rightarrow> (case drain deq n t of (js, u) \<Rightarrow> (j # js, u)))"

locale worker_queue =
  fixes ok :: "'s \<Rightarrow> bool" and pending :: "'s \<Rightarrow> 'j list" and deq :: "'s \<Rightarrow> ('j \<times> 's) option"
  assumes deq_empty: "ok s \<Longrightarrow> pending s = [] \<Longrightarrow> deq s = None"
    and deq_first: "ok s \<Longrightarrow> pending s = j # js \<Longrightarrow> \<exists>t. deq s = Some (j, t) \<and> ok t \<and> pending t = js"
begin

lemma drain_in_order:
  "ok s \<Longrightarrow> fst (drain deq n s) = take n (pending s) \<and> pending (snd (drain deq n s)) = drop n (pending s) \<and>
    ok (snd (drain deq n s))"
proof (induction n arbitrary: s)
  case (Suc n)
  show ?case
  proof (cases "pending s")
    case Nil
    with deq_empty Suc.prems show ?thesis by simp
  next
    case (Cons j js)
    with deq_first Suc.prems obtain t where t: "deq s = Some (j, t)" "ok t" "pending t = js" by blast
    with Suc.IH [OF t(2)] Cons show ?thesis by (cases "drain deq n t") simp
  qed
qed simp

lemma drain_all: "ok s \<Longrightarrow> length (pending s) \<le> n \<Longrightarrow> fst (drain deq n s) = pending s \<and> pending (snd (drain deq n s)) = []"
  using drain_in_order [of s n] by simp

end

definition queue_of :: "build_store \<Rightarrow> job_row list" where
  "queue_of s = sort_key (\<lambda>r. (jr_created_at r, jr_id r)) (filter (\<lambda>r. jr_status r = ''queued'') (bs_jobs s))"

definition readable :: "json_env \<Rightarrow> build_store \<Rightarrow> bool" where
  "readable env s = list_all (\<lambda>r. is_ok (job_of_row env r)) (bs_jobs s)"

definition claimable :: "json_env \<Rightarrow> build_store \<Rightarrow> bool" where
  "claimable env s = (distinct (map jr_id (bs_jobs s)) \<and> readable env s)"

definition claimed :: "json_env \<Rightarrow> str \<Rightarrow> build_store \<Rightarrow> (int \<times> build_store) option" where
  "claimed env now s =
     (case claim_next_build_job env now s of (Inr (Some job), t) \<Rightarrow> Some (job_id job, t) | _ \<Rightarrow> None)"

lemma set_queue_of: "set (queue_of s) = {r \<in> set (bs_jobs s). jr_status r = ''queued''}"
  by (auto simp: queue_of_def)

lemma next_queued_hd: "next_queued s = (case queue_of s of [] \<Rightarrow> None | r # _ \<Rightarrow> Some r)"
  by (simp add: next_queued_def queue_of_def)

lemma job_of_claimed_row:
  "is_ok (job_of_row env r) \<Longrightarrow> \<exists>j. job_of_row env (claim_row now r) = Inr j \<and> job_id j = jr_id r"
  by (auto simp: job_of_row_def claim_row_def is_ok_iff rbind_def split: sum.splits)

lemma queue_of_claim:
  assumes "distinct (map jr_id (bs_jobs s))" and "queue_of s = r # rs"
  shows "queue_of (s \<lparr> bs_jobs := update_where (\<lambda>x. jr_id x = jr_id r) (claim_row now) (bs_jobs s) \<rparr>) = rs"
proof -
  let ?q = "\<lambda>x. jr_status x = ''queued''"
  have f: "filter ?q (update_where (\<lambda>x. jr_id x = jr_id r) (claim_row now) rows) =
      filter (\<lambda>x. jr_id x \<noteq> jr_id r) (filter ?q rows)" for rows
    by (induction rows) (auto simp: claim_row_def)
  have "distinct (map jr_id (queue_of s))"
    using assms(1) by (auto simp: queue_of_def distinct_map intro: inj_on_subset)
  then have "filter (\<lambda>x. jr_id x \<noteq> jr_id r) rs = rs" using assms(2) by (auto simp: filter_id_conv image_iff)
  then show ?thesis
    using assms(2) by (simp add: queue_of_def f filter_sort [symmetric] del: filter_filter)
qed

lemma readable_claim:
  "readable env s \<Longrightarrow> readable env (s \<lparr> bs_jobs := update_where p (claim_row now) (bs_jobs s) \<rparr>)"
  using job_of_claimed_row [of env _ now] by (fastforce simp: readable_def list_all_iff set_update_where is_ok_iff)

interpretation build_worker: worker_queue "claimable env" "\<lambda>s. map jr_id (queue_of s)" "claimed env now" for env now
proof
  fix s
  assume ok: "claimable env s"
  show "claimed env now s = None" if "map jr_id (queue_of s) = []"
    using that by (simp add: claimed_def claim_next_build_job_def next_queued_hd)
  show "\<exists>t. claimed env now s = Some (j, t) \<and> claimable env t \<and> map jr_id (queue_of t) = js"
    if "map jr_id (queue_of s) = j # js" for j js
  proof -
    from that obtain r rs where q: "queue_of s = r # rs" and j: "j = jr_id r" "js = map jr_id rs" by auto
    define t where "t = s \<lparr> bs_jobs := update_where (\<lambda>x. jr_id x = jr_id r) (claim_row now) (bs_jobs s) \<rparr>"
    have n: "next_queued s = Some r" using q by (simp add: next_queued_hd)
    then have "is_ok (job_of_row env r)"
      using ok next_queued_Some(1) by (auto simp: claimable_def readable_def list_all_iff)
    then obtain job where "job_of_row env (claim_row now r) = Inr job" "job_id job = jr_id r"
      using job_of_claimed_row by blast
    then have "claimed env now s = Some (j, t)"
      using n j by (simp add: claimed_def claim_next_build_job_def update_jobs_def t_def)
    moreover have "claimable env t" "queue_of t = rs"
      using ok queue_of_claim [OF _ q] readable_claim by (auto simp: claimable_def t_def map_update_where)
    ultimately show ?thesis using j by auto
  qed
qed

section \<open>Properties\<close>

definition empty_store :: "str \<Rightarrow> build_store" where
  "empty_store instance_id =
     \<lparr> bs_jobs = [], bs_job_seq = 0, bs_remediations = [], bs_artifacts = [], bs_artifact_seq = 0,
       bs_inventory = \<lparr> inv_instance_id = instance_id, inv_generation = 0 \<rparr>, bs_protections = [] \<rparr>"

lemma empty_store_inv: "build_inv env (empty_store i)"
  by (simp add: build_inv_def empty_store_def List.map_filter_def)

definition demo_hash :: str where
  "demo_hash = replicate 64 (CHR ''a'')"

text \<open>A store with the managed jobs \<^verbatim>\<open>job-1\<close>, running with its cancellation requested, and
  \<^verbatim>\<open>job-2\<close>, queued.\<close>

definition demo_upsert :: "str \<Rightarrow> str \<Rightarrow> build_store \<Rightarrow> build_store" where
  "demo_upsert now k s =
     snd (upsert_managed_build_job demo_json now k ''nixos_closure'' None None None ''r1'' demo_hash None s)"

definition demo_builds :: build_store where
  "demo_builds =
     snd (cancel_managed_build_jobs ''t4'' [''job-1'']
       (snd (claim_next_build_job demo_json ''t3'' (demo_upsert ''t2'' ''job-2'' (demo_upsert ''t1'' ''job-1'' (empty_store ''i''))))))"

lemma demo_builds_inv: "build_inv demo_json demo_builds"
  unfolding demo_builds_def demo_upsert_def
  by (intro keeps_snd [of "build_inv demo_json"] cancel_managed_build_jobs_keeps claim_next_build_job_keeps
      upsert_managed_build_job_keeps empty_store_inv)

text \<open>C8: workers that claim jobs one after another get the queued jobs in the order of their
  creation, every one exactly once; as many claims as there are queued jobs empty the queue. This
  holds whenever the identities are distinct and the stored documents can be read back.\<close>

theorem claims_in_order_of_creation:
  assumes "build_inv env s" and "readable env s"
  shows "fst (drain (claimed env now) n s) = take n (map jr_id (queue_of s)) \<and>
    distinct (fst (drain (claimed env now) n s)) \<and>
    sorted_wrt (\<lambda>a b. (jr_created_at a, jr_id a) \<le> (jr_created_at b, jr_id b)) (queue_of s) \<and>
    set (queue_of s) = {r \<in> set (bs_jobs s). jr_status r = ''queued''} \<and>
    (length (queue_of s) \<le> n \<longrightarrow>
       (\<forall>r \<in> set (bs_jobs (snd (drain (claimed env now) n s))). jr_status r \<noteq> ''queued''))"
proof -
  let ?t = "snd (drain (claimed env now) n s)"
  have ok: "claimable env s" using assms by (simp add: claimable_def build_inv_def)
  note d = build_worker.drain_in_order [OF ok, of now n]
  have dist: "distinct (map jr_id (queue_of s))"
    using ok by (auto simp: claimable_def queue_of_def distinct_map intro: inj_on_subset)
  have empty: "jr_status r \<noteq> ''queued''" if "length (queue_of s) \<le> n" "r \<in> set (bs_jobs ?t)" for r
  proof -
    have "queue_of ?t = []" using d that(1) by simp
    with that(2) show ?thesis using set_queue_of [of ?t] by auto
  qed
  have "sorted_wrt (\<lambda>a b. (jr_created_at a, jr_id a) \<le> (jr_created_at b, jr_id b)) (queue_of s)"
    unfolding queue_of_def by (rule iffD1 [OF sorted_map]) (rule sorted_sort_key)
  with d dist empty set_queue_of [of s] show ?thesis by (intro conjI) (simp_all only: distinct_take, blast)
qed

theorem claims_in_order_of_creation_witness:
  "build_inv demo_json demo_builds \<and> readable demo_json demo_builds \<and>
   fst (drain (claimed demo_json ''t5'') 3 demo_builds) = [2]"
proof -
  have r: "readable demo_json demo_builds" and q: "take 3 (map jr_id (queue_of demo_builds)) = [2]" by code_simp+
  from claims_in_order_of_creation [OF demo_builds_inv r, of "''t5''" 3] q r demo_builds_inv show ?thesis by simp
qed

lemma get_build_job_state: "get_build_job env i s = (r, t) \<Longrightarrow> t = s"
  using get_build_job_keeps [of "\<lambda>u. u = s" env i] by (auto simp: keeps_iff)

lemma finish_then_get:
  "db_then (update_jobs p f) (get_build_job env i) s = (x, t) \<Longrightarrow> t = s \<lparr> bs_jobs := update_where (p s) f (bs_jobs s) \<rparr>"
  by (auto simp: db_then_def db_bind_def update_jobs_def dest: get_build_job_state)

text \<open>C27: what finishing a build leaves: a job whose cancellation was requested ends as cancelled
  with no output, whatever the worker reports; any other job takes the reported status; a
  quarantined job and every other job stay as they are.\<close>

theorem finish_build_job_spec:
  assumes "build_inv env s" and "finish_build_job env now i status logs err path sha sz ec md s = (Inr job, t)"
    and "r \<in> set (bs_jobs s)"
  shows "\<exists>r' \<in> set (bs_jobs t). jr_id r' = jr_id r \<and>
    (if jr_id r \<noteq> i \<or> remediated s i then r' = r
     else jr_status r' = (if jr_cancel_requested_at r \<noteq> None then ''cancelled'' else status) \<and>
       jr_logs r' = bounded_log_text logs \<and> jr_completed_at r' = Some now \<and>
       (jr_cancel_requested_at r \<noteq> None \<and> status \<noteq> ''cancelled'' \<longrightarrow>
          jr_output_path r' = [] \<and> jr_output_sha256 r' = [] \<and> jr_output_size_bytes r' = 0 \<and> jr_exit_code r' = None))"
proof -
  from assms(2) obtain p h cm m where t: "t = s \<lparr> bs_jobs := update_where (\<lambda>r. jr_id r = i \<and> \<not> remediated s (jr_id r))
      (finish_row now status (bounded_log_text logs) (bounded_error_text err) p h sz ec cm m
         (terminal_build_progress_stage status) (terminal_build_progress_message status md)) (bs_jobs s) \<rparr>"
    unfolding finish_build_job_def Let_def lift_eq_Inr
    by (elim exE conjE) (drule finish_then_get, blast)
  let ?f = "finish_row now status (bounded_log_text logs) (bounded_error_text err) p h sz ec cm m
         (terminal_build_progress_stage status) (terminal_build_progress_message status md)"
  define r' where "r' = (if jr_id r = i \<and> \<not> remediated s (jr_id r) then ?f r else r)"
  have "r' \<in> set (bs_jobs t)" using assms(3) by (auto simp: t set_update_where r'_def)
  then show ?thesis by (intro bexI [of _ r']) (auto simp: r'_def finish_row_def Let_def)
qed

theorem finish_build_job_spec_witness:
  "\<exists>job t. finish_build_job demo_json ''t6'' 1 ''succeeded'' ''done'' [] ''/out'' demo_hash 7 (Some 0) None demo_builds = (Inr job, t) \<and>
     (\<exists>r' \<in> set (bs_jobs t). jr_id r' = 1 \<and> jr_status r' = ''cancelled'' \<and> jr_output_path r' = [])"
proof -
  let ?m = "finish_build_job demo_json ''t6'' 1 ''succeeded'' ''done'' [] ''/out'' demo_hash 7 (Some 0) None demo_builds"
  have ok: "is_ok (fst ?m)" by code_simp
  obtain x t where m: "?m = (x, t)" by (rule prod.exhaust)
  with ok obtain job where m: "?m = (Inr job, t)" unfolding is_ok_iff by auto
  have h: "hd (bs_jobs demo_builds) \<in> set (bs_jobs demo_builds)" and i: "jr_id (hd (bs_jobs demo_builds)) = 1"
    and c: "jr_cancel_requested_at (hd (bs_jobs demo_builds)) \<noteq> None" and n: "\<not> remediated demo_builds 1"
    and st: "''succeeded'' \<noteq> ''cancelled''"
    by code_simp+
  from finish_build_job_spec [OF demo_builds_inv m h] i c n st m show ?thesis by auto
qed

text \<open>Two rows that differ in nothing but the time of the last change and, while the job is running, the
  metadata of the cache.\<close>

definition same_build :: "job_row \<Rightarrow> job_row \<Rightarrow> bool" where
  "same_build r r' =
     (r' = r \<lparr> jr_cache_metadata := jr_cache_metadata r', jr_updated_at := jr_updated_at r' \<rparr> \<and>
      (jr_status r = ''running'' \<or> jr_cache_metadata r' = jr_cache_metadata r))"

lemma merge_job_same:
  assumes "same_build r r'" and "jr_status r \<noteq> ''queued''"
  shows "same_build r (merge_job now new r')"
proof -
  obtain m u where r': "r' = r \<lparr> jr_cache_metadata := m, jr_updated_at := u \<rparr>"
    using assms(1) unfolding same_build_def by blast
  with assms show ?thesis by (auto simp: same_build_def merge_job_def)
qed

lemma update_same_build:
  assumes "\<And>r'. same_build r r' \<Longrightarrow> same_build r (f r')"
  shows "keeps (\<lambda>u. \<exists>r' \<in> set (bs_jobs u). same_build r r') (update_jobs q f)"
  unfolding keeps_iff
proof (intro allI impI, elim bexE)
  fix u :: build_store and r' :: job_row
  assume "r' \<in> set (bs_jobs u)" "same_build r r'"
  with assms show "\<exists>r' \<in> set (bs_jobs (snd (update_jobs q f u))). same_build r r'"
    by (intro bexI [of _ "if q u r' then f r' else r'"]) (auto simp: update_jobs_def set_update_where)
qed

text \<open>C28: a synchronisation never changes what a claimed job builds: when the managing service sends a
  job again, successfully or not, a job that is no longer queued keeps every column but the time of the
  last change and, while it is running, the metadata of the cache; no such job disappears.\<close>

theorem resent_job_keeps_claimed_inputs:
  assumes "upsert_managed_build_job env now k a b c d e f g s = (x, t)" and "r \<in> set (bs_jobs s)"
    and "jr_status r \<noteq> ''queued''"
  shows "\<exists>r' \<in> set (bs_jobs t). same_build r r'"
proof -
  let ?P = "\<lambda>u. \<exists>r' \<in> set (bs_jobs u). same_build r r'"
  have ins: "keeps ?P (insert_job mk)" for mk by (auto simp: keeps_iff insert_job_def Let_def)
  have "keeps ?P (upsert_managed_build_job env now k a b c d e f g)"
    unfolding upsert_managed_build_job_def upsert_job_def
    by (intro db_rules ins update_same_build merge_job_same assms(3))
  moreover have "?P s" using assms(2) by (intro bexI [of _ r]) (simp_all add: same_build_def)
  ultimately have "?P (snd (upsert_managed_build_job env now k a b c d e f g s))" by (rule keeps_snd)
  then show ?thesis by (simp add: assms(1))
qed

theorem resent_job_keeps_claimed_inputs_witness:
  "jr_status (hd (bs_jobs demo_builds)) = ''running'' \<and>
   (\<exists>r' \<in> set (bs_jobs (snd (upsert_managed_build_job demo_json ''t7'' ''job-1'' ''desktop_image'' None None None ''r2''
      demo_hash None demo_builds))). same_build (hd (bs_jobs demo_builds)) r')"
proof -
  have h: "hd (bs_jobs demo_builds) \<in> set (bs_jobs demo_builds)" and st: "jr_status (hd (bs_jobs demo_builds)) = ''running''"
    by code_simp+
  have nq: "jr_status (hd (bs_jobs demo_builds)) \<noteq> ''queued''" unfolding st by simp
  show ?thesis
    by (rule conjI [OF st], rule resent_job_keeps_claimed_inputs [OF _ h nq]) (rule prod.collapse [symmetric])
qed

text \<open>C29: a report page of builds is a prefix of an arrangement of all managed jobs; it is not
  empty while there is a managed job, holds at most the requested number of rows, and stays within
  the byte budget unless it is a single row.\<close>

theorem build_report_page_spec:
  assumes "list_build_jobs_report_page env ac rc tc round max_items budget s = (Inr jobs, t)"
  shows "t = s \<and> (\<exists>rows k. mset rows = mset (filter (\<lambda>r. jr_managed_job_id r \<noteq> None) (bs_jobs s)) \<and>
    map job_id jobs = map jr_id (take k rows) \<and> (rows \<noteq> [] \<longrightarrow> jobs \<noteq> []) \<and> length jobs \<le> max 1 max_items \<and>
    (1 < length jobs \<longrightarrow> sum_list (map estimated_bytes (take k rows)) \<le> max 1 budget))"
proof -
  define rows where "rows = ranked_jobs ac rc tc (unat round) (bs_jobs s)"
  obtain k where k: "k \<le> length rows" "page_of estimated_bytes (clamp_limit max_items) (clamp_limit budget) rows = take k rows"
    "rows \<noteq> [] \<Longrightarrow> 0 < k"
    "1 < k \<Longrightarrow> k \<le> clamp_limit max_items \<and> sum_list (map estimated_bytes (take k rows)) \<le> clamp_limit budget"
    by (rule page_of_spec [of rows estimated_bytes "clamp_limit max_items" "clamp_limit budget"]) blast
  from assms have t: "t = s" and c: "rcollect (map (job_of_row env) (take k rows)) = Inr jobs"
    by (simp_all add: list_build_jobs_report_page_def build_job_rows_to_models_def rows_def [symmetric] k(2))
  have ids: "map job_id jobs = map jr_id (take k rows)" using rcollect_key [OF c job_of_row_id] .
  then have len: "length jobs = k" using k(1) by (metis length_map length_take min.absorb2)
  have cl: "clamp_limit n \<le> max 1 n" for n by (simp add: clamp_limit_def)
  have "length jobs \<le> max 1 max_items"
    using k(4) len order_trans [OF _ cl [of max_items], of k] by (cases "1 < k") simp_all
  moreover have "1 < length jobs \<longrightarrow> sum_list (map estimated_bytes (take k rows)) \<le> max 1 budget"
    using k(4) len order_trans [OF _ cl [of budget]] by blast
  moreover have "rows \<noteq> [] \<longrightarrow> jobs \<noteq> []" using k(3) len by auto
  ultimately show ?thesis
    using t ids mset_ranked_jobs [of ac rc tc "unat round" "bs_jobs s", folded rows_def]
    by (intro conjI exI [of _ rows] exI [of _ k]) simp_all
qed

theorem build_report_page_spec_witness:
  "\<exists>jobs t. list_build_jobs_report_page demo_json None None None 0 1 1 demo_builds = (Inr jobs, t) \<and> length jobs \<le> 1"
proof -
  let ?m = "list_build_jobs_report_page demo_json None None None 0 1 1 demo_builds"
  have ok: "is_ok (fst ?m)" by code_simp
  obtain x t where m: "?m = (x, t)" by (rule prod.exhaust)
  with ok obtain jobs where m: "?m = (Inr jobs, t)" unfolding is_ok_iff by auto
  from build_report_page_spec [OF m] m show ?thesis by auto
qed

end
