(* ===== verification/Nest_Artifacts.thy ===== *)
theory Nest_Artifacts
  imports Nest_Build_Queue
begin

text \<open>
  The cache artifacts of \<^verbatim>\<open>src/src/db.rs\<close>: rows keyed by type and hash, the inventory generation
  that the triggers of the schema advance with every changed row, the protections a managing
  server sends, and the purge of the artifacts of a quarantined build. The theory ends with the
  state machine of the whole build store and its reachable states.
\<close>

section \<open>Rows and statements\<close>

definition artifact_of_row :: "json_env \<Rightarrow> artifact_row \<Rightarrow> cache_artifact app_result" where
  "artifact_of_row env row =
     rbind (json_from_db env (ar_references_json row) ''cache artifact references_json'') (\<lambda>refs.
     rbind (metadata_from_db env (ar_cache_metadata row) ''cache artifact metadata'') (\<lambda>metadata.
     Inr \<lparr> art_id = ar_id row, art_managed_artifact_id = ar_managed_artifact_id row,
           art_artifact_type = ar_artifact_type row, art_hash = ar_hash row, art_size_bytes = ar_size_bytes row,
           art_path = ar_path row, art_store_path = ar_store_path row, art_narinfo_path = ar_narinfo_path row,
           art_nar_url = ar_nar_url row, art_file_hash = ar_file_hash row, art_nar_hash = ar_nar_hash row,
           art_nar_size_bytes = ar_nar_size_bytes row, art_closure_size_bytes = ar_closure_size_bytes row,
           art_closure_file_size_bytes = ar_closure_file_size_bytes row, art_compression = ar_compression row,
           art_references = refs, art_serving_url = ar_serving_url row,
           art_source_build_job_id = ar_source_build_job_id row, art_cache_metadata = metadata,
           art_created_at = ar_created_at row, art_updated_at = ar_updated_at row \<rparr>))"

definition cache_artifact_rows_to_models :: "json_env \<Rightarrow> artifact_row list \<Rightarrow> cache_artifact list app_result" where
  "cache_artifact_rows_to_models env rows = rcollect (map (artifact_of_row env) rows)"

text \<open>The triggers: every row inserted, updated or deleted advances the generation by one.\<close>

definition advance :: "nat \<Rightarrow> cache_inventory \<Rightarrow> cache_inventory" where
  "advance n v = v \<lparr> inv_generation := inv_generation v + int n \<rparr>"

definition ar_key :: "artifact_row \<Rightarrow> str \<times> str" where
  "ar_key r = (ar_artifact_type r, ar_hash r)"

definition artifacts_unique :: "artifact_row list \<Rightarrow> bool" where
  "artifacts_unique rows =
     (distinct (map ar_id rows) \<and> distinct (map ar_key rows) \<and> distinct (List.map_filter ar_managed_artifact_id rows))"

text \<open>A statement that changes \<open>n\<close> rows; one that breaks a uniqueness constraint changes none.\<close>

definition write_artifacts :: "nat \<Rightarrow> (artifact_row list \<Rightarrow> artifact_row list) \<Rightarrow> unit build_db" where
  "write_artifacts n f s =
     (let rows = f (bs_artifacts s)
      in if \<not> artifacts_unique rows then (Inl (Sqlx UniqueViolation), s)
         else (Inr (), s \<lparr> bs_artifacts := rows, bs_inventory := advance n (bs_inventory s) \<rparr>))"

definition delete_artifact_row :: "int \<Rightarrow> unit build_db" where
  "delete_artifact_row i =
     db_bind (db_get (\<lambda>s. count_where (\<lambda>r. ar_id r = i) (bs_artifacts s))) (\<lambda>n.
     write_artifacts n (delete_where (\<lambda>r. ar_id r = i)))"

section \<open>Reading\<close>

definition count_cache_artifacts :: "nat build_db" where
  "count_cache_artifacts = db_get (\<lambda>s. length (bs_artifacts s))"

record cache_artifact_root =
  root_id :: int
  root_artifact_type :: str
  root_hash :: str
  root_path :: str
  root_store_path :: str
  root_narinfo_path :: str
  root_nar_url :: str
  root_source_build_job_id :: "str option"
  root_size_bytes :: int
  root_closure_file_size_bytes :: int
  root_created_at :: str

definition root_of_row :: "artifact_row \<Rightarrow> cache_artifact_root" where
  "root_of_row r =
     \<lparr> root_id = ar_id r, root_artifact_type = ar_artifact_type r, root_hash = ar_hash r, root_path = ar_path r,
       root_store_path = ar_store_path r, root_narinfo_path = ar_narinfo_path r, root_nar_url = ar_nar_url r,
       root_source_build_job_id = ar_source_build_job_id r, root_size_bytes = ar_size_bytes r,
       root_closure_file_size_bytes = ar_closure_file_size_bytes r, root_created_at = ar_created_at r \<rparr>"

definition list_cache_artifact_roots :: "cache_artifact_root list build_db" where
  "list_cache_artifact_roots =
     db_get (\<lambda>s. map root_of_row (order_desc (\<lambda>r. (ar_created_at r, ar_id r)) (bs_artifacts s)))"

definition build_job_retention_states :: "(str option \<times> str) list build_db" where
  "build_job_retention_states =
     db_get (\<lambda>s. map (\<lambda>r. (jr_managed_job_id r, jr_status r)) (order_desc (\<lambda>r. (jr_created_at r, jr_id r)) (bs_jobs s)))"

definition next_cache_artifact :: "json_env \<Rightarrow> int \<Rightarrow> cache_artifact option build_db" where
  "next_cache_artifact env after =
     db_bind (db_get (\<lambda>s. sort_key ar_id (filter (\<lambda>r. after < ar_id r) (bs_artifacts s)))) (\<lambda>rows.
       case rows of
         [] \<Rightarrow> db_ret None
       | r # _ \<Rightarrow> db_bind (db_lift (artifact_of_row env r)) (\<lambda>a. db_ret (Some a)))"

definition list_cache_artifacts :: "json_env \<Rightarrow> cache_artifact list build_db" where
  "list_cache_artifacts env =
     db_bind (db_get (\<lambda>s. order_desc (\<lambda>r. (ar_created_at r, ar_id r)) (bs_artifacts s))) (\<lambda>rows.
     db_lift (cache_artifact_rows_to_models env rows))"

definition artifact_estimated_bytes :: "artifact_row \<Rightarrow> nat" where
  "artifact_estimated_bytes r =
     2048 + 4 * (sql_length_opt (ar_managed_artifact_id r) + sql_length (ar_artifact_type r) + sql_length (ar_hash r) +
       sql_length (ar_path r) + sql_length (ar_store_path r) + sql_length (ar_narinfo_path r) +
       sql_length (ar_nar_url r) + sql_length (ar_file_hash r) + sql_length (ar_nar_hash r) +
       sql_length (ar_compression r) + sql_length (ar_references_json r) + sql_length (ar_serving_url r) +
       sql_length_opt (ar_source_build_job_id r) + sql_length (ar_cache_metadata r) + sql_length (ar_created_at r) +
       sql_length (ar_updated_at r))"

text \<open>The rows below the cursor, newest identity first.\<close>

definition below_cursor :: "int option \<Rightarrow> artifact_row list \<Rightarrow> artifact_row list" where
  "below_cursor cursor rows =
     order_desc ar_id (filter (\<lambda>r. case cursor of None \<Rightarrow> True | Some c \<Rightarrow> ar_id r < c) rows)"

definition artifact_page :: "int option \<Rightarrow> nat \<Rightarrow> nat \<Rightarrow> artifact_row list \<Rightarrow> artifact_row list" where
  "artifact_page cursor max_items budget rows =
     page_of artifact_estimated_bytes (clamp_limit max_items) (clamp_limit budget) (below_cursor cursor rows)"

definition list_cache_artifacts_report_page ::
  "json_env \<Rightarrow> int option \<Rightarrow> nat \<Rightarrow> nat \<Rightarrow> (cache_artifact list \<times> bool) build_db" where
  "list_cache_artifacts_report_page env cursor max_items budget =
     db_bind (db_get (\<lambda>s. artifact_page cursor max_items budget (bs_artifacts s))) (\<lambda>rows.
     db_bind (db_get (\<lambda>s. length (below_cursor cursor (bs_artifacts s)))) (\<lambda>remaining.
     let complete = (length rows = remaining)
     in db_bind (db_lift (cache_artifact_rows_to_models env rows)) (\<lambda>models. db_ret (models, complete))))"

definition cache_inventory_state :: "cache_inventory build_db" where
  "cache_inventory_state = db_get bs_inventory"

definition get_cache_artifact_by_key :: "json_env \<Rightarrow> str \<Rightarrow> str \<Rightarrow> cache_artifact build_db" where
  "get_cache_artifact_by_key env artifact_type hash =
     db_bind (db_get (\<lambda>s. find (\<lambda>r. ar_artifact_type r = artifact_type \<and> ar_hash r = hash) (bs_artifacts s))) (\<lambda>row.
     db_bind (db_lift (ok_or row NotFound)) (\<lambda>row. db_lift (artifact_of_row env row)))"

text \<open>\<open>julianday\<close> gives the instant of a text in milliseconds, \<open>now_ms\<close> is the current one.\<close>

definition verification_due :: "(str \<Rightarrow> int option) \<Rightarrow> int \<Rightarrow> artifact_row \<Rightarrow> bool" where
  "verification_due julianday now_ms r =
     (case ar_last_verified_at r of
        None \<Rightarrow> True
      | Some t \<Rightarrow>
          (case julianday t of
             None \<Rightarrow> True
           | Some d \<Rightarrow> d \<le> now_ms - 86400000 \<or> now_ms + 300000 < d))"

definition cache_artifacts_due_for_verification ::
  "json_env \<Rightarrow> (str \<Rightarrow> int option) \<Rightarrow> int \<Rightarrow> int \<Rightarrow> cache_artifact list build_db" where
  "cache_artifacts_due_for_verification env julianday now_ms limit =
     db_bind (db_get (\<lambda>s. take (nat (max limit 1))
        (sort_key (\<lambda>r. (case ar_last_verified_at r of Some t \<Rightarrow> t | None \<Rightarrow> [], ar_created_at r, ar_id r))
           (filter (verification_due julianday now_ms) (bs_artifacts s))))) (\<lambda>rows.
     db_lift (cache_artifact_rows_to_models env rows))"

section \<open>Writing\<close>

fun protect_keys :: "str \<Rightarrow> (str \<times> str) list \<Rightarrow> unit build_db" where
  "protect_keys now [] = db_ret ()"
| "protect_keys now ((artifact_type, hash) # keys) =
     db_bind (db_lift (normalize_artifact_type artifact_type ''artifact_type'')) (\<lambda>artifact_type.
     db_bind (db_lift (normalize_sha256 hash ''hash'' False)) (\<lambda>hash.
     db_then (\<lambda>s. (Inr (), s \<lparr> bs_protections :=
        (if list_ex (\<lambda>p. cp_artifact_type p = artifact_type \<and> cp_hash p = hash) (bs_protections s)
         then update_where (\<lambda>p. cp_artifact_type p = artifact_type \<and> cp_hash p = hash)
                (\<lambda>p. p \<lparr> cp_updated_at := now \<rparr>) (bs_protections s)
         else bs_protections s @ [\<lparr> cp_artifact_type = artifact_type, cp_hash = hash, cp_updated_at = now \<rparr>]) \<rparr>))
     (protect_keys now keys)))"

definition replace_managed_cache_protections :: "str \<Rightarrow> (str \<times> str) list \<Rightarrow> bool \<Rightarrow> unit build_db" where
  "replace_managed_cache_protections now keys complete =
     db_transaction (db_then (protect_keys now keys)
       (if complete
        then (\<lambda>s. (Inr (), s \<lparr> bs_protections := delete_where (\<lambda>p. cp_updated_at p \<noteq> now) (bs_protections s) \<rparr>))
        else db_ret ()))"

definition list_managed_cache_protections :: "(str \<times> str) set build_db" where
  "list_managed_cache_protections = db_get (\<lambda>s. set (map (\<lambda>p. (cp_artifact_type p, cp_hash p)) (bs_protections s)))"

definition mark_cache_artifact_verified :: "str \<Rightarrow> int \<Rightarrow> unit build_db" where
  "mark_cache_artifact_verified now i =
     db_bind (db_get (\<lambda>s. count_where (\<lambda>r. ar_id r = i) (bs_artifacts s))) (\<lambda>n.
     write_artifacts n (update_where (\<lambda>r. ar_id r = i)
       (\<lambda>r. r \<lparr> ar_verification_status := ''ready'', ar_last_verified_at := Some now \<rparr>)))"

definition delete_cache_artifact :: "int \<Rightarrow> unit build_db" where
  "delete_cache_artifact i = delete_artifact_row i"

definition merge_artifact :: "artifact_row \<Rightarrow> artifact_row \<Rightarrow> artifact_row" where
  "merge_artifact new old =
     old \<lparr> ar_managed_artifact_id := ar_managed_artifact_id new, ar_size_bytes := ar_size_bytes new,
           ar_path := ar_path new, ar_store_path := ar_store_path new, ar_narinfo_path := ar_narinfo_path new,
           ar_nar_url := ar_nar_url new, ar_file_hash := ar_file_hash new, ar_nar_hash := ar_nar_hash new,
           ar_nar_size_bytes := ar_nar_size_bytes new, ar_closure_size_bytes := ar_closure_size_bytes new,
           ar_closure_file_size_bytes := ar_closure_file_size_bytes new, ar_compression := ar_compression new,
           ar_references_json := ar_references_json new, ar_serving_url := ar_serving_url new,
           ar_source_build_job_id := ar_source_build_job_id new, ar_cache_metadata := ar_cache_metadata new,
           ar_updated_at := ar_updated_at new \<rparr>"

text \<open>\<^verbatim>\<open>INSERT ... ON CONFLICT(artifact_type, hash) DO UPDATE\<close>; a managed identity another row has
  is an error in both cases.\<close>

definition put_artifact :: "artifact_row \<Rightarrow> unit build_db" where
  "put_artifact new =
     db_bind (db_get (\<lambda>s. (list_ex (\<lambda>r. ar_key r = ar_key new) (bs_artifacts s), bs_artifact_seq s + 1)))
       (\<lambda>(present, i).
          if present then write_artifacts 1 (update_where (\<lambda>r. ar_key r = ar_key new) (merge_artifact new))
          else db_then (write_artifacts 1 (\<lambda>rows. rows @ [new \<lparr> ar_id := i \<rparr>]))
                 (\<lambda>s. (Inr (), s \<lparr> bs_artifact_seq := i \<rparr>)))"

definition normalize_opt_managed_id :: "str option \<Rightarrow> str \<Rightarrow> str option app_result" where
  "normalize_opt_managed_id v field =
     (case v of None \<Rightarrow> Inr None | Some x \<Rightarrow> map_sum id Some (normalize_managed_id x field))"

definition upsert_cache_artifact ::
  "json_env \<Rightarrow> str \<Rightarrow> str option \<Rightarrow> str \<Rightarrow> str \<Rightarrow> int \<Rightarrow> str \<Rightarrow> str \<Rightarrow> str \<Rightarrow> str \<Rightarrow> str \<Rightarrow> str \<Rightarrow> int \<Rightarrow> int \<Rightarrow> int \<Rightarrow>
     str \<Rightarrow> json option \<Rightarrow> str \<Rightarrow> str option \<Rightarrow> json option \<Rightarrow> cache_artifact build_db" where
  "upsert_cache_artifact env now managed_artifact_id artifact_type hash size_bytes path store_path narinfo_path nar_url
     file_hash nar_hash nar_size_bytes closure_size_bytes closure_file_size_bytes compression references serving_url
     source_build_job_id cache_metadata =
     db_bind (db_lift (normalize_opt_managed_id managed_artifact_id ''managed_artifact_id'')) (\<lambda>managed_artifact_id.
     db_bind (db_lift (normalize_artifact_type artifact_type ''artifact_type'')) (\<lambda>artifact_type.
     db_bind (db_lift (normalize_sha256 hash ''hash'' False)) (\<lambda>hash.
     db_then (db_lift (validate_non_negative_i64 size_bytes ''size_bytes''))
     (db_bind (db_lift (normalize_absolute_path path ''path'')) (\<lambda>path.
     db_bind (db_lift (normalize_optional_store_path store_path ''store_path'')) (\<lambda>store_path.
     db_bind (db_lift (normalize_optional_absolute_path narinfo_path ''narinfo_path'')) (\<lambda>narinfo_path.
     db_bind (db_lift (normalize_cache_relative_path nar_url ''nar_url'')) (\<lambda>nar_url.
     db_bind (db_lift (normalize_optional_nix_hash file_hash ''file_hash'')) (\<lambda>file_hash.
     db_bind (db_lift (normalize_optional_nix_hash nar_hash ''nar_hash'')) (\<lambda>nar_hash.
     db_then (db_lift (validate_non_negative_i64 nar_size_bytes ''nar_size_bytes''))
     (db_then (db_lift (validate_non_negative_i64 closure_size_bytes ''closure_size_bytes''))
     (db_then (db_lift (validate_non_negative_i64 closure_file_size_bytes ''closure_file_size_bytes''))
     (db_bind (db_lift (normalize_optional_cache_token compression ''compression'')) (\<lambda>compression.
     db_bind (db_lift (references_to_string env references)) (\<lambda>references_json.
     db_bind (db_lift (normalize_optional_url serving_url ''serving_url'')) (\<lambda>serving_url.
     db_bind (db_lift (normalize_opt_managed_id source_build_job_id ''source_build_job_id'')) (\<lambda>source_build_job_id.
     db_bind (db_lift (metadata_to_string_with_limit env cache_metadata ''cache_metadata''
                         max_cache_artifact_metadata_bytes)) (\<lambda>cache_metadata.
     db_then (put_artifact
                \<lparr> ar_id = 0, ar_managed_artifact_id = managed_artifact_id, ar_artifact_type = artifact_type,
                  ar_hash = hash, ar_size_bytes = size_bytes, ar_path = path, ar_store_path = store_path,
                  ar_narinfo_path = narinfo_path, ar_nar_url = nar_url, ar_file_hash = file_hash,
                  ar_nar_hash = nar_hash, ar_nar_size_bytes = nar_size_bytes,
                  ar_closure_size_bytes = closure_size_bytes,
                  ar_closure_file_size_bytes = closure_file_size_bytes, ar_compression = compression,
                  ar_references_json = references_json, ar_serving_url = serving_url,
                  ar_source_build_job_id = source_build_job_id, ar_cache_metadata = cache_metadata,
                  ar_verification_status = ''pending'', ar_last_verified_at = None,
                  ar_created_at = now, ar_updated_at = now \<rparr>)
     (get_cache_artifact_by_key env artifact_type hash)))))))))))))))))))"

definition or_zero :: "int option \<Rightarrow> int" where
  "or_zero v = (case v of Some n \<Rightarrow> n | None \<Rightarrow> 0)"

definition create_cache_artifact :: "json_env \<Rightarrow> str \<Rightarrow> create_cache_artifact_request \<Rightarrow> cache_artifact build_db" where
  "create_cache_artifact env now input =
     upsert_cache_artifact env now None (cca_artifact_type input) (cca_hash input) (cca_size_bytes input) (cca_path input)
       (opt_text (cca_store_path input)) (opt_text (cca_narinfo_path input)) (opt_text (cca_nar_url input))
       (opt_text (cca_file_hash input)) (opt_text (cca_nar_hash input)) (or_zero (cca_nar_size_bytes input))
       (or_zero (cca_closure_size_bytes input)) (or_zero (cca_closure_file_size_bytes input))
       (opt_text (cca_compression input)) (cca_references input) (opt_text (cca_serving_url input))
       (cca_source_build_job_id input) (cca_cache_metadata input)"

section \<open>Purging a quarantined build\<close>

fun delete_artifact_rows :: "int list \<Rightarrow> unit build_db" where
  "delete_artifact_rows [] = db_ret ()"
| "delete_artifact_rows (i # ids) = db_then (delete_artifact_row i) (delete_artifact_rows ids)"

fun check_artifacts_gone :: "int list \<Rightarrow> unit build_db" where
  "check_artifacts_gone [] = db_ret ()"
| "check_artifacts_gone (i # ids) =
     db_bind (db_get (\<lambda>s. count_where (\<lambda>r. ar_id r = i) (bs_artifacts s))) (\<lambda>remaining_by_id.
     if remaining_by_id \<noteq> 0 then db_err (Config ''protected build cache purge left selected artifact rows'')
     else check_artifacts_gone ids)"

definition associated :: "str option \<Rightarrow> str \<Rightarrow> artifact_row \<Rightarrow> bool" where
  "associated managed_job_id output_path r =
     (managed_job_id \<noteq> None \<and> ar_source_build_job_id r = managed_job_id \<or> output_path \<noteq> [] \<and> ar_store_path r = output_path)"

definition purged :: "str \<Rightarrow> remediation \<Rightarrow> remediation" where
  "purged now m = m \<lparr> rem_cache_purge_status := ''purged'', rem_purged_at := Some now, rem_updated_at := now \<rparr>"

definition complete_protected_build_job_cache_purge ::
  "json_env \<Rightarrow> str \<Rightarrow> int \<times> str option \<times> str \<Rightarrow> int list \<Rightarrow> unit build_db" where
  "complete_protected_build_job_cache_purge env now remediation artifact_ids =
     (case remediation of (i, managed_job_id, output_path) \<Rightarrow>
      db_transaction
        (db_then (delete_artifact_rows artifact_ids)
        (db_then (check_artifacts_gone artifact_ids)
        (db_bind (db_get (\<lambda>s. count_where (associated managed_job_id output_path) (bs_artifacts s))) (\<lambda>remaining.
         if remaining \<noteq> 0 then db_err (Config ''protected build cache purge left associated artifact rows'')
         else
           db_then (update_jobs (\<lambda>_ r. jr_id r = i)
                      (\<lambda>r. r \<lparr> jr_cache_metadata := je_to_string env (safe_metadata ''purged''), jr_updated_at := now \<rparr>))
           (db_bind (\<lambda>s. (let p = (\<lambda>m. rem_job_id m = i \<and> rem_cache_purge_status m = ''pending_purge'')
                          in (Inr (count_where p (bs_remediations s)),
                              s \<lparr> bs_remediations := update_where p (purged now) (bs_remediations s) \<rparr>))) (\<lambda>updated.
            if updated \<noteq> 1 then db_err (Config ''protected build cache purge ledger was not pending'')
            else db_ret ())))))))"


section \<open>The artifact table\<close>

definition artifacts_inv :: "build_store \<Rightarrow> bool" where
  "artifacts_inv s =
     (artifacts_unique (bs_artifacts s) \<and> (\<forall>r \<in> set (bs_artifacts s). ar_id r \<le> bs_artifact_seq s) \<and>
      distinct (map (\<lambda>p. (cp_artifact_type p, cp_hash p)) (bs_protections s)))"

definition store_ok :: "json_env \<Rightarrow> build_store \<Rightarrow> bool" where
  "store_ok env s = (build_inv env s \<and> artifacts_inv s)"

lemma build_inv_frame [simp]:
  "build_inv env (s \<lparr> bs_artifacts := a \<rparr>) = build_inv env s"
  "build_inv env (s \<lparr> bs_artifact_seq := b \<rparr>) = build_inv env s"
  "build_inv env (s \<lparr> bs_inventory := c \<rparr>) = build_inv env s"
  "build_inv env (s \<lparr> bs_protections := d \<rparr>) = build_inv env s"
  by (simp_all add: build_inv_def job_ok_def remediated_def)

lemma artifacts_inv_frame [simp]:
  "artifacts_inv (s \<lparr> bs_jobs := a \<rparr>) = artifacts_inv s"
  "artifacts_inv (s \<lparr> bs_job_seq := b \<rparr>) = artifacts_inv s"
  "artifacts_inv (s \<lparr> bs_remediations := c \<rparr>) = artifacts_inv s"
  "artifacts_inv (s \<lparr> bs_inventory := d \<rparr>) = artifacts_inv s"
  by (simp_all add: artifacts_inv_def)

lemma write_artifacts_cases:
  obtains "\<not> artifacts_unique (f (bs_artifacts s))" and "write_artifacts n f s = (Inl (Sqlx UniqueViolation), s)"
  | "artifacts_unique (f (bs_artifacts s))" and "write_artifacts n f s =
      (Inr (), s \<lparr> bs_artifacts := f (bs_artifacts s), bs_inventory := advance n (bs_inventory s) \<rparr>)"
  by (cases "artifacts_unique (f (bs_artifacts s))") (simp_all add: write_artifacts_def)

lemma write_artifacts_keeps:
  assumes "\<And>s r. artifacts_inv s \<Longrightarrow> r \<in> set (f (bs_artifacts s)) \<Longrightarrow> ar_id r \<le> bs_artifact_seq s"
  shows "keeps (store_ok env) (write_artifacts n f)"
  unfolding keeps_iff
proof (intro allI impI)
  fix s
  assume ok: "store_ok env s"
  show "store_ok env (snd (write_artifacts n f s))"
  proof (rule write_artifacts_cases [of f s n])
    assume "artifacts_unique (f (bs_artifacts s))" and "write_artifacts n f s =
      (Inr (), s \<lparr> bs_artifacts := f (bs_artifacts s), bs_inventory := advance n (bs_inventory s) \<rparr>)"
    with ok assms [of s] show ?thesis by (simp add: store_ok_def artifacts_inv_def)
  qed (use ok in simp)
qed

lemma delete_artifact_row_keeps [db_rules]: "keeps (store_ok env) (delete_artifact_row i)"
  unfolding delete_artifact_row_def by (intro db_rules write_artifacts_keeps) (auto simp: artifacts_inv_def)

lemma delete_artifact_rows_keeps [db_rules]: "keeps (store_ok env) (delete_artifact_rows ids)"
  by (induction ids) (simp only: delete_artifact_rows.simps, intro db_rules; assumption)+

lemma check_artifacts_gone_keeps [db_rules]: "keeps P (check_artifacts_gone ids)"
  by (induction ids) (simp only: check_artifacts_gone.simps, intro db_rules; assumption)+

lemma mark_cache_artifact_verified_keeps: "keeps (store_ok env) (mark_cache_artifact_verified now i)"
  unfolding mark_cache_artifact_verified_def
  by (intro db_rules write_artifacts_keeps) (auto simp: artifacts_inv_def set_update_where)

lemma put_artifact_keeps: "keeps (store_ok env) (put_artifact new)"
  unfolding put_artifact_def
proof (rule keeps_bind_get)
  fix s
  assume ok: "store_ok env s"
  define i where "i = bs_artifact_seq s + 1"
  have upd: "keeps (store_ok env) (write_artifacts 1 (update_where (\<lambda>r. ar_key r = ar_key new) (merge_artifact new)))"
    by (intro write_artifacts_keeps) (auto simp: artifacts_inv_def set_update_where merge_artifact_def)
  have ins: "store_ok env (snd (db_then (write_artifacts 1 (\<lambda>rows. rows @ [new \<lparr> ar_id := i \<rparr>]))
      (\<lambda>s. (Inr (), s \<lparr> bs_artifact_seq := i \<rparr>)) s))"
  proof (rule write_artifacts_cases [of "\<lambda>rows. rows @ [new \<lparr> ar_id := i \<rparr>]" s 1])
    assume u: "artifacts_unique (bs_artifacts s @ [new \<lparr> ar_id := i \<rparr>])"
      and w: "write_artifacts 1 (\<lambda>rows. rows @ [new \<lparr> ar_id := i \<rparr>]) s =
        (Inr (), s \<lparr> bs_artifacts := bs_artifacts s @ [new \<lparr> ar_id := i \<rparr>], bs_inventory := advance 1 (bs_inventory s) \<rparr>)"
    from ok u have "artifacts_inv (s \<lparr> bs_artifacts := bs_artifacts s @ [new \<lparr> ar_id := i \<rparr>],
        bs_inventory := advance 1 (bs_inventory s), bs_artifact_seq := i \<rparr>)"
      by (auto simp: store_ok_def artifacts_inv_def i_def intro: order_trans)
    with ok w show ?thesis by (simp add: store_ok_def)
  qed (use ok in simp)
  show "store_ok env (snd ((case (list_ex (\<lambda>r. ar_key r = ar_key new) (bs_artifacts s), bs_artifact_seq s + 1) of
      (present, i) \<Rightarrow>
        if present then write_artifacts 1 (update_where (\<lambda>r. ar_key r = ar_key new) (merge_artifact new))
        else db_then (write_artifacts 1 (\<lambda>rows. rows @ [new \<lparr> ar_id := i \<rparr>]))
               (\<lambda>s. (Inr (), s \<lparr> bs_artifact_seq := i \<rparr>))) s))"
    unfolding prod.case i_def [symmetric] using ins keeps_snd [OF upd ok] by (simp split: if_split)
qed

lemma get_cache_artifact_by_key_keeps [db_rules]: "keeps P (get_cache_artifact_by_key env t h)"
  unfolding get_cache_artifact_by_key_def by (intro db_rules)

lemma upsert_cache_artifact_keeps:
  "keeps (store_ok env) (upsert_cache_artifact env now a1 a2 a3 a4 a5 a6 a7 a8 a9 a10 a11 a12 a13 a14 a15 a16 a17 a18)"
  unfolding upsert_cache_artifact_def
  by (intro keeps_bind_lift keeps_then_lift keeps_then put_artifact_keeps get_cache_artifact_by_key_keeps)

lemma protect_keys_keeps: "keeps (store_ok env) (protect_keys now keys)"
proof (induction now keys rule: protect_keys.induct)
  case (2 now artifact_type hash keys)
  have "distinct (map (\<lambda>p. (cp_artifact_type p, cp_hash p)) (update_where q (\<lambda>p. p \<lparr> cp_updated_at := now \<rparr>) ps)) =
      distinct (map (\<lambda>p. (cp_artifact_type p, cp_hash p)) ps)" for q ps
    by (simp add: map_update_where)
  then have "keeps (store_ok env) (\<lambda>s. (Inr (), s \<lparr> bs_protections :=
        (if list_ex (\<lambda>p. cp_artifact_type p = t \<and> cp_hash p = h) (bs_protections s)
         then update_where (\<lambda>p. cp_artifact_type p = t \<and> cp_hash p = h) (\<lambda>p. p \<lparr> cp_updated_at := now \<rparr>) (bs_protections s)
         else bs_protections s @ [\<lparr> cp_artifact_type = t, cp_hash = h, cp_updated_at = now \<rparr>]) \<rparr>))" for t h
    by (auto simp: keeps_iff store_ok_def artifacts_inv_def list_ex_iff)
  with 2 show ?case by (simp only: protect_keys.simps) (intro db_rules)
qed (simp only: protect_keys.simps, rule keeps_ret)

lemma replace_managed_cache_protections_keeps:
  "keeps (store_ok env) (replace_managed_cache_protections now keys complete)"
proof -
  have "keeps (store_ok env) (\<lambda>s. (Inr (), s \<lparr> bs_protections := delete_where p (bs_protections s) \<rparr>))" for p
    by (auto simp: keeps_iff store_ok_def artifacts_inv_def delete_where_def distinct_map intro: inj_on_subset)
  then show ?thesis unfolding replace_managed_cache_protections_def by (intro db_rules protect_keys_keeps)
qed

section \<open>The queue leaves the artifacts alone\<close>

lemma update_jobs_artifacts [db_rules]: "keeps artifacts_inv (update_jobs p f)"
  by (simp add: keeps_iff update_jobs_def)

lemma insert_job_artifacts [db_rules]: "keeps artifacts_inv (insert_job mk)"
  by (simp add: keeps_iff insert_job_def Let_def)

lemma upsert_job_artifacts [db_rules]: "keeps artifacts_inv (upsert_job k mk merge)"
  unfolding upsert_job_def by (intro db_rules)

lemma cancel_listed_artifacts [db_rules]: "keeps artifacts_inv (cancel_listed now retained jobs n)"
  by (induction now retained jobs n rule: cancel_listed.induct)
    (simp only: cancel_listed.simps cancel_listed_job_def, intro db_rules; simp)+

lemma cancel_managed_artifacts: "keeps artifacts_inv (cancel_managed_build_jobs now ids)"
  by (induction now ids rule: cancel_managed_build_jobs.induct)
    (simp only: cancel_managed_build_jobs.simps, intro db_rules; simp)+

lemma quarantine_job_artifacts [db_rules]: "keeps artifacts_inv (quarantine_job env h now rule row)"
  by (simp add: keeps_iff quarantine_job_eq)

lemma quarantine_rows_artifacts [db_rules]: "keeps artifacts_inv (quarantine_rows env h now rows)"
  by (induction rows) (simp only: quarantine_rows.simps Let_def, intro db_rules; assumption)+

lemma queue_artifacts:
  "keeps artifacts_inv (create_build_job env now input)"
  "keeps artifacts_inv (upsert_managed_build_job env now k a b c d e f g)"
  "keeps artifacts_inv (record_rejected_managed_build_job now k a' b' c' d' e' reason)"
  "keeps artifacts_inv (cancel_listed_job now i)"
  "keeps artifacts_inv (cancel_absent_managed_build_jobs env now retained)"
  "keeps artifacts_inv (recover_running_build_jobs now reason)"
  "keeps artifacts_inv (fail_running_build_job_after_worker_error now i reason)"
  "keeps artifacts_inv (claim_next_build_job env now)"
  "keeps artifacts_inv (update_build_job_logs now i logs)"
  "keeps artifacts_inv (update_build_job_progress now i p st msg)"
  "keeps artifacts_inv (finish_build_job env now i st logs err path sha sz ec md)"
  "keeps artifacts_inv (update_build_job_report env now k st p' ps pm logs err path sha sz sa ca md)"
  "keeps artifacts_inv (quarantine_protected_build_jobs env h now)"
  unfolding create_build_job_def upsert_managed_build_job_def record_rejected_managed_build_job_def
    cancel_listed_job_def cancel_absent_managed_build_jobs_def recover_running_build_jobs_def
    fail_running_build_job_after_worker_error_def claim_next_build_job_def update_build_job_logs_def
    update_build_job_progress_def finish_build_job_def update_build_job_report_def
    quarantine_protected_build_jobs_def Let_def
  by (intro db_rules)+

lemma keeps_store_ok: "keeps (build_inv env) m \<Longrightarrow> keeps artifacts_inv m \<Longrightarrow> keeps (store_ok env) m"
  by (simp add: keeps_iff store_ok_def)

section \<open>Purging keeps the invariant\<close>

lemma purge_job_keeps [db_rules]:
  "keeps (store_ok env) (update_jobs (\<lambda>_ r. jr_id r = i) (\<lambda>r. r \<lparr> jr_cache_metadata := x, jr_updated_at := now \<rparr>))"
  by (intro keeps_store_ok keeps_update_jobs db_rules) (simp_all add: job_ok_def)

lemma build_inv_ledger:
  assumes "map rem_job_id ms = map rem_job_id (bs_remediations s)"
  shows "build_inv env (s \<lparr> bs_remediations := ms \<rparr>) = build_inv env s"
proof -
  have "rem_job_id ` set ms = rem_job_id ` set (bs_remediations s)" using assms by (metis list.set_map)
  then have "remediated (s \<lparr> bs_remediations := ms \<rparr>) = remediated s"
    and "(\<forall>m \<in> set ms. rem_job_id m \<in> A) = (\<forall>m \<in> set (bs_remediations s). rem_job_id m \<in> A)" for A
    unfolding image_subset_iff [symmetric] by (auto simp: fun_eq_iff remediated_iff)
  then show ?thesis by (simp add: build_inv_def job_ok_def assms)
qed

lemma purge_ledger_keeps [db_rules]:
  "keeps (store_ok env) (\<lambda>s. let p = (\<lambda>m. rem_job_id m = i \<and> rem_cache_purge_status m = ''pending_purge'')
     in (Inr (count_where p (bs_remediations s)), s \<lparr> bs_remediations := update_where p (purged now) (bs_remediations s) \<rparr>))"
  by (auto simp: keeps_iff store_ok_def Let_def purged_def build_inv_ledger map_update_where)

lemma complete_protected_build_job_cache_purge_keeps:
  "keeps (store_ok env) (complete_protected_build_job_cache_purge env' now remediation ids)"
  unfolding complete_protected_build_job_cache_purge_def by (intro db_rules)


section \<open>The state machine of the build store\<close>

text \<open>A fresh database, and one rule for every operation that writes. The cancellation of a listed
  job is also a step of its own: the job may have moved on between the listing and the update.\<close>

inductive build_init :: "build_store \<Rightarrow> bool" where
  "build_init (empty_store instance_id)"

inductive build_step :: "json_env \<Rightarrow> (str \<Rightarrow> str) \<Rightarrow> build_store \<Rightarrow> build_store \<Rightarrow> bool" for env h where
  Create: "build_step env h s (snd (create_build_job env now input s))"
| Upsert: "build_step env h s (snd (upsert_managed_build_job env now k a b c d e f g s))"
| Reject: "build_step env h s (snd (record_rejected_managed_build_job now k a' b' c' d' e' reason s))"
| CancelOne: "build_step env h s (snd (cancel_listed_job now i s))"
| CancelAbsent: "build_step env h s (snd (cancel_absent_managed_build_jobs env now retained s))"
| CancelNamed: "build_step env h s (snd (cancel_managed_build_jobs now ids s))"
| Recover: "build_step env h s (snd (recover_running_build_jobs now reason s))"
| WorkerError: "build_step env h s (snd (fail_running_build_job_after_worker_error now i reason s))"
| Claim: "build_step env h s (snd (claim_next_build_job env now s))"
| Logs: "build_step env h s (snd (update_build_job_logs now i logs s))"
| Progress: "build_step env h s (snd (update_build_job_progress now i p st msg s))"
| Finish: "build_step env h s (snd (finish_build_job env now i st logs err path sha sz ec md s))"
| Report: "build_step env h s (snd (update_build_job_report env now k st p ps pm logs err path sha sz sa ca md s))"
| Quarantine: "build_step env h s (snd (quarantine_protected_build_jobs env h now s))"
| Purge: "build_step env h s (snd (complete_protected_build_job_cache_purge env now remediation artifact_ids s))"
| Artifact: "build_step env h s
    (snd (upsert_cache_artifact env now a1 a2 a3 a4 a5 a6 a7 a8 a9 a10 a11 a12 a13 a14 a15 a16 a17 a18 s))"
| Verified: "build_step env h s (snd (mark_cache_artifact_verified now i s))"
| DeleteArtifact: "build_step env h s (snd (delete_cache_artifact i s))"
| Protect: "build_step env h s (snd (replace_managed_cache_protections now keys complete s))"

lemmas queue_keeps = create_build_job_keeps upsert_managed_build_job_keeps record_rejected_managed_build_job_keeps
  cancel_listed_job_keeps cancel_absent_managed_build_jobs_keeps cancel_managed_build_jobs_keeps
  recover_running_build_jobs_keeps fail_running_build_job_after_worker_error_keeps claim_next_build_job_keeps
  update_build_job_logs_keeps update_build_job_progress_keeps finish_build_job_keeps update_build_job_report_keeps
  quarantine_protected_build_jobs_keeps

lemma empty_store_ok: "store_ok env (empty_store i)"
  by (simp add: store_ok_def empty_store_inv) (simp add: artifacts_inv_def artifacts_unique_def empty_store_def List.map_filter_def)

lemma build_step_ok:
  assumes "build_step env h s t" and "store_ok env s"
  shows "store_ok env t"
  using assms(1)
proof (cases rule: build_step.cases)
qed (use assms(2) in \<open>auto intro!: keeps_snd [of "store_ok env", OF _ assms(2)] keeps_store_ok queue_keeps queue_artifacts
    cancel_managed_artifacts complete_protected_build_job_cache_purge_keeps upsert_cache_artifact_keeps
    mark_cache_artifact_verified_keeps delete_artifact_row_keeps [folded delete_cache_artifact_def]
    replace_managed_cache_protections_keeps\<close>)

interpretation build_sys: invariant_system build_init "build_step env h" "store_ok env" for env h
proof
  show "store_ok env s" if "build_init s" for s
    using that by (cases rule: build_init.cases) (simp add: empty_store_ok)
  show "store_ok env t" if "store_ok env s" "build_step env h s t" for s t
    using that by (rule build_step_ok [rotated])
qed

section \<open>Properties\<close>

text \<open>C7: in every reachable build store the identities of jobs and the managed identities are
  unique, statuses and percentages are legal, no log holds a password hash, and a quarantined job
  is failed, has the replacement specification and no log; artifacts are unique per type and hash.\<close>

theorem reachable_build_store:
  assumes "reach build_init (build_step env h) s"
  shows "distinct (map jr_id (bs_jobs s)) \<and> distinct (List.map_filter jr_managed_job_id (bs_jobs s)) \<and>
    (\<forall>r \<in> set (bs_jobs s). jr_status r \<in> set allowed_build_states \<and> percent_ok (jr_progress_percent r) \<and>
       \<not> contains_modular_password_hash (jr_logs r) \<and>
       (remediated s (jr_id r) \<longrightarrow> jr_status r = ''failed'' \<and> jr_build_spec r = je_to_string env safe_spec \<and> jr_logs r = [])) \<and>
    distinct (map ar_id (bs_artifacts s)) \<and> distinct (map ar_key (bs_artifacts s)) \<and>
    distinct (map (\<lambda>p. (cp_artifact_type p, cp_hash p)) (bs_protections s))"
  using build_sys.reach_inv [OF assms]
  by (simp add: store_ok_def build_inv_def job_ok_def artifacts_inv_def artifacts_unique_def)

lemma build_reach_step:
  "reach build_init (build_step env h) s \<Longrightarrow> build_step env h s t \<Longrightarrow> reach build_init (build_step env h) t"
  by (rule reach.intros(2))

lemma demo_builds_reach: "reach build_init (build_step demo_json h) demo_builds"
  unfolding demo_builds_def demo_upsert_def
  by (rule build_reach_step [OF _ CancelNamed], rule build_reach_step [OF _ Claim], rule build_reach_step [OF _ Upsert],
      rule build_reach_step [OF _ Upsert]) (intro reach.intros(1) build_init.intros)

theorem reachable_build_store_witness:
  "distinct (map jr_id (bs_jobs demo_builds)) \<and> map jr_id (bs_jobs demo_builds) = [1, 2]"
proof -
  have "map jr_id (bs_jobs demo_builds) = [1, 2]" by code_simp
  with reachable_build_store [OF demo_builds_reach [of id]] show ?thesis by blast
qed

definition protection_keys :: "cache_protection list \<Rightarrow> (str \<times> str) set" where
  "protection_keys ps = set (map (\<lambda>p. (cp_artifact_type p, cp_hash p)) ps)"

definition normal_key :: "str \<times> str \<Rightarrow> (str \<times> str) app_result" where
  "normal_key key =
     rbind (normalize_artifact_type (fst key) ''artifact_type'') (\<lambda>t.
     rbind (normalize_sha256 (snd key) ''hash'' False) (\<lambda>h. Inr (t, h)))"

definition stamped :: "str \<Rightarrow> cache_protection list \<Rightarrow> (str \<times> str) set" where
  "stamped now ps = protection_keys (filter (\<lambda>p. cp_updated_at p = now) ps)"

lemma stamped_update:
  "stamped now (update_where (\<lambda>p. cp_artifact_type p = ty \<and> cp_hash p = h) (\<lambda>p. p \<lparr> cp_updated_at := now \<rparr>) ps) =
    (if list_ex (\<lambda>p. cp_artifact_type p = ty \<and> cp_hash p = h) ps then insert (ty, h) (stamped now ps) else stamped now ps)"
  by (induction ps) (auto simp: stamped_def protection_keys_def)

lemma protect_keys_stamps:
  "protect_keys now keys s = (Inr u, t) \<Longrightarrow>
    \<exists>ks. map normal_key keys = map Inr ks \<and> stamped now (bs_protections t) = stamped now (bs_protections s) \<union> set ks"
proof (induction now keys arbitrary: s rule: protect_keys.induct)
  case (2 now a b keys)
  from "2.prems" obtain ty h where k: "normal_key (a, b) = Inr (ty, h)"
    and n: "normalize_artifact_type a ''artifact_type'' = Inr ty" "normalize_sha256 b ''hash'' False = Inr h"
    by (auto simp: lift_eq_Inr normal_key_def)
  define ps where "ps = (if list_ex (\<lambda>p. cp_artifact_type p = ty \<and> cp_hash p = h) (bs_protections s)
     then update_where (\<lambda>p. cp_artifact_type p = ty \<and> cp_hash p = h) (\<lambda>p. p \<lparr> cp_updated_at := now \<rparr>) (bs_protections s)
     else bs_protections s @ [\<lparr> cp_artifact_type = ty, cp_hash = h, cp_updated_at = now \<rparr>])"
  have "protect_keys now keys (s \<lparr> bs_protections := ps \<rparr>) = (Inr u, t)"
    using "2.prems" n by (simp add: ps_def)
  then obtain ks where ks: "map normal_key keys = map Inr ks"
    "stamped now (bs_protections t) = stamped now ps \<union> set ks"
    using "2.IH" [of "s \<lparr> bs_protections := ps \<rparr>"] by auto
  have "stamped now ps = insert (ty, h) (stamped now (bs_protections s))"
    by (simp add: ps_def stamped_update) (auto simp: stamped_def protection_keys_def)
  with ks k show ?case by (intro exI [of _ "(ty, h) # ks"]) auto
qed simp

text \<open>C31: replacing the protections with a complete list leaves exactly the listed keys in their
  normal form, provided no protection bears the instant already; when a key cannot be normalised
  the whole replacement fails and changes nothing.\<close>

theorem replace_protections_exact:
  assumes "\<forall>p \<in> set (bs_protections s). cp_updated_at p \<noteq> now"
    and "replace_managed_cache_protections now keys True s = (r, t)"
  shows "case r of
      Inr _ \<Rightarrow> \<exists>ks. map normal_key keys = map Inr ks \<and> protection_keys (bs_protections t) = set ks
    | Inl _ \<Rightarrow> t = s"
proof (cases "protect_keys now keys s")
  case (Pair x u)
  show ?thesis
  proof (cases x)
    case (Inl e)
    with Pair assms(2) show ?thesis
      by (auto simp: replace_managed_cache_protections_def db_transaction_def)
  next
    case (Inr y)
    with Pair obtain ks where ks: "map normal_key keys = map Inr ks"
      "stamped now (bs_protections u) = stamped now (bs_protections s) \<union> set ks"
      using protect_keys_stamps by blast
    have t: "r = Inr ()" "bs_protections t = delete_where (\<lambda>p. cp_updated_at p \<noteq> now) (bs_protections u)"
      using Pair Inr assms(2) by (auto simp: replace_managed_cache_protections_def db_transaction_def)
    have "stamped now (bs_protections s) = {}"
      using assms(1) by (auto simp: stamped_def protection_keys_def)
    with ks t show ?thesis by (simp add: stamped_def delete_where_def)
  qed
qed

theorem replace_protections_exact_witness:
  "\<exists>t. replace_managed_cache_protections ''t9'' [('' Desktop_Image'', demo_hash)] True demo_builds = (Inr (), t) \<and>
     protection_keys (bs_protections t) = {(''desktop_image'', demo_hash)}"
proof -
  let ?k = "[('' Desktop_Image'', demo_hash)]"
  obtain r t where m: "replace_managed_cache_protections ''t9'' ?k True demo_builds = (r, t)" by (rule prod.exhaust)
  have ok: "is_ok (fst (replace_managed_cache_protections ''t9'' ?k True demo_builds))"
    and n: "map normal_key ?k = [Inr (''desktop_image'', demo_hash)]" and e: "bs_protections demo_builds = []"
    by code_simp+
  from ok m have r: "r = Inr ()" unfolding is_ok_iff by auto
  from e have "\<forall>p \<in> set (bs_protections demo_builds). cp_updated_at p \<noteq> ''t9''" by simp
  from replace_protections_exact [OF this m, unfolded r sum.case] obtain ks
    where ks: "map normal_key ?k = map Inr ks" "protection_keys (bs_protections t) = set ks" by blast
  from ks(1) n have "ks = [(''desktop_image'', demo_hash)]" by (cases ks) simp_all
  with ks(2) m r show ?thesis by simp
qed

section \<open>Storing and finding an artifact\<close>

lemma get_cache_artifact_state: "get_cache_artifact_by_key env a h s = (r, t) \<Longrightarrow> t = s"
  using get_cache_artifact_by_key_keeps [of "\<lambda>u. u = s" env a h] by (auto simp: keeps_iff)

lemma put_artifact_row:
  assumes "put_artifact new s = (Inr u, t)"
  obtains (inserted) "find (\<lambda>x. ar_key x = ar_key new) (bs_artifacts s) = None"
      "bs_artifacts t = bs_artifacts s @ [new \<lparr> ar_id := bs_artifact_seq s + 1 \<rparr>]"
      "artifacts_unique (bs_artifacts t)" "inv_generation (bs_inventory t) = inv_generation (bs_inventory s) + 1"
  | (updated) old where "find (\<lambda>x. ar_key x = ar_key new) (bs_artifacts s) = Some old"
      "bs_artifacts t = map (\<lambda>x. if x = old then merge_artifact new old else x) (bs_artifacts s)"
      "artifacts_unique (bs_artifacts t)" "inv_generation (bs_inventory t) = inv_generation (bs_inventory s) + 1"
proof (cases "find (\<lambda>x. ar_key x = ar_key new) (bs_artifacts s)")
  case None
  then have "\<not> list_ex (\<lambda>x. ar_key x = ar_key new) (bs_artifacts s)" by (simp add: find_None_iff list_ex_iff)
  with assms have t: "bs_artifacts t = bs_artifacts s @ [new \<lparr> ar_id := bs_artifact_seq s + 1 \<rparr>]"
    "artifacts_unique (bs_artifacts t)" "bs_inventory t = advance 1 (bs_inventory s)"
    by (auto simp: put_artifact_def write_artifacts_def Let_def db_then_def db_bind_def split: if_splits)
  show thesis by (rule inserted [OF None t(1,2)]) (simp add: t(3) advance_def)
next
  case (Some old)
  then have old: "old \<in> set (bs_artifacts s)" "ar_key old = ar_key new" by (auto dest!: find_Some_in)
  then have "list_ex (\<lambda>x. ar_key x = ar_key new) (bs_artifacts s)" by (auto simp: list_ex_iff)
  with assms have t: "artifacts_unique (bs_artifacts t)" "bs_inventory t = advance 1 (bs_inventory s)"
    "bs_artifacts t = update_where (\<lambda>r. ar_key r = ar_key new) (merge_artifact new) (bs_artifacts s)"
    by (auto simp: put_artifact_def write_artifacts_def Let_def split: if_splits)
  have "map ar_key (bs_artifacts t) = map ar_key (bs_artifacts s)"
    by (simp add: t(3) update_where_def ar_key_def merge_artifact_def)
  then have "distinct (map ar_key (bs_artifacts s))" using t(1) by (simp add: artifacts_unique_def)
  then have "ar_key x = ar_key new \<longleftrightarrow> x = old" if "x \<in> set (bs_artifacts s)" for x
    using distinct_key_unique [OF _ that old(1)] old(2) by metis
  then have "bs_artifacts t = map (\<lambda>x. if x = old then merge_artifact new old else x) (bs_artifacts s)"
    unfolding t(3) update_where_def by (intro map_cong refl) simp
  then show thesis by (rule updated [OF Some _ t(1)]) (simp add: t(2) advance_def)
qed

lemma get_cache_artifact_Inr:
  assumes "get_cache_artifact_by_key env ty h s = (Inr a, t)"
  obtains r where "r \<in> set (bs_artifacts s)" and "ar_key r = (ty, h)" and "artifact_of_row env r = Inr a" and "t = s"
proof -
  from assms obtain r where f: "find (\<lambda>r. ar_artifact_type r = ty \<and> ar_hash r = h) (bs_artifacts s) = Some r"
    and r: "artifact_of_row env r = Inr a" "t = s"
    by (auto simp: get_cache_artifact_by_key_def result_simps ok_or_def split: option.splits)
  from f have "r \<in> set (bs_artifacts s)" "ar_key r = (ty, h)" by (auto simp: find_Some_iff ar_key_def)
  with r show ?thesis by (rule that [rotated 2])
qed

lemma artifact_of_row_fields:
  "artifact_of_row env r = Inr a \<Longrightarrow> (art_artifact_type a, art_hash a) = ar_key r \<and> art_size_bytes a = ar_size_bytes r \<and> art_path a = ar_path r"
  by (auto simp: artifact_of_row_def ar_key_def result_simps)

lemma unique_key: "artifacts_unique rows \<Longrightarrow> a \<in> set rows \<Longrightarrow> b \<in> set rows \<Longrightarrow> ar_key a = ar_key b \<Longrightarrow> a = b"
  by (rule inj_onD [of ar_key "set rows"]) (auto simp: artifacts_unique_def distinct_map)

text \<open>The columns of a row are the normalised arguments of the request.\<close>

definition row_of_request ::
  "json_env \<Rightarrow> str \<Rightarrow> str option \<Rightarrow> str \<Rightarrow> str \<Rightarrow> int \<Rightarrow> str \<Rightarrow> str \<Rightarrow> str \<Rightarrow> str \<Rightarrow> str \<Rightarrow> str \<Rightarrow> int \<Rightarrow> int \<Rightarrow> int \<Rightarrow>
     str \<Rightarrow> json option \<Rightarrow> str \<Rightarrow> str option \<Rightarrow> json option \<Rightarrow> artifact_row \<Rightarrow> bool" where
  "row_of_request env now mid ty h sz path sp np nu fh nh ns cs cfs cmp refs url src md r \<longleftrightarrow>
     normalize_opt_managed_id mid ''managed_artifact_id'' = Inr (ar_managed_artifact_id r) \<and>
     normalize_artifact_type ty ''artifact_type'' = Inr (ar_artifact_type r) \<and> normalize_sha256 h ''hash'' False = Inr (ar_hash r) \<and>
     0 \<le> sz \<and> ar_size_bytes r = sz \<and> normalize_absolute_path path ''path'' = Inr (ar_path r) \<and>
     normalize_optional_store_path sp ''store_path'' = Inr (ar_store_path r) \<and>
     normalize_optional_absolute_path np ''narinfo_path'' = Inr (ar_narinfo_path r) \<and>
     normalize_cache_relative_path nu ''nar_url'' = Inr (ar_nar_url r) \<and>
     normalize_optional_nix_hash fh ''file_hash'' = Inr (ar_file_hash r) \<and>
     normalize_optional_nix_hash nh ''nar_hash'' = Inr (ar_nar_hash r) \<and>
     0 \<le> ns \<and> ar_nar_size_bytes r = ns \<and> 0 \<le> cs \<and> ar_closure_size_bytes r = cs \<and> 0 \<le> cfs \<and> ar_closure_file_size_bytes r = cfs \<and>
     normalize_optional_cache_token cmp ''compression'' = Inr (ar_compression r) \<and>
     references_to_string env refs = Inr (ar_references_json r) \<and> normalize_optional_url url ''serving_url'' = Inr (ar_serving_url r) \<and>
     normalize_opt_managed_id src ''source_build_job_id'' = Inr (ar_source_build_job_id r) \<and>
     metadata_to_string_with_limit env md ''cache_metadata'' max_cache_artifact_metadata_bytes = Inr (ar_cache_metadata r) \<and>
     ar_updated_at r = now"

lemma upsert_cache_artifact_steps:
  assumes "upsert_cache_artifact env now mid ty h sz path sp np nu fh nh ns cs cfs cmp refs url src md s = (Inr a, t)"
  obtains new ty' h' where "db_then (put_artifact new) (get_cache_artifact_by_key env ty' h') s = (Inr a, t)"
    "ty' = ar_artifact_type new" "h' = ar_hash new"
    "ar_created_at new = now" "ar_verification_status new = ''pending''" "ar_last_verified_at new = None"
    "row_of_request env now mid ty h sz path sp np nu fh nh ns cs cfs cmp refs url src md new"
proof -
  have nn: "validate_non_negative_i64 v f = Inr u \<longleftrightarrow> 0 \<le> v" for v f u
    by (auto simp: validate_non_negative_i64_def)
  from assms show thesis unfolding upsert_cache_artifact_def lift_eq_Inr nn
    by (elim exE conjE) (rule that, assumption, simp_all add: row_of_request_def)
qed

lemma stored_row_is_found:
  assumes "artifacts_unique (bs_artifacts t')" and "r \<in> set (bs_artifacts t')"
    and "get_cache_artifact_by_key env (ar_artifact_type r) (ar_hash r) t' = (Inr a, t)"
  shows "artifact_of_row env r = Inr a \<and> t = t'"
  using get_cache_artifact_Inr [OF assms(3)] unique_key [OF assms(1) _ assms(2)] by (metis ar_key_def)

text \<open>C30: storing an artifact makes the row of its type and hash hold every normalised column of the
  request. A row of that key is updated in place and keeps its number, its time of creation and its
  verification; otherwise one row is appended, with the next number and its verification pending. No
  other row changes, the answer is what the row says and what a lookup by the key then finds, and the
  inventory generation advances by one.\<close>

theorem stored_artifact_is_found:
  assumes "upsert_cache_artifact env now mid ty h sz path sp np nu fh nh ns cs cfs cmp refs url src md s = (Inr a, t)"
  shows "\<exists>r. row_of_request env now mid ty h sz path sp np nu fh nh ns cs cfs cmp refs url src md r \<and>
    artifact_of_row env r = Inr a \<and> get_cache_artifact_by_key env (ar_artifact_type r) (ar_hash r) t = (Inr a, t) \<and>
    (case find (\<lambda>x. ar_key x = ar_key r) (bs_artifacts s) of
       None \<Rightarrow> ar_id r = bs_artifact_seq s + 1 \<and> ar_created_at r = now \<and> ar_verification_status r = ''pending'' \<and>
         ar_last_verified_at r = None \<and> bs_artifacts t = bs_artifacts s @ [r]
     | Some old \<Rightarrow> ar_id r = ar_id old \<and> ar_created_at r = ar_created_at old \<and>
         ar_verification_status r = ar_verification_status old \<and> ar_last_verified_at r = ar_last_verified_at old \<and>
         bs_artifacts t = map (\<lambda>x. if x = old then r else x) (bs_artifacts s)) \<and>
    inv_generation (bs_inventory t) = inv_generation (bs_inventory s) + 1"
proof -
  from assms obtain new ty' h' where p: "db_then (put_artifact new) (get_cache_artifact_by_key env ty' h') s = (Inr a, t)"
    and key: "ty' = ar_artifact_type new" "h' = ar_hash new"
    and fresh: "ar_created_at new = now" "ar_verification_status new = ''pending''" "ar_last_verified_at new = None"
    and new: "row_of_request env now mid ty h sz path sp np nu fh nh ns cs cfs cmp refs url src md new"
    by (rule upsert_cache_artifact_steps)
  from p obtain u t' where put: "put_artifact new s = (Inr u, t')"
    and g: "get_cache_artifact_by_key env (ar_artifact_type new) (ar_hash new) t' = (Inr a, t)"
    unfolding db_then_eq_Inr key by blast
  from put show ?thesis
  proof (cases rule: put_artifact_row)
    case inserted
    let ?r = "new \<lparr> ar_id := bs_artifact_seq s + 1 \<rparr>"
    have "?r \<in> set (bs_artifacts t')" using inserted(2) by simp
    from stored_row_is_found [OF inserted(3) this] g have "artifact_of_row env ?r = Inr a" "t = t'" by simp_all
    with inserted new fresh g show ?thesis
      by (intro exI [of _ ?r]) (simp add: row_of_request_def ar_key_def)
  next
    case (updated old)
    let ?r = "merge_artifact new old"
    from updated(1) have old: "old \<in> set (bs_artifacts s)" "ar_key old = ar_key new" by (auto dest!: find_Some_in)
    then have "?r \<in> set (bs_artifacts t')" by (auto simp: updated(2))
    moreover have k: "ar_artifact_type ?r = ar_artifact_type new" "ar_hash ?r = ar_hash new"
      using old(2) by (simp_all add: merge_artifact_def ar_key_def)
    ultimately have "artifact_of_row env ?r = Inr a" "t = t'"
      using stored_row_is_found [OF updated(3), of ?r] g by simp_all
    with updated new fresh g k show ?thesis
      by (intro exI [of _ ?r]) (simp add: row_of_request_def ar_key_def merge_artifact_def)
  qed
qed

theorem stored_artifact_is_found_witness:
  "\<exists>a t. upsert_cache_artifact demo_json ''t'' None '' Desktop_Image'' demo_hash 5 ''/nix/x'' [] [] [] [] [] 0 0 0 [] None [] None None
       demo_builds = (Inr a, t) \<and>
     (\<exists>r. artifact_of_row demo_json r = Inr a \<and> ar_artifact_type r = ''desktop_image'' \<and> ar_size_bytes r = 5 \<and>
        get_cache_artifact_by_key demo_json ''desktop_image'' (ar_hash r) t = (Inr a, t))"
proof -
  let ?m = "upsert_cache_artifact demo_json ''t'' None '' Desktop_Image'' demo_hash 5 ''/nix/x'' [] [] [] [] [] 0 0 0 [] None [] None None demo_builds"
  have ok: "is_ok (fst ?m)" and ty: "normalize_artifact_type '' Desktop_Image'' ''artifact_type'' = Inr ''desktop_image''" by code_simp+
  obtain x t where m: "?m = (x, t)" by (rule prod.exhaust)
  with ok obtain a where m: "?m = (Inr a, t)" unfolding is_ok_iff by auto
  from stored_artifact_is_found [OF m] obtain r where
    "row_of_request demo_json ''t'' None '' Desktop_Image'' demo_hash 5 ''/nix/x'' [] [] [] [] [] 0 0 0 [] None [] None None r"
    "artifact_of_row demo_json r = Inr a" "get_cache_artifact_by_key demo_json (ar_artifact_type r) (ar_hash r) t = (Inr a, t)"
    by blast
  with m ty show ?thesis by (auto simp: row_of_request_def)
qed

section \<open>The purge of a quarantined build\<close>

lemma delete_artifact_rows_Inr:
  "delete_artifact_rows ids s = (Inr u, t) \<Longrightarrow>
    bs_artifacts t = filter (\<lambda>r. ar_id r \<notin> set ids) (bs_artifacts s) \<and> bs_remediations t = bs_remediations s"
proof (induction ids arbitrary: s)
  case (Cons i ids)
  from Cons.prems obtain s' where d: "delete_artifact_row i s = (Inr (), s')" "delete_artifact_rows ids s' = (Inr u, t)"
    by (auto simp: result_simps)
  from d(1) have "bs_artifacts s' = filter (\<lambda>r. ar_id r \<noteq> i) (bs_artifacts s)" "bs_remediations s' = bs_remediations s"
    by (auto simp: delete_artifact_row_def write_artifacts_def delete_where_def Let_def split: if_splits)
  with Cons.IH [OF d(2)] show ?case by (simp add: conj_commute)
qed simp

lemma check_artifacts_gone_state: "check_artifacts_gone ids s = (r, t) \<Longrightarrow> t = s"
  using check_artifacts_gone_keeps [of "\<lambda>u. u = s" ids] by (auto simp: keeps_iff)

definition ledger_identity :: "remediation \<Rightarrow> int \<times> str option \<times> str \<times> str \<times> str" where
  "ledger_identity m = (rem_job_id m, rem_managed_job_id m, rem_original_status m, rem_rule m, rem_build_spec_sha256 m)"

text \<open>C32: completing the purge of a quarantined build either fails and changes nothing, or removes
  the chosen artifacts and leaves none that belongs to the build by its job or its output path,
  keeps every other artifact, marks exactly one pending ledger entry as purged and changes no
  entry's identity.\<close>

theorem purge_complete_or_unchanged:
  assumes "complete_protected_build_job_cache_purge env now (i, managed, out) ids s = (r, t)"
  shows "case r of
      Inl _ \<Rightarrow> t = s
    | Inr _ \<Rightarrow> bs_artifacts t = filter (\<lambda>x. ar_id x \<notin> set ids) (bs_artifacts s) \<and>
        (\<forall>x \<in> set (bs_artifacts t). \<not> associated managed out x) \<and>
        (\<exists>m \<in> set (bs_remediations t). rem_job_id m = i \<and> rem_cache_purge_status m = ''purged'' \<and> rem_purged_at m = Some now) \<and>
        map ledger_identity (bs_remediations t) = map ledger_identity (bs_remediations s)"
proof (cases r)
  case (Inl e)
  with assms show ?thesis
    by (auto simp: complete_protected_build_job_cache_purge_def db_transaction_def split: prod.splits sum.splits)
next
  case (Inr u)
  let ?p = "\<lambda>m. rem_job_id m = i \<and> rem_cache_purge_status m = ''pending_purge''"
  from assms [unfolded complete_protected_build_job_cache_purge_def prod.case db_transaction_def] Inr
  obtain s1 s2 where d: "delete_artifact_rows ids s = (Inr (), s1)" "check_artifacts_gone ids s1 = (Inr (), s2)"
    and z: "count_where (associated managed out) (bs_artifacts s2) = 0"
    and c: "count_where ?p (bs_remediations s2) = 1"
    and t: "bs_artifacts t = bs_artifacts s2" "bs_remediations t = update_where ?p (purged now) (bs_remediations s2)"
    by (auto simp: result_simps update_jobs_def Let_def split: prod.splits sum.splits if_splits)
  have s2: "s2 = s1" using check_artifacts_gone_state [OF d(2)] .
  note e = delete_artifact_rows_Inr [OF d(1)]
  have "map ledger_identity (bs_remediations t) = map ledger_identity (bs_remediations s)"
    using e by (simp add: t(2) s2 map_update_where ledger_identity_def purged_def)
  moreover obtain m where "m \<in> set (bs_remediations s2)" "?p m"
    using c count_where_zero [of ?p "bs_remediations s2"] by auto
  then have "purged now m \<in> set (bs_remediations t)" "rem_job_id (purged now m) = i"
    "rem_cache_purge_status (purged now m) = ''purged''" "rem_purged_at (purged now m) = Some now"
    by (auto simp: t(2) set_update_where purged_def)
  moreover have "\<forall>x \<in> set (bs_artifacts t). \<not> associated managed out x" using z by (simp add: t(1) count_where_zero)
  ultimately show ?thesis using e Inr by (auto simp: t(1) s2)
qed

definition demo_quarantined :: build_store where
  "demo_quarantined =
     snd (quarantine_protected_build_jobs (demo_json \<lparr> je_validate_build_spec := \<lambda>_. Some ''protected'' \<rparr>) id ''t8'' demo_builds)"

theorem purge_complete_or_unchanged_witness:
  "\<exists>r t. complete_protected_build_job_cache_purge demo_json ''t9'' (1, Some ''job-1'', []) [] demo_quarantined = (r, t) \<and>
     r = Inr () \<and> (\<exists>m \<in> set (bs_remediations t). rem_job_id m = 1 \<and> rem_cache_purge_status m = ''purged'')"
proof -
  let ?m = "complete_protected_build_job_cache_purge demo_json ''t9'' (1, Some ''job-1'', []) [] demo_quarantined"
  have ok: "is_ok (fst ?m)" by code_simp
  obtain r t where m: "?m = (r, t)" by (rule prod.exhaust)
  with ok have r: "r = Inr ()" unfolding is_ok_iff by auto
  from purge_complete_or_unchanged [OF m, unfolded r sum.case] m r show ?thesis by blast
qed

section \<open>A cancellation that comes too late\<close>

text \<open>C40: the update that cancels a listed job does not look at the status again: applied to a job
  that ended after the listing, it leaves the job in its final status but shows it as being
  cancelled, with a message that the build has yet to stop.\<close>

theorem late_cancellation_relabels_finished_job:
  assumes "cancel_listed_job now i s = (x, t)" and "r \<in> set (bs_jobs s)" and "jr_id r = i"
    and "jr_status r \<in> {''succeeded'', ''failed'', ''cancelled''}"
  shows "\<exists>r' \<in> set (bs_jobs t). jr_id r' = i \<and> jr_status r' = jr_status r \<and>
    jr_progress_stage r' = Some ''cancelling'' \<and>
    jr_progress_message r' = Some ''Cancellation requested; waiting for Nest to stop the build''"
proof -
  have "cancel_row now r \<in> set (bs_jobs t)"
    using assms(1,2,3) by (auto simp: cancel_listed_job_def update_jobs_def set_update_where)
  moreover have "jr_status r \<noteq> ''queued''" using assms(4) by auto
  ultimately show ?thesis using assms(3) by (intro bexI [of _ "cancel_row now r"]) (simp_all add: cancel_row_def Let_def)
qed

theorem late_cancellation_relabels_finished_job_witness:
  "jr_status (hd (bs_jobs demo_quarantined)) = ''failed'' \<and>
   (\<exists>r' \<in> set (bs_jobs (snd (cancel_listed_job ''t9'' 1 demo_quarantined))). jr_status r' = ''failed'' \<and>
      jr_progress_stage r' = Some ''cancelling'')"
proof -
  let ?r = "hd (bs_jobs demo_quarantined)"
  have h: "?r \<in> set (bs_jobs demo_quarantined)" and i: "jr_id ?r = 1" and st: "jr_status ?r = ''failed''" by code_simp+
  have m: "jr_status ?r \<in> {''succeeded'', ''failed'', ''cancelled''}" unfolding st by simp
  show ?thesis
    using late_cancellation_relabels_finished_job [OF prod.collapse [symmetric] h i m, of "''t9''"] st by auto
qed

end
