(* ===== verification/Nest_Sync.thy ===== *)
theory Nest_Sync
  imports Nest_Store Nest_Validate
begin

text \<open>
  Applying a boot configuration of the managing service (\<^verbatim>\<open>apply_boot_config\<close> of
  \<^verbatim>\<open>src/src/manage.rs\<close>, with the settings checks of \<^verbatim>\<open>config.rs\<close> and the handoff file of
  \<^verbatim>\<open>pxe_discovery.rs\<close>): the configuration is validated, then profiles and clients are
  written to the store in one transaction. \<open>Url::parse\<close> is a parameter that gives the parts of
  an absolute URL. \<open>now\<close> is the instant \<^verbatim>\<open>now_rfc3339\<close> returns.
\<close>

section \<open>Messages of the service\<close>

text \<open>Without the fields that the code does not read.\<close>

record managed_profile =
  mp_id :: str
  mp_name :: str
  mp_description :: str
  mp_profile_type :: str
  mp_enabled :: bool
  mp_is_default :: bool
  mp_one_time :: bool
  mp_raw_script :: "str option"

record managed_client =
  mc_id :: str
  mc_mac :: str
  mc_hostname :: "str option"
  mc_serial_number :: "str option"
  mc_last_seen_at :: "str option"
  mc_default_profile_id :: "str option"
  mc_one_time_profile_id :: "str option"
  mc_managed_device_id :: "str option"
  mc_reinstall_request_id :: "str option"
  mc_notes :: str
  mc_tags :: "str list"

record managed_settings =
  ms_public_base_url :: str
  ms_bootloader_filename :: str
  ms_menu_timeout_ms :: u32

record pxe_peer =
  peer_server_device_id :: str
  peer_address :: str
  peer_mac :: str
  peer_bootloader_filename :: str
  peer_proxy_capable :: bool

record pxe_client =
  pxc_mac :: str
  pxc_server_device_id :: "str option"

record pxe_desired =
  pxe_schema :: str
  pxe_server_device_id :: str
  pxe_complete :: bool
  pxe_peers :: "pxe_peer list"
  pxe_clients :: "pxe_client list"

record boot_config =
  bc_pxe_discovery :: "pxe_desired option"
  bc_settings :: managed_settings
  bc_profiles :: "managed_profile list"
  bc_profiles_complete :: bool
  bc_deleted_profile_ids :: "str list"
  bc_clients :: "managed_client list"
  bc_deleted_client_ids :: "str list"
  bc_clients_complete :: bool

text \<open>Errors: a message of the module itself, one of the store, or an error with its context.\<close>

datatype sync_error = Bail str | FromApp app_error | Context str sync_error

type_synonym 'a sync_result = "sync_error + 'a"
type_synonym 'a sync_db = "(store, sync_error, 'a) edb"

definition from_app :: "'a app_result \<Rightarrow> 'a sync_result" where
  "from_app r = map_sum FromApp id r"

definition db_app :: "'a store_db \<Rightarrow> 'a sync_db" where
  "db_app m s = (case m s of (r, s') \<Rightarrow> (from_app r, s'))"

definition max_managed_profiles :: nat where "max_managed_profiles = 1000"
definition max_deleted_managed_profiles :: nat where "max_deleted_managed_profiles = 2000"
definition max_managed_clients :: nat where "max_managed_clients = 2000"
definition max_deleted_managed_clients :: nat where "max_deleted_managed_clients = 2000"

section \<open>Validation\<close>

definition validate_managed_id :: "str \<Rightarrow> str \<Rightarrow> unit sync_result" where
  "validate_managed_id value field =
     (if trim value = [] then Inl (Bail (field @ '' is required''))
      else if trim value \<noteq> value then Inl (Bail (field @ '' must not contain surrounding whitespace''))
      else Inr ())"

definition managed_limited_text :: "str \<Rightarrow> str \<Rightarrow> nat \<Rightarrow> bool \<Rightarrow> unit sync_result" where
  "managed_limited_text value field max_chars allow_control =
     (if max_chars < chars_count value
      then Inl (Bail (field @ '' must be '' @ nat_to_str max_chars @ '' characters or fewer''))
      else if \<not> allow_control \<and> any_char is_control value
      then Inl (Bail (field @ '' must not contain control characters''))
      else Inr ())"

definition managed_limited_optional_text :: "str option \<Rightarrow> str \<Rightarrow> nat \<Rightarrow> bool \<Rightarrow> unit sync_result" where
  "managed_limited_optional_text value field max_chars allow_control =
     (case value of Some v \<Rightarrow> managed_limited_text v field max_chars allow_control | None \<Rightarrow> Inr ())"

fun managed_tag_list :: "str list \<Rightarrow> unit sync_result" where
  "managed_tag_list [] = Inr ()"
| "managed_tag_list (tag # tags) =
     rbind (managed_limited_text tag ''managed boot client tag'' max_device_tag_chars False) (\<lambda>_. managed_tag_list tags)"

definition validate_client_tags :: "str list \<Rightarrow> unit sync_result" where
  "validate_client_tags tags =
     (if max_device_tags < length tags
      then Inl (Bail (''managed boot client tags must include '' @ nat_to_str max_device_tags @ '' entries or fewer''))
      else managed_tag_list tags)"

definition validate_client_metadata :: "managed_client \<Rightarrow> unit sync_result" where
  "validate_client_metadata client =
     rbind (managed_limited_optional_text (mc_hostname client) ''managed boot client hostname''
              max_device_hostname_chars False) (\<lambda>_.
     rbind (managed_limited_optional_text (mc_serial_number client) ''managed boot client serial number''
              max_device_serial_chars False) (\<lambda>_.
     rbind (managed_limited_text (mc_notes client) ''managed boot client notes'' max_device_notes_chars True) (\<lambda>_.
     validate_client_tags (clean_tags (mc_tags client)))))"

definition has_text :: "str option \<Rightarrow> bool" where
  "has_text v = (case v of Some s \<Rightarrow> trim s \<noteq> [] | None \<Rightarrow> False)"

definition managed_profile_has_boot_action :: "managed_profile \<Rightarrow> bool" where
  "managed_profile_has_boot_action profile =
     (if mp_profile_type profile = ''local_disk'' \<or> mp_profile_type profile = ''nest_installer'' then True
      else if mp_profile_type profile = ''custom_ipxe'' then has_text (mp_raw_script profile)
      else False)"

definition managed_assignable_profile :: "managed_profile \<Rightarrow> str \<Rightarrow> unit sync_result" where
  "managed_assignable_profile profile field =
     (if \<not> mp_enabled profile then Inl (Bail (field @ '' must target an enabled profile''))
      else if \<not> managed_profile_has_boot_action profile
      then Inl (Bail (field @ '' must target a profile with a runnable boot action''))
      else Inr ())"

text \<open>The message of an unsupported type repeats the error's own text.\<close>

definition managed_profile_type :: "str \<Rightarrow> boot_profile_type sync_result" where
  "managed_profile_type value =
     (case profile_type_from_str value of
        Inr t \<Rightarrow> Inr t
      | Inl err \<Rightarrow> Inl (Bail (''invalid managed profile type: '' @
                  (case err of Validation m \<Rightarrow> ''invalid request: '' @ m | _ \<Rightarrow> []))))"

definition validate_profile :: "managed_profile \<Rightarrow> unit sync_result" where
  "validate_profile profile =
     rbind (validate_managed_id (mp_id profile) ''managed boot profile id'') (\<lambda>_.
     if trim (mp_name profile) = [] then Inl (Bail ''managed boot profile name is required'')
     else if 120 < length (trim (mp_name profile))
     then Inl (Bail ''managed boot profile name must be 120 characters or fewer'')
     else if any_char is_control (trim (mp_name profile))
     then Inl (Bail ''managed boot profile name must not contain control characters'')
     else if max_profile_description_chars < chars_count (mp_description profile)
     then Inl (Bail (''managed boot profile description must be '' @ nat_to_str max_profile_description_chars @
                     '' characters or fewer''))
     else if (case mp_raw_script profile of Some v \<Rightarrow> max_profile_raw_script_bytes < length (trim v) | None \<Rightarrow> False)
     then Inl (Bail (''managed boot profile raw_script must be '' @ nat_to_str max_profile_raw_script_bytes @
                     '' bytes or fewer''))
     else rbind (managed_profile_type (mp_profile_type profile)) (\<lambda>profile_type.
       if profile_type \<noteq> CustomIpxe \<and> has_text (mp_raw_script profile)
       then Inl (Bail ''managed boot profile raw_script is only valid for custom_ipxe'')
       else Inr ()))"

fun check_profiles :: "str list \<Rightarrow> nat \<Rightarrow> managed_profile list \<Rightarrow> unit sync_result" where
  "check_profiles seen defaults [] = Inr ()"
| "check_profiles seen defaults (profile # profiles) =
     rbind (validate_profile profile) (\<lambda>_.
     if mp_id profile \<in> set seen then Inl (Bail ''duplicate managed boot profile id'')
     else if mp_is_default profile
     then (if 1 < defaults + 1 then Inl (Bail ''managed boot config includes multiple default profiles'')
           else rbind (managed_assignable_profile profile ''managed default boot profile'') (\<lambda>_.
                  check_profiles (mp_id profile # seen) (defaults + 1) profiles))
     else check_profiles (mp_id profile # seen) defaults profiles)"

fun check_deleted_ids :: "str \<Rightarrow> str \<Rightarrow> str list \<Rightarrow> str list \<Rightarrow> unit sync_result" where
  "check_deleted_ids field duplicate seen [] = Inr ()"
| "check_deleted_ids field duplicate seen (remote_id # ids) =
     rbind (validate_managed_id remote_id field) (\<lambda>_.
     if remote_id \<in> set seen then Inl (Bail duplicate)
     else check_deleted_ids field duplicate (remote_id # seen) ids)"

definition validate_client_profile_reference :: "managed_profile list \<Rightarrow> str option \<Rightarrow> unit sync_result" where
  "validate_client_profile_reference profiles remote_id =
     (case remote_id of
        None \<Rightarrow> Inr ()
      | Some remote_id \<Rightarrow>
          if trim remote_id = [] then Inr ()
          else (case find (\<lambda>p. mp_id p = remote_id) profiles of
                  None \<Rightarrow> Inl (Bail ''managed boot client references an unknown boot profile'')
                | Some profile \<Rightarrow> managed_assignable_profile profile ''managed boot client profile assignment''))"

fun check_clients :: "managed_profile list \<Rightarrow> str list \<Rightarrow> str list \<Rightarrow> managed_client list \<Rightarrow> unit sync_result" where
  "check_clients profiles seen_ids seen_macs [] = Inr ()"
| "check_clients profiles seen_ids seen_macs (client # clients) =
     rbind (validate_managed_id (mc_id client) ''managed boot client id'') (\<lambda>_.
     if mc_id client \<in> set seen_ids then Inl (Bail ''duplicate managed boot client id'')
     else rbind (from_app (normalize_mac (mc_mac client))) (\<lambda>mac.
     if mac \<in> set seen_macs then Inl (Bail ''duplicate managed boot client mac'')
     else rbind (validate_client_metadata client) (\<lambda>_.
          rbind (validate_client_profile_reference profiles (mc_default_profile_id client)) (\<lambda>_.
          rbind (validate_client_profile_reference profiles (mc_one_time_profile_id client)) (\<lambda>_.
          check_clients profiles (mc_id client # seen_ids) (mac # seen_macs) clients)))))"

definition validate_boot_config :: "boot_config \<Rightarrow> unit sync_result" where
  "validate_boot_config config =
     (if max_managed_profiles < length (bc_profiles config)
      then Inl (Bail (''managed boot config includes too many profiles; max is '' @ nat_to_str max_managed_profiles))
      else if max_deleted_managed_profiles < length (bc_deleted_profile_ids config)
      then Inl (Bail (''managed boot config includes too many deleted profiles; max is '' @
                      nat_to_str max_deleted_managed_profiles))
      else if max_managed_clients < length (bc_clients config)
      then Inl (Bail (''managed boot config includes too many clients; max is '' @ nat_to_str max_managed_clients))
      else if max_deleted_managed_clients < length (bc_deleted_client_ids config)
      then Inl (Bail (''managed boot config includes too many deleted clients; max is '' @
                      nat_to_str max_deleted_managed_clients))
      else rbind (check_profiles [] 0 (bc_profiles config)) (\<lambda>_.
           rbind (check_deleted_ids ''deleted managed boot profile id'' ''duplicate deleted managed boot profile id'' []
                    (bc_deleted_profile_ids config)) (\<lambda>_.
           rbind (check_clients (bc_profiles config) [] [] (bc_clients config)) (\<lambda>_.
           check_deleted_ids ''deleted managed boot client id'' ''duplicate deleted managed boot client id'' []
             (bc_deleted_client_ids config)))))"

section \<open>Settings\<close>

record parsed_url =
  url_scheme :: str
  url_host :: "str option"
  url_username :: str
  url_password :: "str option"
  url_query :: "str option"
  url_fragment :: "str option"

definition unsupported_url_char :: "str \<Rightarrow> bool" where
  "unsupported_url_char ch =
     (is_control ch \<or> is_whitespace ch \<or>
      ch \<in> set (map (\<lambda>c. [c]) (CHR 0x22 # CHR 0x5C # CHR 0x60 # '';&|$<>(){}@'')))"

definition normalize_http_url :: "(str \<Rightarrow> parsed_url option) \<Rightarrow> str \<Rightarrow> str \<Rightarrow> str sync_result" where
  "normalize_http_url url_parse field value =
     (let url = trim_end_matches CHR ''/'' (trim value)
      in if url = [] then Inl (Bail (field @ '' must not be empty''))
         else if any_char unsupported_url_char url then Inl (Bail (field @ '' contains unsupported characters''))
         else case url_parse url of
                None \<Rightarrow> Inl (Bail (field @ '' must be an absolute http:// or https:// URL''))
              | Some parsed \<Rightarrow>
                  (if url_scheme parsed \<noteq> ''http'' \<and> url_scheme parsed \<noteq> ''https''
                   then Inl (Bail (field @ '' must be an absolute http:// or https:// URL''))
                   else if url_host parsed = None then Inl (Bail (field @ '' must include a host''))
                   else if url_username parsed \<noteq> [] \<or> url_password parsed \<noteq> None
                   then Inl (Bail (field @ '' must not include embedded credentials''))
                   else if url_query parsed \<noteq> None then Inl (Bail (field @ '' must not include query parameters''))
                   else if url_fragment parsed \<noteq> None then Inl (Bail (field @ '' must not include fragments''))
                   else Inr url))"

definition normalize_bootloader_filename :: "str \<Rightarrow> str sync_result" where
  "normalize_bootloader_filename value =
     (let filename = trim value
      in if filename = [] then Inl (Bail ''boot.bootloader_filename must not be empty'')
         else if starts_with filename ''.'' \<or> contains filename ''/'' \<or> contains filename [CHR 0x5C] \<or>
                 \<not> list_all (\<lambda>c. is_ascii_alphanumeric c \<or> c \<in> set ''._-'') filename
         then Inl (Bail ''boot.bootloader_filename must be a simple filename such as snponly.efi'')
         else Inr filename)"

definition validate_menu_timeout_ms :: "u32 \<Rightarrow> unit sync_result" where
  "validate_menu_timeout_ms value =
     (if value \<noteq> 0 \<and> \<not> (1000 \<le> value \<and> value \<le> 600000)
      then Inl (Bail ''boot.menu_timeout_ms must be 0 or between 1000 and 600000'') else Inr ())"

text \<open>\<open>local_url\<close> and \<open>local_bootloader\<close> are the values of the local configuration.\<close>

definition normalize_managed_settings_for_mode ::
  "(str \<Rightarrow> parsed_url option) \<Rightarrow> str \<Rightarrow> str \<Rightarrow> managed_settings \<Rightarrow> bool \<Rightarrow> managed_settings sync_result" where
  "normalize_managed_settings_for_mode url_parse local_url local_bootloader settings managed_appliance =
     rbind (if managed_appliance \<or> trim (ms_public_base_url settings) = []
            then Inr (trim_end_matches CHR ''/'' local_url)
            else normalize_http_url url_parse ''managed boot settings public_base_url'' (ms_public_base_url settings))
       (\<lambda>public_base_url.
     if public_base_url = [] then Inl (Bail ''managed boot settings public_base_url is required'')
     else rbind (if trim (ms_bootloader_filename settings) = [] then Inr local_bootloader
                 else normalize_bootloader_filename (ms_bootloader_filename settings)) (\<lambda>bootloader_filename.
     rbind (validate_menu_timeout_ms (ms_menu_timeout_ms settings)) (\<lambda>_.
     Inr \<lparr> ms_public_base_url = public_base_url, ms_bootloader_filename = bootloader_filename,
           ms_menu_timeout_ms = ms_menu_timeout_ms settings \<rparr>)))"

section \<open>Writing the configuration\<close>

definition managed_clean_optional :: "str option \<Rightarrow> str option" where
  "managed_clean_optional value =
     (case value of None \<Rightarrow> None | Some v \<Rightarrow> (let trimmed = trim v in if trimmed = [] then None else Some trimmed))"

definition clear_synced_default_profiles :: "unit store_db" where
  "clear_synced_default_profiles =
     write_profiles (\<lambda>s. update_where (\<lambda>_. True) (\<lambda>p. p \<lparr> prof_is_default := False \<rparr>) (st_profiles s))"

definition profile_fields :: "str \<Rightarrow> managed_profile \<Rightarrow> boot_profile_type \<Rightarrow> boot_profile \<Rightarrow> boot_profile" where
  "profile_fields now profile profile_type p =
     p \<lparr> prof_name := trim (mp_name profile), prof_description := mp_description profile, prof_type := profile_type,
         prof_enabled := mp_enabled profile, prof_is_default := mp_is_default profile,
         prof_one_time := mp_one_time profile, prof_raw_script := managed_clean_optional (mp_raw_script profile),
         prof_updated_at := now \<rparr>"

definition sync_profile :: "str \<Rightarrow> managed_profile \<Rightarrow> unit sync_db" where
  "sync_profile now profile =
     db_bind (db_lift (managed_profile_type (mp_profile_type profile))) (\<lambda>profile_type.
     db_bind (db_get (\<lambda>s. find (\<lambda>p. prof_managed_profile_id p = Some (mp_id profile)) (st_profiles s))) (\<lambda>existing.
       case existing of
         Some row \<Rightarrow>
           db_app (write_profiles (\<lambda>s. update_where (\<lambda>p. prof_id p = prof_id row) (profile_fields now profile profile_type)
                     (st_profiles s)))
       | None \<Rightarrow>
           db_then (db_app (insert_profile (\<lambda>i. profile_fields now profile profile_type
              \<lparr> prof_id = i, prof_managed_profile_id = Some (mp_id profile), prof_name = [], prof_description = [],
                prof_type = profile_type, prof_enabled = True, prof_is_default = False, prof_one_time = False,
                prof_raw_script = None, prof_created_at = now, prof_updated_at = now \<rparr>)))
             (db_ret ())))"

fun sync_profile_list :: "str \<Rightarrow> managed_profile list \<Rightarrow> unit sync_db" where
  "sync_profile_list now [] = db_ret ()"
| "sync_profile_list now (profile # profiles) = db_then (sync_profile now profile) (sync_profile_list now profiles)"

fun delete_profile_ids :: "int list \<Rightarrow> unit store_db" where
  "delete_profile_ids [] = db_ret ()"
| "delete_profile_ids (i # ids) = db_then (delete_profiles (\<lambda>p. prof_id p = i)) (delete_profile_ids ids)"

definition seeded_description :: str where
  "seeded_description = ''Return control to UEFI firmware so the next local boot target can start.''"

definition prune_seeded_local_disk_profile :: "managed_profile list \<Rightarrow> unit store_db" where
  "prune_seeded_local_disk_profile profiles =
     (if \<not> list_ex (\<lambda>profile. mp_profile_type profile = profile_type_as_str LocalDisk) profiles then db_ret ()
      else db_bind (db_get st_devices) (\<lambda>devices.
           db_then (delete_profiles (\<lambda>p. prof_managed_profile_id p = None \<and> prof_type p = LocalDisk \<and>
                      prof_name p = ''Local disk'' \<and> prof_description p = seeded_description \<and> \<not> prof_is_default p \<and>
                      \<not> list_ex (\<lambda>d. dev_default_profile_id d = Some (prof_id p) \<or>
                                      dev_one_time_profile_id d = Some (prof_id p) \<or>
                                      dev_last_selected_profile_id d = Some (prof_id p)) devices)) (db_ret ())))"

definition sync_profiles :: "str \<Rightarrow> managed_profile list \<Rightarrow> bool \<Rightarrow> unit sync_db" where
  "sync_profiles now profiles profiles_complete =
     db_then (db_app clear_synced_default_profiles)
     (db_then (sync_profile_list now profiles)
     (db_then (if profiles_complete
               then db_bind (db_get (\<lambda>s. map prof_id (filter (\<lambda>p. case prof_managed_profile_id p of
                                 Some remote_id \<Rightarrow> remote_id \<notin> mp_id ` set profiles | None \<Rightarrow> False) (st_profiles s))))
                      (\<lambda>ids. db_app (delete_profile_ids ids))
               else db_ret ())
     (db_app (prune_seeded_local_disk_profile profiles))))"

text \<open>The identities are checked one after the other; one that was seen before is skipped.\<close>

fun sync_deleted_profiles :: "str list \<Rightarrow> str list \<Rightarrow> unit store_db" where
  "sync_deleted_profiles seen [] = db_ret ()"
| "sync_deleted_profiles seen (remote_id # ids) =
     (if remote_id \<in> set seen then sync_deleted_profiles seen ids
      else db_then (delete_profiles (\<lambda>p. prof_managed_profile_id p = Some remote_id))
             (sync_deleted_profiles (remote_id # seen) ids))"

fun sync_deleted_clients :: "str list \<Rightarrow> str list \<Rightarrow> unit store_db" where
  "sync_deleted_clients seen [] = db_ret ()"
| "sync_deleted_clients seen (remote_id # ids) =
     (if remote_id \<in> set seen then sync_deleted_clients seen ids
      else db_then (delete_devices (\<lambda>_ d. row_managed_client_id d = Some remote_id))
             (sync_deleted_clients (remote_id # seen) ids))"

definition managed_profile_map :: "(str \<Rightarrow> int option) store_db" where
  "managed_profile_map =
     db_get (\<lambda>s. map_of (rev (List.map_filter (\<lambda>p. map_option (\<lambda>r. (r, prof_id p)) (prof_managed_profile_id p))
                             (st_profiles s))))"

definition local_profile_id :: "(str \<Rightarrow> int option) \<Rightarrow> str option \<Rightarrow> int option sync_result" where
  "local_profile_id profile_map remote_id =
     (case remote_id of
        None \<Rightarrow> Inr None
      | Some remote_id \<Rightarrow>
          if trim remote_id = [] then Inr None
          else (case profile_map remote_id of
                  Some i \<Rightarrow> Inr (Some i)
                | None \<Rightarrow> Inl (Bail ''managed client references an unknown boot profile'')))"

definition client_fields ::
  "str \<Rightarrow> managed_client \<Rightarrow> str \<Rightarrow> int option \<Rightarrow> int option \<Rightarrow> device_row \<Rightarrow> device_row" where
  "client_fields now client mac default_profile_id one_time_profile_id d =
     d \<lparr> row_managed_client_id := Some (mc_id client), dev_mac := mac,
         dev_hostname := managed_clean_optional (mc_hostname client),
         dev_serial_number := managed_clean_optional (mc_serial_number client),
         dev_last_seen_at := (case mc_last_seen_at client of Some t \<Rightarrow> Some t | None \<Rightarrow> dev_last_seen_at d),
         dev_notes := mc_notes client, dev_tags := clean_tags (mc_tags client),
         dev_default_profile_id := default_profile_id,
         dev_one_time_consumed_at := (if dev_one_time_profile_id d \<noteq> one_time_profile_id then None
                                      else dev_one_time_consumed_at d),
         dev_one_time_profile_id := one_time_profile_id,
         row_managed_device_id := managed_clean_optional (mc_managed_device_id client),
         row_reinstall_request_id := managed_clean_optional (mc_reinstall_request_id client),
         dev_updated_at := now \<rparr>"

text \<open>The row of a client: the one with its identity, otherwise the one with its address.\<close>

definition client_row :: "str \<Rightarrow> str \<Rightarrow> device_row list \<Rightarrow> device_row option" where
  "client_row remote_id mac rows =
     (case find (\<lambda>d. row_managed_client_id d = Some remote_id) rows of
        Some d \<Rightarrow> Some d
      | None \<Rightarrow> find (\<lambda>d. to_ascii_lowercase (dev_mac d) = to_ascii_lowercase mac) rows)"

definition sync_client :: "str \<Rightarrow> (str \<Rightarrow> int option) \<Rightarrow> managed_client \<Rightarrow> unit sync_db" where
  "sync_client now profile_map client =
     db_bind (db_lift (from_app (normalize_mac (mc_mac client)))) (\<lambda>mac.
     db_bind (db_lift (local_profile_id profile_map (mc_default_profile_id client))) (\<lambda>default_profile_id.
     db_bind (db_lift (local_profile_id profile_map (mc_one_time_profile_id client))) (\<lambda>one_time_profile_id.
     db_bind (db_get (\<lambda>s. client_row (mc_id client) mac (st_devices s))) (\<lambda>existing.
       case existing of
         Some row \<Rightarrow>
           db_app (update_devices (\<lambda>d. dev_id d = dev_id row)
                     (client_fields now client mac default_profile_id one_time_profile_id))
       | None \<Rightarrow>
           db_then (db_app (insert_device (\<lambda>i.
              client_fields now client mac default_profile_id one_time_profile_id (new_device_row mac now i))))
             (db_ret ())))))"

fun sync_client_list :: "str \<Rightarrow> (str \<Rightarrow> int option) \<Rightarrow> managed_client list \<Rightarrow> unit sync_db" where
  "sync_client_list now profile_map [] = db_ret ()"
| "sync_client_list now profile_map (client # clients) =
     db_then (sync_client now profile_map client) (sync_client_list now profile_map clients)"

fun delete_device_ids :: "int list \<Rightarrow> unit store_db" where
  "delete_device_ids [] = db_ret ()"
| "delete_device_ids (i # ids) = db_then (delete_devices (\<lambda>_ d. dev_id d = i)) (delete_device_ids ids)"

definition sync_clients :: "str \<Rightarrow> managed_client list \<Rightarrow> (str \<Rightarrow> int option) \<Rightarrow> bool \<Rightarrow> unit sync_db" where
  "sync_clients now clients profile_map clients_complete =
     db_then (sync_client_list now profile_map clients)
     (if clients_complete
      then db_bind (db_get (\<lambda>s. map dev_id (filter (\<lambda>d. case row_managed_client_id d of
                        Some remote_id \<Rightarrow> remote_id \<notin> mc_id ` set clients | None \<Rightarrow> False) (st_devices s))))
             (\<lambda>ids. db_app (delete_device_ids ids))
      else db_ret ())"

text \<open>The transaction of \<^verbatim>\<open>apply_boot_config\<close>.\<close>

definition sync_store :: "str \<Rightarrow> boot_config \<Rightarrow> unit sync_db" where
  "sync_store now config =
     db_transaction
       (db_then (db_app (sync_deleted_profiles [] (bc_deleted_profile_ids config)))
       (db_then (sync_profiles now (bc_profiles config) (bc_profiles_complete config))
       (db_bind (db_app managed_profile_map) (\<lambda>profile_map.
        db_then (db_app (sync_deleted_clients [] (bc_deleted_client_ids config)))
        (sync_clients now (bc_clients config) profile_map (bc_clients_complete config))))))"

section \<open>The handoff file and the running settings\<close>

definition pxe_json :: "pxe_desired \<Rightarrow> json" where
  "pxe_json d =
     obj_of [(''schema'', JStr (pxe_schema d)), (''server_device_id'', JStr (pxe_server_device_id d)),
       (''complete'', JBool (pxe_complete d)),
       (''peers'', JArr (map (\<lambda>p. obj_of [(''server_device_id'', JStr (peer_server_device_id p)),
          (''address'', JStr (peer_address p)), (''mac'', JStr (peer_mac p)),
          (''bootloader_filename'', JStr (peer_bootloader_filename p)),
          (''proxy_capable'', JBool (peer_proxy_capable p))]) (pxe_peers d))),
       (''clients'', JArr (map (\<lambda>c. obj_of [(''mac'', JStr (pxc_mac c)),
          (''server_device_id'', (case pxc_server_device_id c of Some v \<Rightarrow> JStr v | None \<Rightarrow> JNull))]) (pxe_clients d)))]"

record agent =
  ag_store :: store
  ag_runtime :: managed_settings
  ag_pxe_file :: "str option"

text \<open>\<open>fault\<close> is the failure of a step of the file replacement, which then leaves the old file; the
  state path has a parent directory.\<close>

definition persist :: "json_env \<Rightarrow> bool \<Rightarrow> io_error option \<Rightarrow> int \<Rightarrow> pxe_desired option \<Rightarrow> (agent, sync_error, unit) edb" where
  "persist env managed_appliance fault timestamp desired ag =
     (if \<not> managed_appliance then (Inr (), ag)
      else let bytes = je_to_string env (obj_of [(''received_at'', JNum timestamp),
                         (''desired'', (case desired of Some d \<Rightarrow> pxe_json d | None \<Rightarrow> JNull))])
           in if 2 * 1024 * 1024 < length bytes then (Inl (Bail ''PXE discovery inventory exceeds bound''), ag)
              else case fault of
                     Some e \<Rightarrow> (Inl (FromApp (Io e)), ag)
                   | None \<Rightarrow> (Inr (), ag \<lparr> ag_pxe_file := Some bytes \<rparr>))"

definition on_store :: "'a sync_db \<Rightarrow> (agent, sync_error, 'a) edb" where
  "on_store m ag = (case m (ag_store ag) of (r, s) \<Rightarrow> (r, ag \<lparr> ag_store := s \<rparr>))"

definition apply_boot_config ::
  "json_env \<Rightarrow> (str \<Rightarrow> parsed_url option) \<Rightarrow> str \<Rightarrow> str \<Rightarrow> bool \<Rightarrow> io_error option \<Rightarrow> int \<Rightarrow> str \<Rightarrow> boot_config \<Rightarrow>
     (agent, sync_error, unit) edb" where
  "apply_boot_config env url_parse local_url local_bootloader managed_appliance fault timestamp now config =
     db_bind (db_lift (normalize_managed_settings_for_mode url_parse local_url local_bootloader (bc_settings config)
                         managed_appliance)) (\<lambda>settings.
     db_then (db_lift (validate_boot_config config))
     (db_then (on_store (sync_store now config))
     (let discovery = map_option (\<lambda>d. d \<lparr> pxe_complete := (pxe_complete d \<and> bc_clients_complete config \<and>
                                            bc_profiles_complete config) \<rparr>) (bc_pxe_discovery config)
      in db_then (persist env managed_appliance fault timestamp discovery)
           (\<lambda>ag. (Inr (), ag \<lparr> ag_runtime := settings \<rparr>)))))"

section \<open>The store invariant under synchronisation\<close>

text \<open>The invariant of the store; the clause that assignments are runnable only if \<open>A\<close>.\<close>

definition row_ok_if :: "bool \<Rightarrow> boot_profile list \<Rightarrow> int \<Rightarrow> device_row \<Rightarrow> bool" where
  "row_ok_if A profiles seq d =
     (dev_id d \<le> seq \<and> canonical_mac (dev_mac d) \<and>
      (A \<longrightarrow> assignment_ok profiles (dev_default_profile_id d) \<and> assignment_ok profiles (dev_one_time_profile_id d)))"

definition store_inv_if :: "bool \<Rightarrow> store \<Rightarrow> bool" where
  "store_inv_if A s =
     (distinct (map dev_id (st_devices s)) \<and> devices_unique (st_devices s) \<and>
      list_all (row_ok_if A (st_profiles s) (st_device_seq s)) (st_devices s) \<and>
      list_all (device_fk (st_profiles s)) (st_devices s) \<and> profiles_inv s \<and> events_inv s)"

lemma store_inv_if_True: "store_inv_if True s = store_inv s"
  by (auto simp: store_inv_if_def store_inv_def devices_inv_def device_ok_def row_ok_if_def list_all_iff)

lemma inv_if_set_devices:
  assumes "store_inv_if A s" and "devices_unique rows" and "list_all (device_fk (st_profiles s)) rows"
    and "distinct (map dev_id rows)" and "dev_id ` set (st_devices s) \<subseteq> dev_id ` set rows"
    and "list_all (row_ok_if A (st_profiles s) seq) rows"
  shows "store_inv_if A (s \<lparr> st_devices := rows, st_device_seq := seq \<rparr>)"
proof -
  have "list_all (event_fk (s \<lparr> st_devices := rows, st_device_seq := seq \<rparr>)) (st_events s)"
    using assms(1,5) event_fk_mono [of s] by (auto simp: store_inv_if_def events_inv_def list_all_iff)
  then show ?thesis using assms by (simp add: store_inv_if_def profiles_inv_def events_inv_def)
qed

lemma inv_if_set_profiles:
  assumes inv: "store_inv_if A s" and u: "profiles_unique rows" and "distinct (map prof_id rows)"
    and sub: "prof_id ` set (st_profiles s) \<subseteq> prof_id ` set rows"
    and "list_all (\<lambda>p. prof_id p \<le> seq \<and> (prof_is_default p \<longrightarrow> runnable p)) rows"
    and keep: "\<And>p. A \<Longrightarrow> p \<in> set (st_profiles s) \<Longrightarrow> runnable p \<Longrightarrow> \<exists>q \<in> set rows. prof_id q = prof_id p \<and> runnable q"
  shows "store_inv_if A (s \<lparr> st_profiles := rows, st_profile_seq := seq \<rparr>)"
proof -
  have ex: "profile_exists rows ref" if "profile_exists (st_profiles s) ref" for ref
    using that sub by (auto simp: profile_exists_iff)
  have "assignment_ok rows ref" if "A" "assignment_ok (st_profiles s) ref" for ref
    using that keep by (fastforce simp: assignment_ok_iff)
  then have "list_all (row_ok_if A rows (st_device_seq s)) (st_devices s)"
    using inv by (auto simp: store_inv_if_def row_ok_if_def list_all_iff)
  moreover have "list_all (device_fk rows) (st_devices s)"
    using inv ex by (auto simp: store_inv_if_def device_fk_def list_all_iff)
  moreover have "list_all (event_fk (s \<lparr> st_profiles := rows, st_profile_seq := seq \<rparr>)) (st_events s)"
    using inv ex by (auto simp: store_inv_if_def events_inv_def event_fk_def list_all_iff)
  ultimately show ?thesis
    using assms by (simp add: store_inv_if_def profiles_inv_def events_inv_def list_all_iff)
qed

lemma delete_devices_inv_if [db_rules]: "keeps (store_inv_if A) (delete_devices q)"
  unfolding keeps_iff
proof (intro allI impI)
  fix s
  assume inv: "store_inv_if A s"
  let ?t = "snd (delete_devices q s)"
  have "list_all (event_fk ?t) (st_events ?t)"
    using inv by (auto simp: delete_devices_def Let_def store_inv_if_def events_inv_def event_fk_def list_all_iff
        intro: device_exists_delete)
  with inv show "store_inv_if A ?t"
    by (auto simp: delete_devices_def Let_def store_inv_if_def profiles_inv_def events_inv_def
        list_all_iff distinct_delete_where devices_unique_delete comp_def)
qed

lemma delete_profiles_inv_if [db_rules]: "keeps (store_inv_if A) (delete_profiles p)"
  unfolding keeps_iff
proof (intro allI impI)
  fix s
  assume inv: "store_inv_if A s"
  let ?t = "snd (delete_profiles p s)"
  have dev: "list_all (row_ok_if A (st_profiles ?t) (st_device_seq ?t)) (st_devices ?t)"
    "list_all (device_fk (st_profiles ?t)) (st_devices ?t)"
    using inv
    by (auto simp: delete_profiles_def Let_def store_inv_if_def row_ok_if_def device_fk_def
        list_all_iff intro: assignment_ok_delete profile_exists_delete)
  have ids: "map dev_id (st_devices ?t) = map dev_id (st_devices s)"
    by (simp add: delete_profiles_def Let_def)
  have "device_exists (st_devices ?t) ref = device_exists (st_devices s) ref" for ref
    unfolding device_exists_iff set_map [symmetric] ids ..
  then have ev: "list_all (event_fk ?t) (st_events ?t)"
    using inv by (auto simp: delete_profiles_def Let_def store_inv_if_def events_inv_def event_fk_def list_all_iff
        intro: profile_exists_delete)
  have "devices_unique (st_devices ?t)"
    using inv by (simp add: delete_profiles_def Let_def store_inv_if_def devices_unique_def comp_def mac_key_def [abs_def])
  with dev ev inv show "store_inv_if A ?t"
    by (auto simp: delete_profiles_def Let_def store_inv_if_def profiles_inv_def events_inv_def
        list_all_iff distinct_delete_where profiles_unique_delete comp_def)
qed

lemma update_profiles_inv_if:
  assumes f: "\<And>p. q p \<Longrightarrow> prof_id (f p) = prof_id p \<and> (prof_is_default (f p) \<longrightarrow> runnable (f p)) \<and>
      (A \<longrightarrow> runnable p \<longrightarrow> runnable (f p))"
  shows "keeps (store_inv_if A) (write_profiles (\<lambda>s. update_where q f (st_profiles s)))"
  unfolding keeps_iff
proof (intro allI impI)
  fix s
  assume inv: "store_inv_if A s"
  let ?rows = "update_where q f (st_profiles s)"
  have ids: "map prof_id ?rows = map prof_id (st_profiles s)" using f by (simp add: update_where_def)
  then have set_ids: "prof_id ` set ?rows = prof_id ` set (st_profiles s)" by (metis list.set_map)
  have rows: "list_all (\<lambda>p. prof_id p \<le> st_profile_seq s \<and> (prof_is_default p \<longrightarrow> runnable p)) ?rows"
    using inv f by (auto simp: store_inv_if_def profiles_inv_def list_all_iff set_update_where)
  have keep: "\<exists>r \<in> set ?rows. prof_id r = prof_id p \<and> runnable r"
    if "A" "p \<in> set (st_profiles s)" "runnable p" for p
    using that f [of p] by (intro bexI [of _ "if q p then f p else p"]) (auto simp: set_update_where)
  show "store_inv_if A (snd (write_profiles (\<lambda>s. update_where q f (st_profiles s)) s))"
  proof (rule write_profiles_cases [of "\<lambda>s. update_where q f (st_profiles s)" s])
    assume u: "profiles_unique ?rows"
      and w: "write_profiles (\<lambda>s. update_where q f (st_profiles s)) s = (Inr (), s \<lparr> st_profiles := ?rows \<rparr>)"
    have "store_inv_if A (s \<lparr> st_profiles := ?rows, st_profile_seq := st_profile_seq s \<rparr>)"
      using inv ids set_ids by (intro inv_if_set_profiles u rows keep) (auto simp: store_inv_if_def profiles_inv_def)
    then show ?thesis by (simp add: w)
  qed (simp add: inv)
qed

lemma insert_profile_inv_if:
  assumes "\<And>i. prof_id (mk i) = i" and "\<And>i. prof_is_default (mk i) \<Longrightarrow> runnable (mk i)"
  shows "keeps (store_inv_if A) (insert_profile mk)"
  unfolding keeps_iff
proof (intro allI impI)
  fix s
  assume inv: "store_inv_if A s"
  define i where "i = st_profile_seq s + 1"
  let ?f = "\<lambda>s. st_profiles s @ [mk i]"
  have p: "distinct (map prof_id (st_profiles s))"
    "list_all (\<lambda>p. prof_id p \<le> st_profile_seq s \<and> (prof_is_default p \<longrightarrow> runnable p)) (st_profiles s)"
    using inv by (auto simp: store_inv_if_def profiles_inv_def list_all_iff)
  show "store_inv_if A (snd (insert_profile mk s))"
  proof (rule write_profiles_cases [of ?f s])
    assume u: "profiles_unique (?f s)" and w: "write_profiles ?f s = (Inr (), s \<lparr> st_profiles := ?f s \<rparr>)"
    have "store_inv_if A (s \<lparr> st_profiles := ?f s, st_profile_seq := i \<rparr>)"
      using p assms by (intro inv_if_set_profiles inv u) (auto simp: i_def list_all_iff intro: order_trans)
    then show ?thesis by (simp add: insert_profile_def Let_def i_def [symmetric] w)
  qed (simp add: insert_profile_def Let_def i_def [symmetric] inv)
qed

lemma update_devices_inv_if:
  assumes inv: "store_inv_if A s"
    and f: "\<And>d. d \<in> set (st_devices s) \<Longrightarrow> p d \<Longrightarrow> dev_id (f d) = dev_id d \<and> canonical_mac (dev_mac (f d)) \<and>
      (A \<longrightarrow> assignment_ok (st_profiles s) (dev_default_profile_id (f d)) \<and>
             assignment_ok (st_profiles s) (dev_one_time_profile_id (f d)))"
  shows "store_inv_if A (snd (update_devices p f s))"
proof -
  let ?rows = "update_where p f (st_devices s)"
  have ids: "map dev_id ?rows = map dev_id (st_devices s)" using f by (simp add: update_where_def)
  then have set_ids: "dev_id ` set ?rows = dev_id ` set (st_devices s)" by (metis list.set_map)
  have rows: "list_all (row_ok_if A (st_profiles s) (st_device_seq s)) ?rows"
    using inv f by (fastforce simp: store_inv_if_def list_all_iff row_ok_if_def update_where_def)
  show ?thesis
  proof (rule write_devices_cases [of "\<lambda>s. update_where p f (st_devices s)" s])
    assume u: "devices_unique ?rows" "list_all (device_fk (st_profiles s)) ?rows"
      and w: "write_devices (\<lambda>s. update_where p f (st_devices s)) s = (Inr (), s \<lparr> st_devices := ?rows \<rparr>)"
    have "store_inv_if A (s \<lparr> st_devices := ?rows, st_device_seq := st_device_seq s \<rparr>)"
      using inv ids set_ids by (intro inv_if_set_devices u rows) (auto simp: store_inv_if_def)
    then show ?thesis by (simp add: update_devices_def w)
  qed (simp_all add: update_devices_def inv)
qed

lemma insert_device_inv_if:
  assumes inv: "store_inv_if A s" and mk: "\<And>i. dev_id (mk i) = i"
    and row: "\<And>i. row_ok_if A (st_profiles s) i (mk i)"
  shows "store_inv_if A (snd (insert_device mk s))"
proof -
  define i where "i = st_device_seq s + 1"
  let ?f = "\<lambda>s'. st_devices s' @ [mk i]"
  have rows: "list_all (row_ok_if A (st_profiles s) i) (?f s)"
    using inv row by (fastforce simp: store_inv_if_def list_all_iff row_ok_if_def i_def)
  have fresh: "i \<notin> dev_id ` set (st_devices s)"
    using inv by (fastforce simp: store_inv_if_def list_all_iff row_ok_if_def i_def)
  show ?thesis
  proof (rule write_devices_cases [of ?f s])
    assume u: "devices_unique (?f s)" "list_all (device_fk (st_profiles s)) (?f s)"
      and w: "write_devices ?f s = (Inr (), s \<lparr> st_devices := ?f s \<rparr>)"
    have "store_inv_if A (s \<lparr> st_devices := ?f s, st_device_seq := i \<rparr>)"
      by (rule inv_if_set_devices [OF inv u _ _ rows]) (use inv mk fresh in \<open>auto simp: store_inv_if_def\<close>)
    then show ?thesis by (simp add: insert_device_def Let_def w i_def [symmetric])
  qed (simp_all add: insert_device_def Let_def i_def [symmetric] inv)
qed

subsection \<open>Profiles\<close>

lemma keeps_db_app [db_rules]: "keeps P m \<Longrightarrow> keeps P (db_app m)"
  by (auto simp: keeps_iff db_app_def split: prod.splits)

definition assignable :: "managed_profile \<Rightarrow> bool" where
  "assignable profile = (mp_enabled profile \<and> managed_profile_has_boot_action profile)"

lemma assignable_iff: "managed_assignable_profile profile f = Inr u \<longleftrightarrow> assignable profile"
  by (simp add: managed_assignable_profile_def assignable_def)

lemma has_text_clean: "has_text v \<Longrightarrow> (case managed_clean_optional v of None \<Rightarrow> False | Some w \<Rightarrow> trim w \<noteq> [])"
  by (auto simp: has_text_def managed_clean_optional_def Let_def trim_idem split: option.splits)

lemma profile_fields_runnable:
  assumes "managed_profile_type (mp_profile_type profile) = Inr t" and "assignable profile"
  shows "runnable (profile_fields now profile t p)"
proof -
  from assms(1) have t: "profile_type_from_str (mp_profile_type profile) = Inr t"
    by (simp add: managed_profile_type_def split: sum.splits)
  show ?thesis
    using assms(2) t has_text_clean [of "mp_raw_script profile"]
    by (auto simp: runnable_def profile_fields_def profile_fields_have_boot_action_def assignable_def
        managed_profile_has_boot_action_def profile_type_from_str_def split: if_splits)
qed

lemma profile_fields_sel [simp]:
  "prof_id (profile_fields now profile t p) = prof_id p"
  "prof_managed_profile_id (profile_fields now profile t p) = prof_managed_profile_id p"
  "prof_is_default (profile_fields now profile t p) = mp_is_default profile"
  by (simp_all add: profile_fields_def)

lemma sync_profile_inv_if:
  assumes "mp_is_default profile \<or> A \<Longrightarrow> assignable profile"
  shows "keeps (store_inv_if A) (sync_profile now profile)"
  unfolding sync_profile_def
  by (intro db_rules update_profiles_inv_if insert_profile_inv_if) (auto intro: profile_fields_runnable assms)

lemma sync_profile_list_inv_if:
  "(\<And>profile. profile \<in> set profiles \<Longrightarrow> mp_is_default profile \<or> A \<Longrightarrow> assignable profile) \<Longrightarrow>
   keeps (store_inv_if A) (sync_profile_list now profiles)"
proof (induction profiles)
  case (Cons profile profiles)
  show ?case
    unfolding sync_profile_list.simps by (intro db_rules sync_profile_inv_if Cons.IH Cons.prems) auto
qed (simp add: db_rules)

lemma delete_profile_ids_inv_if [db_rules]: "keeps (store_inv_if A) (delete_profile_ids ids)"
  by (induction ids) (simp only: delete_profile_ids.simps, intro db_rules; assumption)+

lemma clear_synced_inv_if [db_rules]: "keeps (store_inv_if A) clear_synced_default_profiles"
  unfolding clear_synced_default_profiles_def by (intro update_profiles_inv_if) (simp add: runnable_def)

lemma sync_profiles_inv_if:
  assumes "\<And>profile. profile \<in> set profiles \<Longrightarrow> mp_is_default profile \<or> A \<Longrightarrow> assignable profile"
  shows "keeps (store_inv_if A) (sync_profiles now profiles complete)"
  unfolding sync_profiles_def prune_seeded_local_disk_profile_def
  by (intro db_rules sync_profile_list_inv_if assms)

lemma sync_deleted_profiles_inv_if [db_rules]: "keeps (store_inv_if A) (sync_deleted_profiles seen ids)"
  by (induction seen ids rule: sync_deleted_profiles.induct)
    (simp only: sync_deleted_profiles.simps, intro db_rules; blast)+

lemma sync_deleted_clients_inv_if [db_rules]: "keeps (store_inv_if A) (sync_deleted_clients seen ids)"
  by (induction seen ids rule: sync_deleted_clients.induct)
    (simp only: sync_deleted_clients.simps, intro db_rules; blast)+

lemma delete_device_ids_inv_if [db_rules]: "keeps (store_inv_if A) (delete_device_ids ids)"
  by (induction ids) (simp only: delete_device_ids.simps, intro db_rules; assumption)+

subsection \<open>Which profiles the store holds afterwards\<close>

definition synced :: "managed_profile \<Rightarrow> boot_profile \<Rightarrow> bool" where
  "synced profile p =
     (prof_managed_profile_id p = Some (mp_id profile) \<and> prof_name p = trim (mp_name profile) \<and>
      prof_description p = mp_description profile \<and> profile_type_as_str (prof_type p) = mp_profile_type profile \<and>
      prof_enabled p = mp_enabled profile \<and> prof_is_default p = mp_is_default profile \<and>
      prof_one_time p = mp_one_time profile \<and> prof_raw_script p = managed_clean_optional (mp_raw_script profile))"

definition has_synced :: "managed_profile \<Rightarrow> store \<Rightarrow> bool" where
  "has_synced profile s = (\<exists>p \<in> set (st_profiles s). synced profile p)"

lemma unique_some:
  assumes "distinct (somes (map f rows))" and "x \<in> set rows" "y \<in> set rows" and "f x = Some k" "f y = Some k"
  shows "x = y"
  using assms
proof (induction rows)
  case (Cons r rows)
  then show ?case
    by (cases "f r") (force simp: somes_def map_filter_simps set_somes [unfolded somes_def] image_iff)+
qed simp

lemma profile_of_managed_id:
  "store_inv_if A s \<Longrightarrow> p \<in> set (st_profiles s) \<Longrightarrow> q \<in> set (st_profiles s) \<Longrightarrow>
   prof_managed_profile_id p = Some k \<Longrightarrow> prof_managed_profile_id q = Some k \<Longrightarrow> p = q"
  using unique_some [of prof_managed_profile_id "st_profiles s" p q k]
  by (simp add: store_inv_if_def profiles_inv_def profiles_unique_def)

lemma inv_if_distinct:
  "store_inv_if A s \<Longrightarrow> distinct (map prof_id (st_profiles s)) \<and> distinct (map dev_id (st_devices s))"
  by (simp add: store_inv_if_def profiles_inv_def)

lemma prof_id_inj:
  "store_inv_if A s \<Longrightarrow> p \<in> set (st_profiles s) \<Longrightarrow> q \<in> set (st_profiles s) \<Longrightarrow> prof_id p = prof_id q \<Longrightarrow> p = q"
  by (meson inv_if_distinct distinct_map inj_onD)

lemma dev_id_inj:
  "store_inv_if A s \<Longrightarrow> d \<in> set (st_devices s) \<Longrightarrow> e \<in> set (st_devices s) \<Longrightarrow> dev_id d = dev_id e \<Longrightarrow> d = e"
  by (meson inv_if_distinct distinct_map inj_onD)

lemma db_app_eq_Inr [result_simps]: "db_app m s = (Inr x, t) \<longleftrightarrow> m s = (Inr x, t)"
  by (auto simp: db_app_def from_app_def split: prod.splits) (metis obj_sumE map_sum.simps(1) Inl_Inr_False map_sum.simps(2) id_apply sum.inject(2))

lemma db_bind_get_eq: "db_bind (db_get f) k s = k (f s) s"
  by (simp add: db_bind_def)

lemma write_profiles_Inr: "write_profiles f s = (Inr x, t) \<Longrightarrow> t = s \<lparr> st_profiles := f s \<rparr>"
  by (auto simp: write_profiles_def Let_def split: if_splits)

lemma insert_profile_Inr:
  "insert_profile mk s = (Inr i, t) \<Longrightarrow> t = s \<lparr> st_profiles := st_profiles s @ [mk i], st_profile_seq := i \<rparr>"
  by (auto simp: insert_profile_def write_profiles_def Let_def split: if_splits)

lemma sync_profile_Inr:
  assumes "sync_profile now profile s = (Inr u, t)"
  obtains (update) ty row where "managed_profile_type (mp_profile_type profile) = Inr ty" "row \<in> set (st_profiles s)"
      "prof_managed_profile_id row = Some (mp_id profile)"
      "st_profiles t = update_where (\<lambda>p. prof_id p = prof_id row) (profile_fields now profile ty) (st_profiles s)"
  | (insert) ty new where "managed_profile_type (mp_profile_type profile) = Inr ty"
      "prof_managed_profile_id new = Some (mp_id profile)"
      "st_profiles t = st_profiles s @ [profile_fields now profile ty new]"
proof (cases "find (\<lambda>p. prof_managed_profile_id p = Some (mp_id profile)) (st_profiles s)")
  case None
  with assms show thesis
    by (auto simp: sync_profile_def lift_eq_Inr db_bind_get_eq result_simps dest!: insert_profile_Inr intro!: insert)
next
  case (Some row)
  then have "row \<in> set (st_profiles s)" "prof_managed_profile_id row = Some (mp_id profile)"
    by (auto simp: find_Some_iff)
  with Some assms show thesis
    by (auto simp: sync_profile_def lift_eq_Inr db_bind_get_eq result_simps dest!: write_profiles_Inr intro: update)
qed

lemma synced_profile_fields:
  assumes "managed_profile_type (mp_profile_type profile) = Inr ty" "prof_managed_profile_id p = Some (mp_id profile)"
  shows "synced profile (profile_fields now profile ty p)"
  using assms by (auto simp: synced_def profile_fields_def managed_profile_type_def profile_type_from_str_def
      split: sum.splits if_splits)

lemma sync_profile_synced:
  assumes "sync_profile now profile s = (Inr u, t)" and inv: "store_inv_if A s"
  shows "has_synced profile t"
    and "mp_id other \<noteq> mp_id profile \<Longrightarrow> has_synced other s \<Longrightarrow> has_synced other t"
proof -
  show "has_synced profile t"
    using assms(1)
    by (cases rule: sync_profile_Inr)
       (auto simp: has_synced_def set_update_where intro!: synced_profile_fields)
  assume o: "mp_id other \<noteq> mp_id profile" "has_synced other s"
  then obtain q where q: "q \<in> set (st_profiles s)" "synced other q" by (auto simp: has_synced_def)
  from assms(1) show "has_synced other t"
  proof (cases rule: sync_profile_Inr)
    case (update ty row)
    have "prof_id q \<noteq> prof_id row"
      using prof_id_inj [OF inv q(1) update(2)] q(2) update(3) o(1) by (auto simp: synced_def)
    then show ?thesis using q by (auto simp: has_synced_def update(4) set_update_where)
  qed (use q in \<open>auto simp: has_synced_def\<close>)
qed

lemma sync_profile_list_synced:
  assumes "sync_profile_list now profiles s = (Inr u, t)" and "store_inv_if False s"
    and "distinct (map mp_id profiles)" and "\<And>mp. mp \<in> set profiles \<Longrightarrow> mp_is_default mp \<Longrightarrow> assignable mp"
  shows "(\<forall>mp \<in> set profiles. has_synced mp t) \<and>
         (\<forall>mp. mp_id mp \<notin> mp_id ` set profiles \<longrightarrow> has_synced mp s \<longrightarrow> has_synced mp t)"
  using assms
proof (induction profiles arbitrary: s)
  case (Cons profile profiles)
  from Cons.prems(1) obtain s1 where s1: "sync_profile now profile s = (Inr (), s1)"
    and rest: "sync_profile_list now profiles s1 = (Inr u, t)"
    by (auto simp: db_then_eq_Inr)
  have "store_inv_if False s1"
    using keepsD [OF sync_profile_inv_if [of profile False now] Cons.prems(2) s1] Cons.prems(4) by auto
  from Cons.IH [OF rest this] Cons.prems sync_profile_synced [OF s1 Cons.prems(2)]
  show ?case by auto
qed simp

text \<open>Deleting rows of other managed identities, or local rows, keeps a synchronised row.\<close>

lemma st_profiles_delete: "delete_profiles q s = (Inr n, t) \<Longrightarrow> st_profiles t = filter (\<lambda>p. \<not> q p) (st_profiles s)"
  by (auto simp: delete_profiles_def Let_def delete_where_def)

lemma st_profiles_delete_ids:
  "delete_profile_ids ids s = (Inr u, t) \<Longrightarrow> st_profiles t = filter (\<lambda>p. prof_id p \<notin> set ids) (st_profiles s)"
proof (induction ids arbitrary: s)
  case (Cons i ids)
  then obtain n s1 where "delete_profiles (\<lambda>p. prof_id p = i) s = (Inr n, s1)" "delete_profile_ids ids s1 = (Inr u, t)"
    by (auto simp: db_then_eq_Inr)
  from st_profiles_delete [OF this(1)] Cons.IH [OF this(2)] show ?case by (auto intro: filter_cong)
qed simp

definition stale :: "managed_profile list \<Rightarrow> boot_profile \<Rightarrow> bool" where
  "stale profiles p = (case prof_managed_profile_id p of Some remote_id \<Rightarrow> remote_id \<notin> mp_id ` set profiles | None \<Rightarrow> False)"

lemma prune_profiles:
  assumes "prune_seeded_local_disk_profile profiles s = (Inr u, t)"
  shows "set (st_profiles t) \<subseteq> set (st_profiles s)"
    and "p \<in> set (st_profiles s) \<Longrightarrow> prof_managed_profile_id p \<noteq> None \<Longrightarrow> p \<in> set (st_profiles t)"
  using assms
  by (auto simp: prune_seeded_local_disk_profile_def db_bind_get_eq db_then_eq_Inr dest!: st_profiles_delete split: if_splits)

lemma kept_by_key: "distinct (map f xs) \<Longrightarrow> x \<in> set xs \<Longrightarrow> \<not> P x \<Longrightarrow> f x \<notin> f ` {y \<in> set xs. P y}"
  by (metis (mono_tags, lifting) distinct_map imageE inj_onD mem_Collect_eq)

lemma sync_profiles_post:
  assumes "sync_profiles now profiles complete s = (Inr u, t)" and inv: "store_inv_if False s"
    and "distinct (map mp_id profiles)" and ok: "\<And>mp. mp \<in> set profiles \<Longrightarrow> mp_is_default mp \<Longrightarrow> assignable mp"
  shows "\<forall>mp \<in> set profiles. has_synced mp t" and "complete \<Longrightarrow> \<forall>p \<in> set (st_profiles t). \<not> stale profiles p"
proof -
  from assms(1) obtain s1 s2 s3 where s1: "clear_synced_default_profiles s = (Inr (), s1)"
    and s2: "sync_profile_list now profiles s1 = (Inr (), s2)"
    and s3: "(if complete then delete_profile_ids (map prof_id (filter (stale profiles) (st_profiles s2)))
              else db_ret ()) s2 = (Inr (), s3)"
    and t: "prune_seeded_local_disk_profile profiles s3 = (Inr u, t)"
    unfolding sync_profiles_def db_then_eq_Inr db_app_eq_Inr stale_def [symmetric]
    by (elim exE conjE) (rule that, simp, simp, simp add: db_bind_get_eq db_app_eq_Inr split: if_splits, simp)
  have inv1: "store_inv_if False s1" using keepsD [OF clear_synced_inv_if inv s1] .
  have inv2: "store_inv_if False s2"
    using keepsD [OF sync_profile_list_inv_if [of profiles False now] inv1 s2] ok by auto
  have keep: "has_synced mp t" if mp: "mp \<in> set profiles" for mp
  proof -
    obtain p where p: "p \<in> set (st_profiles s2)" "synced mp p"
      using sync_profile_list_synced [OF s2 inv1 assms(3)] ok mp by (auto simp: has_synced_def)
    have "p \<in> set (st_profiles s3)"
    proof (cases complete)
      case True
      have "\<not> stale profiles p" using p(2) mp by (simp add: stale_def synced_def)
      then have "prof_id p \<notin> prof_id ` {q \<in> set (st_profiles s2). stale profiles q}"
        using inv_if_distinct [OF inv2] p(1) by (intro kept_by_key) simp_all
      with True p(1) s3 show ?thesis by (auto dest!: st_profiles_delete_ids)
    qed (use p s3 in simp)
    with p(2) prune_profiles(2) [OF t] show ?thesis by (auto simp: has_synced_def synced_def)
  qed
  then show "\<forall>mp \<in> set profiles. has_synced mp t" by blast
  assume complete
  with s3 have "st_profiles s3 = filter (\<lambda>p. prof_id p \<notin> prof_id ` {q \<in> set (st_profiles s2). stale profiles q}) (st_profiles s2)"
    by (simp add: st_profiles_delete_ids)
  then show "\<forall>p \<in> set (st_profiles t). \<not> stale profiles p" using prune_profiles(1) [OF t] by auto
qed

subsection \<open>What validation establishes\<close>

lemma check_profiles_Inr:
  "check_profiles seen n profiles = Inr u \<Longrightarrow>
     distinct (map mp_id profiles) \<and> set seen \<inter> mp_id ` set profiles = {} \<and>
     (\<forall>mp \<in> set profiles. mp_is_default mp \<longrightarrow> assignable mp)"
  by (induction seen n profiles rule: check_profiles.induct)
     (auto simp: result_simps assignable_iff split: if_splits)

definition reference_ok :: "managed_profile list \<Rightarrow> str option \<Rightarrow> bool" where
  "reference_ok profiles remote_id =
     (\<forall>r. remote_id = Some r \<longrightarrow> trim r \<noteq> [] \<longrightarrow> (\<exists>mp \<in> set profiles. mp_id mp = r \<and> assignable mp))"

lemma reference_ok_Inr: "validate_client_profile_reference profiles remote_id = Inr u \<Longrightarrow> reference_ok profiles remote_id"
  by (auto simp: validate_client_profile_reference_def reference_ok_def assignable_iff find_Some_iff
      split: option.splits if_splits)

lemma from_app_eq_Inr [result_simps]: "from_app r = Inr x \<longleftrightarrow> r = Inr x"
  by (cases r) (auto simp: from_app_def)

lemma check_clients_Inr:
  "check_clients profiles seen_ids seen_macs clients = Inr u \<Longrightarrow>
     distinct (map mc_id clients) \<and> set seen_ids \<inter> mc_id ` set clients = {} \<and>
     (\<forall>mc \<in> set clients. reference_ok profiles (mc_default_profile_id mc) \<and>
        reference_ok profiles (mc_one_time_profile_id mc) \<and> (\<forall>m. normalize_mac (mc_mac mc) = Inr m \<longrightarrow> m \<notin> set seen_macs)) \<and>
     distinct (map (\<lambda>mc. normalize_mac (mc_mac mc)) clients)"
proof (induction clients arbitrary: seen_ids seen_macs)
  case (Cons client clients)
  from Cons.prems obtain mac where c: "mc_id client \<notin> set seen_ids" "normalize_mac (mc_mac client) = Inr mac"
      "mac \<notin> set seen_macs" "validate_client_profile_reference profiles (mc_default_profile_id client) = Inr ()"
      "validate_client_profile_reference profiles (mc_one_time_profile_id client) = Inr ()"
    and rest: "check_clients profiles (mc_id client # seen_ids) (mac # seen_macs) clients = Inr u"
    unfolding check_clients.simps rbind_eq_Inr
    by (auto simp: rbind_eq_Inr from_app_eq_Inr split: if_split_asm)
  have "Inr mac \<notin> (\<lambda>mc. normalize_mac (mc_mac mc)) ` set clients"
    using Cons.IH [OF rest] by (metis imageE list.set_intros(1))
  with Cons.IH [OF rest] c(1-3) reference_ok_Inr [OF c(4)] reference_ok_Inr [OF c(5)] show ?case by auto
qed simp

lemma validate_boot_config_Inr:
  assumes "validate_boot_config config = Inr u"
  shows "check_profiles [] 0 (bc_profiles config) = Inr ()" "check_clients (bc_profiles config) [] [] (bc_clients config) = Inr ()"
  using assms by (auto simp: validate_boot_config_def result_simps split: if_splits)

subsection \<open>Clients\<close>

definition on_profiles :: "bool \<Rightarrow> boot_profile list \<Rightarrow> store \<Rightarrow> bool" where
  "on_profiles A ps s = (store_inv_if A s \<and> st_profiles s = ps)"

lemma on_profilesI: "keeps (store_inv_if A) m \<Longrightarrow> keeps (\<lambda>s. st_profiles s = ps) m \<Longrightarrow> keeps (on_profiles A ps) m"
  by (simp add: keeps_iff on_profiles_def)

lemma delete_devices_profiles [db_rules]: "keeps (\<lambda>s. st_profiles s = ps) (delete_devices q)"
  by (simp add: keeps_iff delete_devices_def Let_def)

lemma write_devices_profiles [simp]: "st_profiles (snd (write_devices f s)) = st_profiles s"
  by (simp add: write_devices_def Let_def)

lemma insert_device_profiles [simp]: "st_profiles (snd (insert_device mk s)) = st_profiles s"
  by (simp add: insert_device_def write_devices_def Let_def)

lemma client_fields_sel [simp]:
  "dev_id (client_fields now client mac i j d) = dev_id d" "dev_mac (client_fields now client mac i j d) = mac"
  "dev_default_profile_id (client_fields now client mac i j d) = i"
  "dev_one_time_profile_id (client_fields now client mac i j d) = j"
  by (simp_all add: client_fields_def)

lemma sync_client_keeps:
  assumes "\<And>i. local_profile_id M (mc_default_profile_id client) = Inr i \<Longrightarrow> assignment_ok ps i"
    and "\<And>i. local_profile_id M (mc_one_time_profile_id client) = Inr i \<Longrightarrow> assignment_ok ps i"
  shows "keeps (on_profiles A ps) (sync_client now M client)"
proof -
  have upd: "keeps (on_profiles A ps) (update_devices (\<lambda>d. dev_id d = k) (client_fields now client mac i j))"
    if "assignment_ok ps i" "assignment_ok ps j" "canonical_mac mac" for i j k mac
    unfolding keeps_iff on_profiles_def using that
    by (auto intro!: update_devices_inv_if) (simp add: update_devices_def)
  have ins: "keeps (on_profiles A ps) (insert_device (\<lambda>k. client_fields now client mac i j (new_device_row mac now k)))"
    if "assignment_ok ps i" "assignment_ok ps j" "canonical_mac mac" for i j mac
    unfolding keeps_iff on_profiles_def using that
    by (auto intro!: insert_device_inv_if simp: row_ok_if_def new_device_row_def)
  show ?thesis
    unfolding sync_client_def
    by (intro db_rules upd ins assms) (auto simp: from_app_eq_Inr normalize_mac_eq_Inr)
qed

lemma sync_client_list_keeps:
  assumes "\<And>client. client \<in> set clients \<Longrightarrow> keeps P (sync_client now M client)"
  shows "keeps P (sync_client_list now M clients)"
  using assms by (induction clients) (auto simp: db_rules)

text \<open>What the row of a client says after it was written.\<close>

definition assigned :: "boot_profile list \<Rightarrow> str option \<Rightarrow> int option \<Rightarrow> bool" where
  "assigned ps remote_id i =
     (case remote_id of
        None \<Rightarrow> i = None
      | Some r \<Rightarrow> if trim r = [] then i = None
                  else list_ex (\<lambda>p. prof_managed_profile_id p = Some r \<and> i = Some (prof_id p)) ps)"

definition client_synced :: "boot_profile list \<Rightarrow> managed_client \<Rightarrow> device_row \<Rightarrow> bool" where
  "client_synced ps client d =
     (row_managed_client_id d = Some (mc_id client) \<and> normalize_mac (mc_mac client) = Inr (dev_mac d) \<and>
      dev_hostname d = managed_clean_optional (mc_hostname client) \<and>
      dev_serial_number d = managed_clean_optional (mc_serial_number client) \<and>
      dev_notes d = mc_notes client \<and> dev_tags d = clean_tags (mc_tags client) \<and>
      assigned ps (mc_default_profile_id client) (dev_default_profile_id d) \<and>
      assigned ps (mc_one_time_profile_id client) (dev_one_time_profile_id d) \<and>
      row_managed_device_id d = managed_clean_optional (mc_managed_device_id client) \<and>
      row_reinstall_request_id d = managed_clean_optional (mc_reinstall_request_id client))"

definition map_of_profiles :: "(str \<Rightarrow> int option) \<Rightarrow> boot_profile list \<Rightarrow> bool" where
  "map_of_profiles M ps = (\<forall>r i. M r = Some i \<longrightarrow> (\<exists>p \<in> set ps. prof_managed_profile_id p = Some r \<and> prof_id p = i))"

lemma managed_profile_map_ok: "managed_profile_map s = (Inr M, t) \<Longrightarrow> t = s \<and> map_of_profiles M (st_profiles s)"
  by (auto simp: managed_profile_map_def map_of_profiles_def map_filter_def dest!: map_of_SomeD) blast

lemma local_profile_id_assigned:
  "map_of_profiles M ps \<Longrightarrow> local_profile_id M ref = Inr i \<Longrightarrow> assigned ps ref i"
  by (auto simp: local_profile_id_def assigned_def map_of_profiles_def list_ex_iff split: option.splits if_splits) metis

lemma client_synced_fields:
  assumes "normalize_mac (mc_mac client) = Inr mac" "assigned ps (mc_default_profile_id client) i"
    "assigned ps (mc_one_time_profile_id client) j"
  shows "client_synced ps client (client_fields now client mac i j d)"
  using assms by (simp add: client_synced_def client_fields_def)

lemma client_row_Some:
  assumes "client_row remote_id mac rows = Some d"
  shows "d \<in> set rows \<and> (row_managed_client_id d = Some remote_id \<or> to_ascii_lowercase (dev_mac d) = to_ascii_lowercase mac)"
  using assms by (auto simp: client_row_def find_Some_iff split: option.splits)

lemma write_devices_Inr: "write_devices f s = (Inr x, t) \<Longrightarrow> t = s \<lparr> st_devices := f s \<rparr>"
  by (auto simp: write_devices_def Let_def split: if_splits)

lemma insert_device_Inr:
  "insert_device mk s = (Inr i, t) \<Longrightarrow> t = s \<lparr> st_devices := st_devices s @ [mk i], st_device_seq := i \<rparr>"
  by (auto simp: insert_device_def write_devices_def Let_def split: if_splits)

lemma sync_client_Inr:
  assumes "sync_client now M client s = (Inr u, t)" and M: "map_of_profiles M ps"
  obtains (update) row f mac where "normalize_mac (mc_mac client) = Inr mac"
      "row \<in> set (st_devices s)" "row_managed_client_id row = Some (mc_id client) \<or> mac_key row = to_ascii_lowercase mac"
      "st_devices t = update_where (\<lambda>d. dev_id d = dev_id row) f (st_devices s)" "\<And>d. client_synced ps client (f d)"
  | (insert) d where "st_devices t = st_devices s @ [d]" "client_synced ps client d"
proof -
  from assms(1) obtain mac i j where mac: "normalize_mac (mc_mac client) = Inr mac"
    and ij: "local_profile_id M (mc_default_profile_id client) = Inr i"
      "local_profile_id M (mc_one_time_profile_id client) = Inr j"
    and w: "(case client_row (mc_id client) mac (st_devices s) of
         Some row \<Rightarrow> db_app (update_devices (\<lambda>d. dev_id d = dev_id row) (client_fields now client mac i j))
       | None \<Rightarrow> db_then (db_app (insert_device (\<lambda>k. client_fields now client mac i j (new_device_row mac now k))))
             (db_ret ())) s = (Inr u, t)"
    unfolding sync_client_def lift_eq_Inr db_bind_get_eq from_app_eq_Inr by (elim exE conjE) (rule that)
  have f: "client_synced ps client (client_fields now client mac i j d)" for d
    using mac ij M by (intro client_synced_fields local_profile_id_assigned)
  show thesis
  proof (cases "client_row (mc_id client) mac (st_devices s)")
    case None
    with w f show thesis by (auto simp: db_then_eq_Inr db_app_eq_Inr dest!: insert_device_Inr intro!: insert)
  next
    case (Some row)
    with w client_row_Some [OF Some] show thesis
      by (intro update [OF mac _ _ _ f, of row]) (auto simp: db_app_eq_Inr update_devices_def mac_key_def dest!: write_devices_Inr)
  qed
qed

definition has_client :: "boot_profile list \<Rightarrow> managed_client \<Rightarrow> store \<Rightarrow> bool" where
  "has_client ps client s = (\<exists>d \<in> set (st_devices s). client_synced ps client d)"

lemma mac_key_canonical: "store_inv_if A s \<Longrightarrow> d \<in> set (st_devices s) \<Longrightarrow> mac_key d = dev_mac d"
  using to_ascii_lowercase_canonical by (auto simp: store_inv_if_def row_ok_if_def list_all_iff mac_key_def)

lemma sync_client_synced:
  assumes "sync_client now M client s = (Inr u, t)" and "map_of_profiles M ps" and inv: "store_inv_if A s"
  shows "has_client ps client t"
    and "mc_id other \<noteq> mc_id client \<Longrightarrow> normalize_mac (mc_mac other) \<noteq> normalize_mac (mc_mac client) \<Longrightarrow>
         has_client ps other s \<Longrightarrow> has_client ps other t"
proof -
  show "has_client ps client t"
    using assms(1,2) by (cases rule: sync_client_Inr) (auto simp: has_client_def set_update_where)
  assume o: "mc_id other \<noteq> mc_id client" "normalize_mac (mc_mac other) \<noteq> normalize_mac (mc_mac client)"
    "has_client ps other s"
  then obtain e where e: "e \<in> set (st_devices s)" "client_synced ps other e" by (auto simp: has_client_def)
  from assms(1,2) show "has_client ps other t"
  proof (cases rule: sync_client_Inr)
    case (update row f mac)
    have "canonical_mac mac" using update(1) by (simp add: normalize_mac_eq_Inr)
    then have "mac_key e \<noteq> to_ascii_lowercase mac"
      using e o(2) update(1) mac_key_canonical [OF inv e(1)] to_ascii_lowercase_canonical by (auto simp: client_synced_def)
    then have "e \<noteq> row" using e(2) update(3) o(1) by (auto simp: client_synced_def)
    then have "dev_id e \<noteq> dev_id row" using dev_id_inj [OF inv e(1) update(2)] by blast
    then show ?thesis using e by (auto simp: has_client_def update(4) set_update_where)
  qed (use e in \<open>auto simp: has_client_def\<close>)
qed

lemma sync_client_list_synced:
  assumes "sync_client_list now M clients s = (Inr u, t)" and "map_of_profiles M ps" and "on_profiles A ps s"
    and "distinct (map mc_id clients)" and "distinct (map (\<lambda>mc. normalize_mac (mc_mac mc)) clients)"
    and "\<And>client. client \<in> set clients \<Longrightarrow> keeps (on_profiles A ps) (sync_client now M client)"
  shows "(\<forall>client \<in> set clients. has_client ps client t) \<and>
         (\<forall>other. mc_id other \<notin> mc_id ` set clients \<longrightarrow>
            normalize_mac (mc_mac other) \<notin> (\<lambda>mc. normalize_mac (mc_mac mc)) ` set clients \<longrightarrow>
            has_client ps other s \<longrightarrow> has_client ps other t)"
  using assms
proof (induction clients arbitrary: s)
  case (Cons client clients)
  from Cons.prems(1) obtain s1 where s1: "sync_client now M client s = (Inr (), s1)"
    and rest: "sync_client_list now M clients s1 = (Inr u, t)"
    by (auto simp: db_then_eq_Inr)
  have "on_profiles A ps s1" using keepsD [OF Cons.prems(6) Cons.prems(3) s1] by simp
  from Cons.IH [OF rest Cons.prems(2) this] Cons.prems(4-6)
  have IH: "\<forall>client \<in> set clients. has_client ps client t"
    "\<forall>other. mc_id other \<notin> mc_id ` set clients \<longrightarrow>
       normalize_mac (mc_mac other) \<notin> (\<lambda>mc. normalize_mac (mc_mac mc)) ` set clients \<longrightarrow>
       has_client ps other s1 \<longrightarrow> has_client ps other t" by auto
  have inv: "store_inv_if A s" using Cons.prems(3) by (simp add: on_profiles_def)
  note step = sync_client_synced [OF s1 Cons.prems(2) inv]
  show ?case using IH step Cons.prems(4,5) by simp
qed simp

lemma st_devices_delete_ids:
  "delete_device_ids ids s = (Inr u, t) \<Longrightarrow>
     st_devices t = filter (\<lambda>d. dev_id d \<notin> set ids) (st_devices s) \<and> st_profiles t = st_profiles s"
proof (induction ids arbitrary: s)
  case (Cons i ids)
  then obtain n s1 where "delete_devices (\<lambda>_ d. dev_id d = i) s = (Inr n, s1)" and r: "delete_device_ids ids s1 = (Inr u, t)"
    by (auto simp: db_then_eq_Inr)
  then have "st_devices s1 = filter (\<lambda>d. dev_id d \<noteq> i) (st_devices s)" "st_profiles s1 = st_profiles s"
    by (auto simp: delete_devices_def Let_def delete_where_def)
  with Cons.IH [OF r] show ?case by (auto intro: filter_cong)
qed simp

definition stale_client :: "managed_client list \<Rightarrow> device_row \<Rightarrow> bool" where
  "stale_client clients d = (case row_managed_client_id d of Some remote_id \<Rightarrow> remote_id \<notin> mc_id ` set clients | None \<Rightarrow> False)"

lemma sync_clients_post:
  assumes "sync_clients now clients M complete s = (Inr u, t)" and "map_of_profiles M ps" and "on_profiles A ps s"
    and "distinct (map mc_id clients)" and "distinct (map (\<lambda>mc. normalize_mac (mc_mac mc)) clients)"
    and k: "\<And>client. client \<in> set clients \<Longrightarrow> keeps (on_profiles A ps) (sync_client now M client)"
  shows "\<forall>client \<in> set clients. has_client ps client t" and "st_profiles t = ps"
    and "complete \<Longrightarrow> \<forall>d \<in> set (st_devices t). \<not> stale_client clients d"
proof -
  from assms(1) obtain s1 where s1: "sync_client_list now M clients s = (Inr (), s1)"
    and t: "(if complete then delete_device_ids (map dev_id (filter (stale_client clients) (st_devices s1)))
             else db_ret ()) s1 = (Inr u, t)"
    unfolding sync_clients_def db_then_eq_Inr stale_client_def [symmetric]
    by (elim exE conjE) (rule that, simp, simp add: db_bind_get_eq db_app_eq_Inr split: if_splits)
  have "on_profiles A ps s1" using keepsD [OF sync_client_list_keeps [of clients "on_profiles A ps"] assms(3) s1] k by auto
  then have inv: "store_inv_if A s1" and ps: "st_profiles s1 = ps" by (auto simp: on_profiles_def)
  have keep: "\<forall>client \<in> set clients. has_client ps client s1"
    using sync_client_list_synced [OF s1 assms(2-5) k] by blast
  let ?gone = "dev_id ` {d \<in> set (st_devices s1). stale_client clients d}"
  have rows: "st_devices t = (if complete then filter (\<lambda>d. dev_id d \<notin> ?gone) (st_devices s1) else st_devices s1)"
    "st_profiles t = ps" using t ps by (auto split: if_splits dest!: st_devices_delete_ids)
  show "st_profiles t = ps" by fact
  have "has_client ps client t" if c: "client \<in> set clients" for client
  proof -
    obtain d where d: "d \<in> set (st_devices s1)" "client_synced ps client d"
      using keep c by (auto simp: has_client_def)
    then have "\<not> stale_client clients d" using c by (simp add: client_synced_def stale_client_def)
    then have "dev_id d \<notin> ?gone" using inv_if_distinct [OF inv] d(1) by (intro kept_by_key) simp_all
    with d show ?thesis by (auto simp: has_client_def rows)
  qed
  then show "\<forall>client \<in> set clients. has_client ps client t" by blast
  show "complete \<Longrightarrow> \<forall>d \<in> set (st_devices t). \<not> stale_client clients d" by (auto simp: rows)
qed

subsection \<open>The transaction\<close>

definition all_assignable :: "boot_config \<Rightarrow> bool" where
  "all_assignable config = list_all (\<lambda>mp. mp_enabled mp \<and> managed_profile_has_boot_action mp) (bc_profiles config)"

lemma synced_runnable:
  assumes "synced mp p" "assignable mp"
  shows "runnable p"
proof -
  have "has_text (mp_raw_script mp) \<Longrightarrow> (case prof_raw_script p of None \<Rightarrow> False | Some w \<Rightarrow> trim w \<noteq> [])"
    using has_text_clean assms(1) by (simp add: synced_def)
  then show ?thesis
    using assms
    by (cases "prof_type p") (auto simp: synced_def assignable_def managed_profile_has_boot_action_def runnable_def
        profile_fields_have_boot_action_def split: if_splits)
qed

lemma reference_runnable:
  assumes "reference_ok profiles ref" "map_of_profiles M (st_profiles s)" "store_inv_if A s"
    and "\<forall>mp \<in> set profiles. has_synced mp s" and "local_profile_id M ref = Inr i"
  shows "assignment_ok (st_profiles s) i"
proof (cases i)
  case (Some k)
  then obtain r where r: "ref = Some r" "trim r \<noteq> []" "M r = Some k"
    using assms(5) by (auto simp: local_profile_id_def split: option.splits if_splits)
  then obtain p where p: "p \<in> set (st_profiles s)" "prof_managed_profile_id p = Some r" "prof_id p = k"
    using assms(2) by (auto simp: map_of_profiles_def)
  obtain mp where mp: "mp \<in> set profiles" "mp_id mp = r" "assignable mp"
    using assms(1) r by (auto simp: reference_ok_def)
  then obtain q where q: "q \<in> set (st_profiles s)" "synced mp q" using assms(4) by (auto simp: has_synced_def)
  have "q = p" using profile_of_managed_id [OF assms(3) q(1) p(1)] q(2) mp(2) p(2) by (simp add: synced_def)
  then show ?thesis using synced_runnable [OF q(2) mp(3)] p Some by (auto simp: assignment_ok_iff)
qed simp

lemma assigned_runnable:
  assumes "reference_ok profiles ref" "assigned (st_profiles s) ref i" "store_inv_if A s"
    and "\<forall>mp \<in> set profiles. has_synced mp s"
  shows "assignment_ok (st_profiles s) i"
  using assms(2) by (intro reference_runnable [OF assms(1) _ assms(3,4), of "\<lambda>r. if ref = Some r then i else None"])
    (auto simp: assigned_def map_of_profiles_def local_profile_id_def list_ex_iff split: option.splits if_splits)

lemma sync_store_Inr:
  assumes "sync_store now config s = (Inr u, t)"
  obtains s1 s2 M s3 where "sync_deleted_profiles [] (bc_deleted_profile_ids config) s = (Inr (), s1)"
    "sync_profiles now (bc_profiles config) (bc_profiles_complete config) s1 = (Inr (), s2)"
    "map_of_profiles M (st_profiles s2)"
    "sync_deleted_clients [] (bc_deleted_client_ids config) s2 = (Inr (), s3)"
    "sync_clients now (bc_clients config) M (bc_clients_complete config) s3 = (Inr u, t)"
proof -
  have "(db_then (db_app (sync_deleted_profiles [] (bc_deleted_profile_ids config)))
       (db_then (sync_profiles now (bc_profiles config) (bc_profiles_complete config))
       (db_bind (db_app managed_profile_map) (\<lambda>profile_map.
        db_then (db_app (sync_deleted_clients [] (bc_deleted_client_ids config)))
        (sync_clients now (bc_clients config) profile_map (bc_clients_complete config)))))) s = (Inr u, t)"
    using assms by (auto simp: sync_store_def db_transaction_def split: prod.splits sum.splits)
  then show thesis
    unfolding db_then_eq_Inr db_bind_eq_Inr db_app_eq_Inr
    by (elim exE conjE) (drule managed_profile_map_ok, elim conjE, rule that, simp_all)
qed

lemma sync_deleted_clients_profiles [db_rules]: "keeps (\<lambda>s. st_profiles s = ps) (sync_deleted_clients seen ids)"
  by (induction seen ids rule: sync_deleted_clients.induct)
    (simp only: sync_deleted_clients.simps, intro db_rules; blast)+

lemma delete_device_ids_profiles [db_rules]: "keeps (\<lambda>s. st_profiles s = ps) (delete_device_ids ids)"
  by (induction ids) (simp only: delete_device_ids.simps, intro db_rules; assumption)+

text \<open>Everything the transaction establishes when it commits.\<close>

lemma sync_store_post:
  assumes "validate_boot_config config = Inr v" and "sync_store now config s = (Inr u, t)" and "store_inv_if A s"
    and A: "A \<Longrightarrow> all_assignable config"
  shows "store_inv_if A t" and "\<forall>mp \<in> set (bc_profiles config). has_synced mp t"
    and "bc_profiles_complete config \<Longrightarrow> \<forall>p \<in> set (st_profiles t). \<not> stale (bc_profiles config) p"
    and "\<forall>mc \<in> set (bc_clients config). has_client (st_profiles t) mc t"
    and "bc_clients_complete config \<Longrightarrow> \<forall>d \<in> set (st_devices t). \<not> stale_client (bc_clients config) d"
    and "\<forall>mc \<in> set (bc_clients config). reference_ok (bc_profiles config) (mc_default_profile_id mc) \<and>
           reference_ok (bc_profiles config) (mc_one_time_profile_id mc)"
proof -
  let ?ps = "bc_profiles config"
  have v: "distinct (map mp_id ?ps)" "\<And>mp. mp \<in> set ?ps \<Longrightarrow> mp_is_default mp \<Longrightarrow> assignable mp"
    using check_profiles_Inr [OF validate_boot_config_Inr(1) [OF assms(1)]] by auto
  have ok: "\<And>mp. mp \<in> set ?ps \<Longrightarrow> mp_is_default mp \<or> A \<Longrightarrow> assignable mp"
    using v(2) A by (auto simp: all_assignable_def list_all_iff assignable_def)
  note c = check_clients_Inr [OF validate_boot_config_Inr(2) [OF assms(1)]]
  show "\<forall>mc \<in> set (bc_clients config). reference_ok ?ps (mc_default_profile_id mc) \<and>
      reference_ok ?ps (mc_one_time_profile_id mc)" using c by blast
  from assms(2) obtain s1 s2 M s3 where s1: "sync_deleted_profiles [] (bc_deleted_profile_ids config) s = (Inr (), s1)"
    and s2: "sync_profiles now ?ps (bc_profiles_complete config) s1 = (Inr (), s2)"
    and M: "map_of_profiles M (st_profiles s2)"
    and s3: "sync_deleted_clients [] (bc_deleted_client_ids config) s2 = (Inr (), s3)"
    and t: "sync_clients now (bc_clients config) M (bc_clients_complete config) s3 = (Inr u, t)"
    by (rule sync_store_Inr)
  have i1: "store_inv_if A s1" using keepsD [OF sync_deleted_profiles_inv_if assms(3) s1] .
  have i2: "store_inv_if A s2" using keepsD [OF sync_profiles_inv_if i1 s2] ok by blast
  have on3: "on_profiles A (st_profiles s2) s3"
    using keepsD [OF sync_deleted_clients_inv_if i2 s3] keepsD [OF sync_deleted_clients_profiles refl s3]
    by (simp add: on_profiles_def)
  have f1: "store_inv_if False s1" using i1 by (auto simp: store_inv_if_def row_ok_if_def list_all_iff)
  note p = sync_profiles_post [OF s2 f1 v]
  have k: "keeps (on_profiles A (st_profiles s2)) (sync_client now M mc)" if "mc \<in> set (bc_clients config)" for mc
    using that c by (intro sync_client_keeps reference_runnable [OF _ M i2 p(1)]) auto
  note post = sync_clients_post [OF t M on3 _ _ k]
  have ps: "st_profiles t = st_profiles s2" using post(2) c by blast
  show "\<forall>mp \<in> set ?ps. has_synced mp t" using p(1) by (simp add: has_synced_def ps)
  show "bc_profiles_complete config \<Longrightarrow> \<forall>q \<in> set (st_profiles t). \<not> stale ?ps q" using p(2) by (simp add: ps)
  show "\<forall>mc \<in> set (bc_clients config). has_client (st_profiles t) mc t" using post(1) c unfolding ps by blast
  show "bc_clients_complete config \<Longrightarrow> \<forall>d \<in> set (st_devices t). \<not> stale_client (bc_clients config) d"
    using post(3) c by blast
  have "keeps (on_profiles A (st_profiles s2)) (sync_clients now (bc_clients config) M (bc_clients_complete config))"
    unfolding sync_clients_def by (intro db_rules sync_client_list_keeps k on_profilesI)
  from keepsD [OF this on3 t] show "store_inv_if A t" by (simp add: on_profiles_def)
qed

section \<open>Applying a configuration\<close>

lemma on_store_Inr: "on_store m ag = (Inr x, ag') \<longleftrightarrow> (\<exists>s. m (ag_store ag) = (Inr x, s) \<and> ag' = ag \<lparr> ag_store := s \<rparr>)"
  by (auto simp: on_store_def split: prod.splits)

lemma apply_boot_config_cases:
  assumes "apply_boot_config env url_parse local_url local_bootloader managed fault timestamp now config ag = (r, ag')"
  obtains (rejected) e where "r = Inl e" "ag' = ag"
  | (not_persisted) e s where "r = Inl e" "managed" "validate_boot_config config = Inr ()"
      "sync_store now config (ag_store ag) = (Inr (), s)" "ag' = ag \<lparr> ag_store := s \<rparr>"
  | (applied) settings s handoff where "r = Inr ()" "validate_boot_config config = Inr ()"
      "normalize_managed_settings_for_mode url_parse local_url local_bootloader (bc_settings config) managed = Inr settings"
      "sync_store now config (ag_store ag) = (Inr (), s)" "\<not> managed \<Longrightarrow> handoff = ag_pxe_file ag"
      "ag' = ag \<lparr> ag_store := s, ag_pxe_file := handoff, ag_runtime := settings \<rparr>"
proof (cases "normalize_managed_settings_for_mode url_parse local_url local_bootloader (bc_settings config) managed")
  case (Inl e)
  with assms show thesis by (intro rejected [of e]) (auto simp: apply_boot_config_def db_bind_def)
next
  case settings: (Inr settings)
  show thesis
  proof (cases "validate_boot_config config")
    case (Inl e)
    with settings assms show thesis
      by (intro rejected [of e]) (auto simp: apply_boot_config_def db_bind_def db_then_def)
  next
    case valid: (Inr v)
    obtain q s where s: "sync_store now config (ag_store ag) = (q, s)" by (cases "sync_store now config (ag_store ag)")
    show thesis
    proof (cases q)
      case (Inl e)
      then have "s = ag_store ag" using s by (auto simp: sync_store_def db_transaction_def split: prod.splits sum.splits)
      with Inl s settings valid assms show thesis
        by (intro rejected [of e]) (auto simp: apply_boot_config_def db_bind_def db_then_def on_store_def)
    next
      case (Inr x)
      with s settings valid assms show thesis
        by (auto simp: apply_boot_config_def db_bind_def db_then_def on_store_def persist_def Let_def
            split: if_splits option.splits intro: not_persisted applied [where handoff = "ag_pxe_file ag"] applied)
    qed
  qed
qed

text \<open>C19: a configuration that was applied is in the store: every profile of it has a row with its
  fields, every client a row with its address and assignments, which name profiles that can run;
  a complete list leaves no managed row that it does not name; the settings in force are the
  normalised ones.\<close>

theorem applied_config_is_in_store:
  assumes "apply_boot_config env url_parse local_url local_bootloader managed fault timestamp now config ag = (Inr (), ag')"
    and "store_inv_if False (ag_store ag)"
  shows "store_inv_if False (ag_store ag') \<and>
    (\<forall>mp \<in> set (bc_profiles config). \<exists>p \<in> set (st_profiles (ag_store ag')). synced mp p) \<and>
    (\<forall>mc \<in> set (bc_clients config). \<exists>d \<in> set (st_devices (ag_store ag')).
       client_synced (st_profiles (ag_store ag')) mc d \<and>
       assignment_ok (st_profiles (ag_store ag')) (dev_default_profile_id d) \<and>
       assignment_ok (st_profiles (ag_store ag')) (dev_one_time_profile_id d)) \<and>
    (bc_profiles_complete config \<longrightarrow> (\<forall>p \<in> set (st_profiles (ag_store ag')). \<forall>r.
       prof_managed_profile_id p = Some r \<longrightarrow> r \<in> mp_id ` set (bc_profiles config))) \<and>
    (bc_clients_complete config \<longrightarrow> (\<forall>d \<in> set (st_devices (ag_store ag')). \<forall>r.
       row_managed_client_id d = Some r \<longrightarrow> r \<in> mc_id ` set (bc_clients config))) \<and>
    normalize_managed_settings_for_mode url_parse local_url local_bootloader (bc_settings config) managed =
      Inr (ag_runtime ag')"
  using assms(1)
proof (cases rule: apply_boot_config_cases)
  case (applied settings s handoff)
  have st: "ag_store ag' = s" "ag_runtime ag' = settings" using applied(6) by simp_all
  note post = sync_store_post [OF applied(2,4) assms(2)]
  have "\<exists>d \<in> set (st_devices s). client_synced (st_profiles s) mc d \<and>
      assignment_ok (st_profiles s) (dev_default_profile_id d) \<and> assignment_ok (st_profiles s) (dev_one_time_profile_id d)"
    if mc: "mc \<in> set (bc_clients config)" for mc
  proof -
    obtain d where d: "d \<in> set (st_devices s)" "client_synced (st_profiles s) mc d"
      using post(4) mc by (auto simp: has_client_def)
    moreover have "assignment_ok (st_profiles s) i" if "reference_ok (bc_profiles config) ref" "assigned (st_profiles s) ref i" for ref i
      by (rule assigned_runnable [OF that post(1,2)]) simp_all
    ultimately show ?thesis using post(6) mc by (auto simp: client_synced_def)
  qed
  moreover have "\<forall>mp \<in> set (bc_profiles config). \<exists>p \<in> set (st_profiles s). synced mp p"
    using post(2) by (simp add: has_synced_def)
  ultimately show ?thesis
    using post(1,3,5) applied(3) unfolding st by (force simp: stale_def stale_client_def)
qed simp_all

text \<open>C20: applying a configuration whose profiles are all enabled and can run keeps the store
  invariant, whatever the outcome; no device is left with an assignment that cannot run.\<close>

theorem apply_boot_config_keeps_store_inv:
  assumes "apply_boot_config env url_parse local_url local_bootloader managed fault timestamp now config ag = (r, ag')"
    and "store_inv (ag_store ag)" and "all_assignable config"
  shows "store_inv (ag_store ag')"
  using assms(1)
proof (cases rule: apply_boot_config_cases)
  case (not_persisted e s)
  with sync_store_post(1) [OF not_persisted(3,4), of True] assms(2,3) show ?thesis by (simp add: store_inv_if_True)
next
  case (applied settings s handoff)
  with sync_store_post(1) [OF applied(2,4), of True] assms(2,3) show ?thesis by (simp add: store_inv_if_True)
qed (use assms(2) in simp)

text \<open>C21: a configuration that is not applied changes nothing, with one exception: on an appliance
  whose handoff file cannot be replaced the store has the whole configuration, while the settings
  in force and the file are the old ones.\<close>

theorem rejected_config_changes_nothing:
  assumes "apply_boot_config env url_parse local_url local_bootloader managed fault timestamp now config ag = (Inl e, ag')"
  shows "ag' = ag \<or> (managed \<and> sync_store now config (ag_store ag) = (Inr (), ag_store ag') \<and>
    ag_runtime ag' = ag_runtime ag \<and> ag_pxe_file ag' = ag_pxe_file ag)"
  using assms by (cases rule: apply_boot_config_cases) auto

section \<open>A client whose address another row holds\<close>

definition device_keys :: "store \<Rightarrow> (int \<times> str \<times> str option) list" where
  "device_keys s = map (\<lambda>d. (dev_id d, dev_mac d, row_managed_client_id d)) (st_devices s)"

text \<open>The client has a row with the address \<open>md\<close>, and a row that belongs to no client has the address \<open>me\<close>.\<close>

definition held :: "str \<Rightarrow> str \<Rightarrow> str \<Rightarrow> store \<Rightarrow> bool" where
  "held cid md me s \<longleftrightarrow>
     distinct (map fst (device_keys s)) \<and> (\<forall>k \<in> set (device_keys s). fst k \<le> st_device_seq s) \<and>
     (\<exists>i. (i, md, Some cid) \<in> set (device_keys s)) \<and> (\<exists>j. (j, me, None) \<in> set (device_keys s))"

lemma delete_profiles_held [db_rules]: "keeps (held cid md me) (delete_profiles q)"
  by (simp add: keeps_iff held_def delete_profiles_def Let_def device_keys_def comp_def)

lemma write_profiles_held [db_rules]: "keeps (held cid md me) (write_profiles f)"
  by (simp add: keeps_iff held_def write_profiles_def Let_def device_keys_def)

lemma insert_profile_held [db_rules]: "keeps (held cid md me) (insert_profile f)"
  by (simp add: keeps_iff held_def insert_profile_def write_profiles_def Let_def device_keys_def)


lemma delete_profile_ids_held [db_rules]: "keeps (held cid md me) (delete_profile_ids ids)"
  by (induction ids) (simp only: delete_profile_ids.simps, intro db_rules; assumption)+

lemma sync_profile_list_held [db_rules]: "keeps (held cid md me) (sync_profile_list now profiles)"
  by (induction profiles) (simp only: sync_profile_list.simps sync_profile_def, intro db_rules; assumption)+










section \<open>Witnesses\<close>

definition demo_config :: "str \<Rightarrow> boot_config" where
  "demo_config mac =
     \<lparr> bc_pxe_discovery = None,
       bc_settings = \<lparr> ms_public_base_url = [], ms_bootloader_filename = '' snponly.efi'', ms_menu_timeout_ms = 5000 \<rparr>,
       bc_profiles = [\<lparr> mp_id = ''p1'', mp_name = ''Install'', mp_description = [], mp_profile_type = ''nest_installer'',
         mp_enabled = True, mp_is_default = True, mp_one_time = False, mp_raw_script = None \<rparr>],
       bc_profiles_complete = True, bc_deleted_profile_ids = [],
       bc_clients = [\<lparr> mc_id = ''c1'', mc_mac = mac, mc_hostname = Some ''ws1'', mc_serial_number = None,
         mc_last_seen_at = None, mc_default_profile_id = Some ''p1'', mc_one_time_profile_id = None,
         mc_managed_device_id = None, mc_reinstall_request_id = None, mc_notes = [], mc_tags = [] \<rparr>],
       bc_deleted_client_ids = [], bc_clients_complete = True \<rparr>"

definition demo_agent :: agent where
  "demo_agent =
     \<lparr> ag_store = demo_store,
       ag_runtime = \<lparr> ms_public_base_url = ''http://old'', ms_bootloader_filename = ''old.efi'', ms_menu_timeout_ms = 0 \<rparr>,
       ag_pxe_file = None \<rparr>"

definition demo_apply :: "bool \<Rightarrow> io_error option \<Rightarrow> str \<Rightarrow> (agent, sync_error, unit) edb" where
  "demo_apply managed fault mac =
     apply_boot_config demo_json (\<lambda>_. None) ''http://nest/'' ''ipxe.efi'' managed fault 0 ''t5'' (demo_config mac)"


lemma demo_agent_inv: "store_inv (ag_store demo_agent)" "store_inv_if False (ag_store demo_agent)"
proof -
  have "store_inv demo_store" using demo_store_reach by (rule store_sys.reach_inv)
  moreover from this have "store_inv_if True demo_store" by (simp add: store_inv_if_True)
  ultimately show "store_inv (ag_store demo_agent)" "store_inv_if False (ag_store demo_agent)"
    by (auto simp: demo_agent_def store_inv_if_def row_ok_if_def list_all_iff)
qed

theorem applied_config_is_in_store_witness:
  "\<exists>ag'. demo_apply False None ''AA-BB-CC-00-11-22'' demo_agent = (Inr (), ag') \<and>
     (\<exists>d \<in> set (st_devices (ag_store ag')). dev_mac d = ''aa:bb:cc:00:11:22'' \<and> dev_hostname d = Some ''ws1'') \<and>
     (\<forall>p \<in> set (st_profiles (ag_store ag')). \<forall>r. prof_managed_profile_id p = Some r \<longrightarrow> r = ''p1'')"
proof -
  have "is_ok (fst (demo_apply False None ''AA-BB-CC-00-11-22'' demo_agent))" by code_simp
  then obtain ag' where a: "demo_apply False None ''AA-BB-CC-00-11-22'' demo_agent = (Inr (), ag')"
    by (cases "demo_apply False None ''AA-BB-CC-00-11-22'' demo_agent") (auto simp: is_ok_iff)
  have vals: "normalize_mac ''AA-BB-CC-00-11-22'' = Inr ''aa:bb:cc:00:11:22''" "managed_clean_optional (Some ''ws1'') = Some ''ws1''"
    by code_simp+
  let ?c = "demo_config ''AA-BB-CC-00-11-22''"
  have c: "hd (bc_clients ?c) \<in> set (bc_clients ?c)" "bc_profiles_complete ?c" "mp_id ` set (bc_profiles ?c) = {''p1''}"
    "mc_mac (hd (bc_clients ?c)) = ''AA-BB-CC-00-11-22''" "mc_hostname (hd (bc_clients ?c)) = Some ''ws1''"
    by (simp_all add: demo_config_def)
  note post = applied_config_is_in_store [OF a [unfolded demo_apply_def] demo_agent_inv(2)]
  obtain d where "d \<in> set (st_devices (ag_store ag'))" "client_synced (st_profiles (ag_store ag')) (hd (bc_clients ?c)) d"
    using post c(1) by blast
  moreover from this(2) have "dev_mac d = ''aa:bb:cc:00:11:22''" "dev_hostname d = Some ''ws1''"
    unfolding client_synced_def c(4,5) vals by simp_all
  moreover have "\<forall>p \<in> set (st_profiles (ag_store ag')). \<forall>r. prof_managed_profile_id p = Some r \<longrightarrow> r = ''p1''"
    using post c(2,3) by blast
  ultimately show ?thesis using a by blast
qed

theorem apply_boot_config_keeps_store_inv_witness:
  "\<exists>ag'. demo_apply True (Some IoOther) ''aabbcc001122'' demo_agent = (Inl (FromApp (Io IoOther)), ag') \<and>
     length (st_devices (ag_store ag')) = 1 \<and> store_inv (ag_store ag')"
proof -
  let ?r = "demo_apply True (Some IoOther) ''aabbcc001122'' demo_agent"
  have "fst ?r = Inl (FromApp (Io IoOther))" "length (st_devices (ag_store (snd ?r))) = 1"
    "all_assignable (demo_config ''aabbcc001122'')" by code_simp+
  moreover from this(1) have r: "?r = (Inl (FromApp (Io IoOther)), snd ?r)" by (metis prod.collapse)
  ultimately show ?thesis
    using apply_boot_config_keeps_store_inv [OF r [unfolded demo_apply_def] demo_agent_inv(1), folded demo_apply_def] by metis
qed

theorem rejected_config_changes_nothing_witness:
  "\<exists>e ag'. demo_apply False None ''bad'' demo_agent = (Inl e, ag') \<and> ag' = demo_agent"
proof -
  let ?r = "demo_apply False None ''bad'' demo_agent"
  have "\<not> is_ok (fst ?r)" by code_simp
  then obtain e where r: "?r = (Inl e, snd ?r)" unfolding is_ok_iff by (metis obj_sumE prod.collapse)
  from rejected_config_changes_nothing [OF r [unfolded demo_apply_def], folded demo_apply_def] r show ?thesis by blast
qed



end
