(* ===== verification/Nest_Request.thy ===== *)
theory Nest_Request
  imports Nest_Sync Nest_Redact
begin

text \<open>
  Requests to the managing service (\<^verbatim>\<open>src/src/manage.rs\<close>): the identity of the appliance, the
  signed request with the payload its signature covers, the bounded reading of an answer, the
  protocol versions both sides accept and the pauses between synchronisations.
  Base64, SHA-256, the signature scheme, the URL parser, the clock and the random request number are
  parameters. Building the HTTP client succeeds.
\<close>

section \<open>Identity\<close>

record managed_state =
  mg_private_key_b64 :: "str option"
  mg_public_key_b64 :: "str option"
  mg_public_key_fingerprint :: "str option"
  mg_device_id :: "str option"
  mg_last_reported_event_id :: "int option"
  mg_active_report_cursor :: "int option"
  mg_terminal_report_cursor :: "int option"
  mg_rejection_report_cursor :: "int option"
  mg_cache_artifact_report_cursor :: "int option"
  mg_cache_report_instance_id :: "str option"
  mg_cache_report_generation :: "int option"
  mg_report_rotation_round :: u8
  mg_report_warning_fingerprint :: "str option"

definition is_safe_path_segment :: "str \<Rightarrow> bool" where
  "is_safe_path_segment value =
     (value \<noteq> [] \<and> length value \<le> 128 \<and>
      list_all (\<lambda>byte. is_ascii_alphanumeric byte \<or> byte \<in> set ''_-.'') value \<and> \<not> contains value ''..'')"

definition managed_device_id :: "managed_state \<Rightarrow> str sync_result" where
  "managed_device_id managed =
     (case mg_device_id managed of
        Some value \<Rightarrow> (if is_safe_path_segment value then Inr value else Inl (Bail ''missing managed device id''))
      | None \<Rightarrow> Inl (Bail ''missing managed device id''))"

definition with_context :: "str \<Rightarrow> 'a sync_result \<Rightarrow> 'a sync_result" where
  "with_context ctx r = map_sum (Context ctx) id r"

text \<open>\<open>b64_decode\<close> decodes the standard alphabet; a key is its 32 bytes.\<close>

definition signing_key_from_b64 :: "(str \<Rightarrow> str option) \<Rightarrow> str \<Rightarrow> str sync_result" where
  "signing_key_from_b64 b64_decode value =
     (case b64_decode value of
        None \<Rightarrow> Inl (Bail ''managed private key is not valid base64'')
      | Some bytes \<Rightarrow> (if length bytes = 32 then Inr bytes else Inl (Bail ''managed private key has invalid length'')))"

definition signing_key :: "(str \<Rightarrow> str option) \<Rightarrow> managed_state \<Rightarrow> str sync_result" where
  "signing_key b64_decode managed =
     (case mg_private_key_b64 managed of
        None \<Rightarrow> Inl (Bail ''missing private key'')
      | Some private_key \<Rightarrow> signing_key_from_b64 b64_decode private_key)"

definition require_activated_identity :: "(str \<Rightarrow> str option) \<Rightarrow> managed_state \<Rightarrow> unit sync_result" where
  "require_activated_identity b64_decode managed =
     rbind (with_context ''Nest has no V2-activated appliance identity; reinstall from personalized media''
              (managed_device_id managed)) (\<lambda>_.
     rbind (with_context ''Nest V2 appliance signing identity is incomplete'' (signing_key b64_decode managed)) (\<lambda>_.
     Inr ()))"

section \<open>Signed requests\<close>

record manage_config =
  mc_enabled :: bool
  mc_api_url :: str
  mc_organization_id :: str
  mc_organization_slug :: str
  mc_sync_interval_seconds :: u64
  mc_http_timeout_seconds :: u64

datatype http_method = GET | POST

fun method_as_str :: "http_method \<Rightarrow> str" where
  "method_as_str GET = ''GET''"
| "method_as_str POST = ''POST''"

text \<open>The upper-case form of a method is the method itself.\<close>

definition canonical_agent_payload :: "str \<Rightarrow> str \<Rightarrow> str \<Rightarrow> str \<Rightarrow> str \<Rightarrow> str" where
  "canonical_agent_payload method path_and_query timestamp request_id body_sha256 =
     ''TIARIS-AGENT-V1'' @ newline @ method @ newline @ path_and_query @ newline @ timestamp @ newline @
     request_id @ newline @ body_sha256"

definition api_url_for_config :: "manage_config \<Rightarrow> str \<Rightarrow> str sync_result" where
  "api_url_for_config config path =
     (let base = trim_end_matches CHR ''/'' (trim (mc_api_url config))
      in if base = [] then Inl (Bail ''manage.api_url is required when managed mode is enabled'')
         else Inr (base @ path))"

record request_url = parsed_url +
  url_path :: str

definition request_path_and_query :: "(str \<Rightarrow> request_url option) \<Rightarrow> str \<Rightarrow> str sync_result" where
  "request_path_and_query url_parse endpoint =
     (case url_parse endpoint of
        None \<Rightarrow> Inl (Bail ''parse managed request URL'')
      | Some endpoint \<Rightarrow>
          (if url_fragment endpoint \<noteq> None then Inl (Bail ''manage.api_url must not contain a URL fragment'')
           else Inr (url_path endpoint @ (case url_query endpoint of Some query \<Rightarrow> ''?'' @ query | None \<Rightarrow> []))))"

definition organization_header :: "manage_config \<Rightarrow> str sync_result" where
  "organization_header config =
     (if trim (mc_organization_id config) \<noteq> [] then Inr (trim (mc_organization_id config))
      else let slug = trim (mc_organization_slug config)
           in if slug \<noteq> [] then Inr slug
              else Inl (Bail ''manage.organization_id is required when managed mode is enabled''))"

definition clamp_u64 :: "u64 \<Rightarrow> u64 \<Rightarrow> u64 \<Rightarrow> u64" where
  "clamp_u64 value low high = (if value < low then low else if high < value then high else value)"

definition bounded_http_timeout_seconds :: "u64 \<Rightarrow> u64" where
  "bounded_http_timeout_seconds value = clamp_u64 value 1 300"

record http_client =
  hc_timeout :: u64
  hc_connect_timeout :: u64
  hc_follows_redirects :: bool

definition http_client_for_config :: "manage_config \<Rightarrow> http_client" where
  "http_client_for_config config =
     (let timeout = bounded_http_timeout_seconds (mc_http_timeout_seconds config)
      in \<lparr> hc_timeout = timeout, hc_connect_timeout = min timeout 10, hc_follows_redirects = False \<rparr>)"

record signing_env =
  se_b64_decode :: "str \<Rightarrow> str option"
  se_sha256_hex :: "str \<Rightarrow> str"
  se_sign :: "str \<Rightarrow> str \<Rightarrow> str"
  se_url_parse :: "str \<Rightarrow> request_url option"

record signed_request =
  sr_client :: http_client
  sr_method :: http_method
  sr_endpoint :: str
  sr_headers :: "(str \<times> str) list"
  sr_body :: "str option"

definition signed_request_for_config ::
  "signing_env \<Rightarrow> str \<Rightarrow> str \<Rightarrow> manage_config \<Rightarrow> managed_state \<Rightarrow> http_method \<Rightarrow> str \<Rightarrow> str \<Rightarrow> signed_request sync_result" where
  "signed_request_for_config se timestamp request_id config managed method path body =
     rbind (signing_key (se_b64_decode se) managed) (\<lambda>signing.
     rbind (managed_device_id managed) (\<lambda>device_id.
     let body_sha256 = se_sha256_hex se body in
     rbind (api_url_for_config config path) (\<lambda>endpoint.
     rbind (request_path_and_query (se_url_parse se) endpoint) (\<lambda>signed_path.
     let canonical = canonical_agent_payload (method_as_str method) signed_path timestamp request_id body_sha256;
         signature = se_sign se signing canonical in
     rbind (organization_header config) (\<lambda>organization.
     Inr \<lparr> sr_client = http_client_for_config config, sr_method = method, sr_endpoint = endpoint,
           sr_headers = [(''x-tiaris-organization'', organization), (''x-tiaris-device-id'', device_id),
                         (''x-tiaris-request-id'', request_id), (''x-tiaris-timestamp'', timestamp),
                         (''x-tiaris-signature'', signature)],
           sr_body = (if body = [] then None else Some body) \<rparr>)))))"

section \<open>Answers\<close>

definition max_managed_response_bytes :: nat where "max_managed_response_bytes = 8 * 1024 * 1024"

text \<open>A chunk that cannot be read is \<open>None\<close>; \<open>rs_status_text\<close> is how the status is written.\<close>

record response =
  rs_status :: nat
  rs_status_text :: str
  rs_content_length :: "u64 option"
  rs_chunks :: "str option list"

definition append_bounded_response_chunk_with_limit :: "str \<Rightarrow> str \<Rightarrow> nat \<Rightarrow> str \<Rightarrow> str sync_result" where
  "append_bounded_response_chunk_with_limit body chunk max_bytes ctx =
     (if 2 ^ 64 \<le> length body + length chunk
      then Inl (Bail (ctx @ '' response exceeded '' @ nat_to_str max_bytes @ '' bytes''))
      else if max_bytes < length body + length chunk
      then Inl (Bail (ctx @ '' response exceeded '' @ nat_to_str max_bytes @ '' bytes''))
      else Inr (body @ chunk))"

definition append_bounded_response_chunk :: "str \<Rightarrow> str \<Rightarrow> str \<Rightarrow> str sync_result" where
  "append_bounded_response_chunk body chunk ctx =
     append_bounded_response_chunk_with_limit body chunk max_managed_response_bytes ctx"

fun read_chunks :: "str \<Rightarrow> str \<Rightarrow> str option list \<Rightarrow> str sync_result" where
  "read_chunks ctx body [] = Inr body"
| "read_chunks ctx body (None # _) = Inl (Bail (''read '' @ ctx @ '' response failed''))"
| "read_chunks ctx body (Some chunk # chunks) =
     rbind (append_bounded_response_chunk body chunk ctx) (\<lambda>body. read_chunks ctx body chunks)"

definition read_bounded_response_body :: "response \<Rightarrow> str \<Rightarrow> str sync_result" where
  "read_bounded_response_body resp ctx =
     (if case rs_content_length resp of Some len \<Rightarrow> max_managed_response_bytes < unat len | None \<Rightarrow> False
      then Inl (Bail (ctx @ '' response exceeded '' @ nat_to_str max_managed_response_bytes @ '' bytes''))
      else read_chunks ctx [] (rs_chunks resp))"

definition bounded_error_message :: "str \<Rightarrow> str" where
  "bounded_error_message message =
     (let cleaned = map (\<lambda>c. if c = CHR 0x0A \<or> c = CHR 0x0D then CHR '' '' else c) message;
          trimmed = trim cleaned
      in if chars_count trimmed \<le> 240 then trimmed else take_chars 240 trimmed @ ''...'')"

definition managed_api_error_detail :: "json_env \<Rightarrow> str \<Rightarrow> str option" where
  "managed_api_error_detail env body =
     (case je_from_str env body of
        Inl _ \<Rightarrow> None
      | Inr object \<Rightarrow>
          (if is_object object then
             let error_id = (case json_get_str object ''error_code'' of
                    Some c \<Rightarrow> (if is_safe_path_segment c then Some c else None) | None \<Rightarrow> None);
                 error = map_option (\<lambda>e. bounded_error_message (redact_sensitive_key_values e)) (json_get_str object ''error'');
                 error = (case error of Some e \<Rightarrow> (if e = [] then None else Some e) | None \<Rightarrow> None)
             in (case (error_id, error) of
                   (Some c, Some e) \<Rightarrow> Some (c @ '': '' @ e) | (Some c, None) \<Rightarrow> Some c
                 | (None, Some e) \<Rightarrow> Some e | (None, None) \<Rightarrow> None)
           else None))"

text \<open>\<open>from_slice\<close> reads the expected type of the answer.\<close>

definition parse_success_json :: "json_env \<Rightarrow> (str \<Rightarrow> 'a option) \<Rightarrow> response \<Rightarrow> str \<Rightarrow> 'a sync_result" where
  "parse_success_json env from_slice resp ctx =
     (if \<not> (200 \<le> rs_status resp \<and> rs_status resp < 300) then
        (case (case read_bounded_response_body resp ctx of Inr body \<Rightarrow> managed_api_error_detail env body | Inl _ \<Rightarrow> None) of
           Some detail \<Rightarrow> Inl (Bail (ctx @ '' failed with HTTP '' @ rs_status_text resp @ '': '' @ detail))
         | None \<Rightarrow> Inl (Bail (ctx @ '' failed with HTTP '' @ rs_status_text resp)))
      else rbind (read_bounded_response_body resp ctx) (\<lambda>body.
           ok_or (from_slice body) (Bail (''parse '' @ ctx @ '' response failed''))))"

definition safe_error :: "str \<Rightarrow> str" where
  "safe_error err =
     (if contains (to_ascii_lowercase err) ''private_key'' then ''managed sync failed; see service configuration'' else err)"

section \<open>Pauses\<close>

definition managed_sync_interval_seconds :: "manage_config \<Rightarrow> u64" where
  "managed_sync_interval_seconds config = clamp_u64 (mc_sync_interval_seconds config) 5 3600"

definition active_managed_sync_interval_seconds :: "u64 \<Rightarrow> bool \<Rightarrow> u64" where
  "active_managed_sync_interval_seconds normal_interval has_active_builds =
     (if has_active_builds then min normal_interval 5 else normal_interval)"

definition failed_sync_interval_seconds :: "manage_config \<Rightarrow> u32 \<Rightarrow> u64" where
  "failed_sync_interval_seconds config consecutive_failures =
     (let normal = clamp_u64 (mc_sync_interval_seconds config) 5 3600;
          exponent = min (sat_sub consecutive_failures 1) 10;
          backoff = sat_mul 5 (push_bit (unat exponent) 1)
      in clamp_u64 backoff 5 (max normal 5))"

text \<open>
  One round of \<^verbatim>\<open>spawn\<close>: the new count of failures and the pause, from whether the synchronisation
  succeeded and from the count of active builds, if that could be read.
\<close>

definition spawn_round :: "manage_config \<Rightarrow> bool \<Rightarrow> nat option \<Rightarrow> u32 \<Rightarrow> u32 \<times> u64" where
  "spawn_round config success active_builds consecutive_failures =
     (if success then
        (let normal_interval = managed_sync_interval_seconds config
         in (0, case active_builds of
                  Some n \<Rightarrow> active_managed_sync_interval_seconds normal_interval (0 < n)
                | None \<Rightarrow> normal_interval))
      else let consecutive_failures = sat_add consecutive_failures 1
           in (consecutive_failures, failed_sync_interval_seconds config consecutive_failures))"

section \<open>Protocol versions\<close>

record compatibility_contract =
  cc_protocol_version :: u32
  cc_minimum_nest_protocol :: u32
  cc_maximum_nest_protocol :: u32
  cc_manage_version :: str
  cc_manage_release :: str
  cc_workstation_runtime_epoch :: "u32 option"

definition tiaris_component_protocol_version :: u32 where "tiaris_component_protocol_version = 4"
definition tiaris_detected_commits_protocol_version :: u32 where "tiaris_detected_commits_protocol_version = 5"
definition tiaris_minimum_manage_protocol_version :: u32 where "tiaris_minimum_manage_protocol_version = 4"
definition tiaris_maximum_manage_protocol_version :: u32 where "tiaris_maximum_manage_protocol_version = 4"

definition negotiated_report_protocol :: "compatibility_contract option \<Rightarrow> u32" where
  "negotiated_report_protocol contract =
     (case contract of
        Some contract \<Rightarrow>
          (if cc_minimum_nest_protocol contract \<le> tiaris_detected_commits_protocol_version \<and>
              tiaris_detected_commits_protocol_version \<le> cc_maximum_nest_protocol contract
           then tiaris_detected_commits_protocol_version else tiaris_component_protocol_version)
      | None \<Rightarrow> tiaris_component_protocol_version)"

definition validate_component_compatibility :: "compatibility_contract option \<Rightarrow> unit sync_result" where
  "validate_component_compatibility contract =
     (case contract of
        None \<Rightarrow> Inl (Bail ''managed protocol-4 compatibility is required'')
      | Some contract \<Rightarrow>
          (if \<not> (tiaris_minimum_manage_protocol_version \<le> cc_protocol_version contract \<and>
                 cc_protocol_version contract \<le> tiaris_maximum_manage_protocol_version) \<or>
              \<not> (cc_minimum_nest_protocol contract \<le> tiaris_component_protocol_version \<and>
                 tiaris_component_protocol_version \<le> cc_maximum_nest_protocol contract) \<or>
              cc_workstation_runtime_epoch contract = Some 0
           then Inl (Bail (''incompatible Tiaris protocol '' @ nat_to_str (unat (cc_protocol_version contract)) @
             '' (Nest protocol '' @ nat_to_str (unat tiaris_component_protocol_version) @ '', supported Nest range '' @
             nat_to_str (unat (cc_minimum_nest_protocol contract)) @ '' through '' @
             nat_to_str (unat (cc_maximum_nest_protocol contract)) @ '', Tiaris version '' @
             trim (cc_manage_version contract) @ '', release '' @ trim (cc_manage_release contract) @ '')''))
           else Inr ()))"

section \<open>What a signature covers\<close>

lemma split_at_newline:
  assumes "a @ newline @ b = c @ newline @ d" and "CHR 0x0A \<notin> set a" and "CHR 0x0A \<notin> set c"
  shows "a = c \<and> b = d"
  using assms
proof (induction a arbitrary: c)
  case Nil
  then show ?case by (cases c) (auto simp: newline_def)
next
  case (Cons x a)
  then show ?case by (cases c) (auto simp: newline_def)
qed

lemma method_no_newline: "CHR 0x0A \<notin> set (method_as_str m)"
  by (cases m) simp_all

lemma method_as_str_inject: "method_as_str a = method_as_str b \<longleftrightarrow> a = b"
  by (cases a; cases b) simp_all

lemma canonical_payload_parts:
  assumes "canonical_agent_payload (method_as_str m) p t i h = canonical_agent_payload (method_as_str m') p' t' i' h'"
    and "CHR 0x0A \<notin> set p \<union> set p' \<union> set t \<union> set t' \<union> set i \<union> set i'"
  shows "m = m' \<and> p = p' \<and> t = t' \<and> i = i' \<and> h = h'"
proof -
  from assms(1) have "method_as_str m @ newline @ p @ newline @ t @ newline @ i @ newline @ h =
      method_as_str m' @ newline @ p' @ newline @ t' @ newline @ i' @ newline @ h'"
    by (simp add: canonical_agent_payload_def newline_def)
  from split_at_newline [OF this method_no_newline method_no_newline]
  have m: "m = m'" and 1: "p @ newline @ t @ newline @ i @ newline @ h = p' @ newline @ t' @ newline @ i' @ newline @ h'"
    by (simp_all add: method_as_str_inject)
  from split_at_newline [OF 1] assms(2) have p: "p = p'" and 2: "t @ newline @ i @ newline @ h = t' @ newline @ i' @ newline @ h'"
    by simp_all
  from split_at_newline [OF 2] assms(2) have t: "t = t'" and 3: "i @ newline @ h = i' @ newline @ h'" by simp_all
  from split_at_newline [OF 3] assms(2) m p t show ?thesis by simp
qed

text \<open>What the service reconstructs from a request it receives.\<close>

definition request_header :: "str \<Rightarrow> signed_request \<Rightarrow> str" where
  "request_header name r = (case map_of (sr_headers r) name of Some v \<Rightarrow> v | None \<Rightarrow> [])"

definition request_body :: "signed_request \<Rightarrow> str" where
  "request_body r = (case sr_body r of Some body \<Rightarrow> body | None \<Rightarrow> [])"

definition request_target :: "signing_env \<Rightarrow> signed_request \<Rightarrow> str" where
  "request_target se r = (case request_path_and_query (se_url_parse se) (sr_endpoint r) of Inr p \<Rightarrow> p | Inl _ \<Rightarrow> [])"

definition request_payload :: "signing_env \<Rightarrow> signed_request \<Rightarrow> str" where
  "request_payload se r =
     canonical_agent_payload (method_as_str (sr_method r)) (request_target se r) (request_header ''x-tiaris-timestamp'' r)
       (request_header ''x-tiaris-request-id'' r) (se_sha256_hex se (request_body r))"

text \<open>The URL parser keeps no line break in the path and the query.\<close>

definition url_parse_plain :: "(str \<Rightarrow> request_url option) \<Rightarrow> bool" where
  "url_parse_plain url_parse \<longleftrightarrow>
     (\<forall>v u. url_parse v = Some u \<longrightarrow> CHR 0x0A \<notin> set (url_path u) \<and> (\<forall>q. url_query u = Some q \<longrightarrow> CHR 0x0A \<notin> set q))"

lemma path_no_newline:
  "url_parse_plain url_parse \<Longrightarrow> request_path_and_query url_parse endpoint = Inr p \<Longrightarrow> CHR 0x0A \<notin> set p"
  by (auto simp: url_parse_plain_def request_path_and_query_def split: option.splits if_splits)

lemma signed_requestD:
  assumes "signed_request_for_config se timestamp request_id config managed method path body = Inr r"
  obtains key device_id p where "signing_key (se_b64_decode se) managed = Inr key" "managed_device_id managed = Inr device_id"
    "request_path_and_query (se_url_parse se) (sr_endpoint r) = Inr p" "request_target se r = p"
    "request_header ''x-tiaris-device-id'' r = device_id" "request_header ''x-tiaris-timestamp'' r = timestamp"
    "request_header ''x-tiaris-request-id'' r = request_id" "request_body r = body" "sr_method r = method"
    "request_header ''x-tiaris-signature'' r = se_sign se key (request_payload se r)" "\<not> hc_follows_redirects (sr_client r)"
  using assms
  by (auto simp: signed_request_for_config_def result_simps Let_def request_header_def request_body_def request_target_def
      request_payload_def http_client_for_config_def)

text \<open>C22: the signature of a request is over the payload the service reconstructs from what it
  receives, under the key of the appliance; and two requests with the same payload agree in the
  method, the path and query, the time, the request number and the digest of the body, so that a
  signature of one cannot be used for a different one. The clock and the generator of request
  numbers produce no line breaks.\<close>

theorem signature_covers_request:
  assumes "url_parse_plain (se_url_parse se)"
    and "signed_request_for_config se timestamp request_id config managed method path body = Inr r"
    and "signed_request_for_config se timestamp' request_id' config' managed' method' path' body' = Inr r'"
    and "CHR 0x0A \<notin> set timestamp \<union> set timestamp' \<union> set request_id \<union> set request_id'"
  shows "\<exists>key. signing_key (se_b64_decode se) managed = Inr key \<and>
      request_header ''x-tiaris-signature'' r = se_sign se key (request_payload se r) \<and>
      is_safe_path_segment (request_header ''x-tiaris-device-id'' r) \<and>
      (request_payload se r = request_payload se r' \<longrightarrow>
         sr_method r = sr_method r' \<and> request_target se r = request_target se r' \<and> timestamp = timestamp' \<and>
         request_id = request_id' \<and> se_sha256_hex se (request_body r) = se_sha256_hex se (request_body r'))"
proof -
  obtain key device_id p where r: "signing_key (se_b64_decode se) managed = Inr key" "managed_device_id managed = Inr device_id"
    "request_path_and_query (se_url_parse se) (sr_endpoint r) = Inr p" "request_target se r = p"
    "request_header ''x-tiaris-device-id'' r = device_id" "request_header ''x-tiaris-timestamp'' r = timestamp"
    "request_header ''x-tiaris-request-id'' r = request_id"
    "request_header ''x-tiaris-signature'' r = se_sign se key (request_payload se r)"
    by (rule signed_requestD [OF assms(2)])
  obtain p' where r': "request_path_and_query (se_url_parse se) (sr_endpoint r') = Inr p'" "request_target se r' = p'"
    "request_header ''x-tiaris-timestamp'' r' = timestamp'" "request_header ''x-tiaris-request-id'' r' = request_id'"
    by (rule signed_requestD [OF assms(3)])
  have "is_safe_path_segment device_id" using r(2) by (auto simp: managed_device_id_def split: option.splits if_splits)
  moreover have "CHR 0x0A \<notin> set p \<union> set p' \<union> set timestamp \<union> set timestamp' \<union> set request_id \<union> set request_id'"
    using assms(4) path_no_newline [OF assms(1) r(3)] path_no_newline [OF assms(1) r'(1)] by simp
  ultimately show ?thesis
    using r r' canonical_payload_parts [of "sr_method r" p timestamp request_id _ "sr_method r'" p' timestamp' request_id']
    by (simp add: request_payload_def)
qed

section \<open>Bounded answers\<close>

lemma read_chunks_iff:
  assumes "length body \<le> max_managed_response_bytes"
  shows "read_chunks ctx body chunks = Inr b \<longleftrightarrow>
    None \<notin> set chunks \<and> b = body @ concat (map the chunks) \<and> length b \<le> max_managed_response_bytes"
  using assms
proof (induction chunks arbitrary: body)
  case (Cons c chunks)
  show ?case
  proof (cases c)
    case (Some chunk)
    then show ?thesis
      using Cons
      by (auto simp: rbind_def append_bounded_response_chunk_def append_bounded_response_chunk_with_limit_def
          max_managed_response_bytes_def)
  qed simp
qed auto

text \<open>C38: reading an answer gives its chunks in order, and does so exactly when every chunk can be
  read, neither the announced length nor the chunks together exceed 8 MiB.\<close>

theorem read_bounded_response_body_spec:
  "read_bounded_response_body resp ctx = Inr body \<longleftrightarrow>
     None \<notin> set (rs_chunks resp) \<and> body = concat (map the (rs_chunks resp)) \<and>
     length body \<le> max_managed_response_bytes \<and>
     (case rs_content_length resp of Some len \<Rightarrow> unat len \<le> max_managed_response_bytes | None \<Rightarrow> True)"
  by (auto simp: read_bounded_response_body_def read_chunks_iff not_le [symmetric] split: option.splits)

section \<open>Pauses between synchronisations\<close>

lemma unat_clamp: "low \<le> high \<Longrightarrow> unat (clamp_u64 v low high) = min (max (unat v) (unat low)) (unat high)"
  by (auto simp: clamp_u64_def word_less_nat_alt word_le_nat_alt)

text \<open>C37: after \<open>n\<close> failures in a row the pause is 5 seconds doubled \<open>n - 1\<close> times, ten times at most,
  but never longer than the pause after a success, which lies between 5 seconds and an hour; no
  number of failures overflows the computation.\<close>

theorem failed_sync_interval_closed_form:
  "unat (failed_sync_interval_seconds config n) =
     min (5 * 2 ^ min (unat n - 1) 10) (unat (managed_sync_interval_seconds config)) \<and>
   5 \<le> unat (managed_sync_interval_seconds config) \<and> unat (managed_sync_interval_seconds config) \<le> 3600"
proof -
  define e where "e = min (unat n - 1) 10"
  define normal where "normal = managed_sync_interval_seconds config"
  have normal: "5 \<le> unat normal" "unat normal \<le> 3600"
    by (simp_all add: normal_def managed_sync_interval_seconds_def unat_clamp)
  have "unat (sat_sub n 1) = unat n - 1"
    by (cases "n = 0") (auto simp: sat_sub_def word_le_nat_alt unat_gt_0 unat_minus_one)
  then have e: "unat (min (sat_sub n 1) 10) = e" by (auto simp: e_def min_def word_le_nat_alt)
  have "e \<le> 10" by (simp add: e_def)
  then have p: "(2 :: nat) ^ e \<le> 1024" using power_increasing [of e 10 "2 :: nat"] by simp
  then have "unat (push_bit e 1 :: u64) = 2 ^ e" 
    using unat_of_nat_small [where 'a = 64, of "2 ^ e"] by (simp add: push_bit_of_1)
  then have b: "unat (sat_mul 5 (push_bit e 1) :: u64) = 5 * 2 ^ e"
    using p by (simp add: sat_mul_def unat_word_ariths)
  have g: "(5 :: u64) \<le> normal" using normal(1) by (simp add: word_le_nat_alt)
  have "failed_sync_interval_seconds config n = clamp_u64 (sat_mul 5 (push_bit e 1)) 5 normal"
    unfolding failed_sync_interval_seconds_def Let_def e managed_sync_interval_seconds_def [symmetric] normal_def [symmetric]
    using max_absorb1 [OF g] by simp
  then have "unat (failed_sync_interval_seconds config n) = min (max (5 * 2 ^ e) 5) (unat normal)"
    by (simp only: unat_clamp [OF g] b) simp
  moreover have "max (5 * 2 ^ e) 5 = (5 * 2 ^ e :: nat)" by (rule max_absorb1) simp
  ultimately have "unat (failed_sync_interval_seconds config n) = min (5 * 2 ^ e) (unat normal)" by simp
  with normal show ?thesis unfolding e_def normal_def by simp
qed

section \<open>Examples\<close>

definition demo_signing :: signing_env where
  "demo_signing =
     \<lparr> se_b64_decode = (\<lambda>_. Some (replicate 32 CHR ''k'')), se_sha256_hex = (\<lambda>b. nat_to_str (length b)),
       se_sign = (\<lambda>key payload. key @ payload),
       se_url_parse = (\<lambda>v. Some \<lparr> url_scheme = ''https'', url_host = Some ''m'', url_username = [], url_password = None,
                                url_query = None, url_fragment = None, url_path = ''/v1'' \<rparr>) \<rparr>"

definition demo_manage :: manage_config where
  "demo_manage =
     \<lparr> mc_enabled = True, mc_api_url = ''https://m/'', mc_organization_id = ''o'', mc_organization_slug = [],
       mc_sync_interval_seconds = 60, mc_http_timeout_seconds = 0 \<rparr>"

definition demo_managed :: managed_state where
  "demo_managed =
     \<lparr> mg_private_key_b64 = Some ''key'', mg_public_key_b64 = None, mg_public_key_fingerprint = None,
       mg_device_id = Some ''nest-1'', mg_last_reported_event_id = None, mg_active_report_cursor = None,
       mg_terminal_report_cursor = None, mg_rejection_report_cursor = None, mg_cache_artifact_report_cursor = None,
       mg_cache_report_instance_id = None, mg_cache_report_generation = None, mg_report_rotation_round = 0,
       mg_report_warning_fingerprint = None \<rparr>"

definition demo_request :: "str \<Rightarrow> signed_request sync_result" where
  "demo_request body = signed_request_for_config demo_signing ''t'' ''req_1'' demo_manage demo_managed POST ''/v1'' body"

theorem signature_covers_request_witness:
  "\<exists>r r'. demo_request ''{}'' = Inr r \<and> demo_request ''[1]'' = Inr r' \<and> request_payload demo_signing r \<noteq> request_payload demo_signing r'"
proof -
  have ok: "is_ok (demo_request ''{}'')" "is_ok (demo_request ''[1]'')" by code_simp+
  then obtain r r' where r: "demo_request ''{}'' = Inr r" "demo_request ''[1]'' = Inr r'" unfolding is_ok_iff by auto
  have plain: "url_parse_plain (se_url_parse demo_signing)" by (simp add: url_parse_plain_def demo_signing_def)
  have b: "request_body r = ''{}''" "request_body r' = ''[1]''"
    using signed_requestD [OF r(1) [unfolded demo_request_def]] signed_requestD [OF r(2) [unfolded demo_request_def]] by metis+
  have "se_sha256_hex demo_signing ''{}'' \<noteq> se_sha256_hex demo_signing ''[1]''" by code_simp
  with signature_covers_request [OF plain r [unfolded demo_request_def]] r b show ?thesis by auto
qed

end
