(* ===== verification/Nest_Report.thy ===== *)
theory Nest_Report
  imports Nest_Artifacts Nest_Request "HOL-Library.While_Combinator" "HOL-Library.Sublist"
begin

text \<open>
  The report to the managing service (\<^verbatim>\<open>src/src/manage.rs\<close>, from \<^verbatim>\<open>report_nest_state\<close> and
  \<^verbatim>\<open>report_boot_state\<close> down): which builds, cache artifacts and boot events a report carries, how
  it is trimmed to the size of a request, and how the cursors move when it was accepted.
  Parameters stand for \<open>serde_json::to_writer\<close> (the pieces it writes), \<open>Uuid::parse_str\<close> (the
  hyphenated form) and the answer of the service; \<open>'x\<close> is what other modules contribute.
\<close>

section \<open>Traversals\<close>

text \<open>The state after \<open>n\<close> reports from number \<open>i\<close> on, and what they sent.\<close>

fun run_from :: "(nat \<Rightarrow> 'm \<Rightarrow> 'm) \<Rightarrow> nat \<Rightarrow> nat \<Rightarrow> 'm \<Rightarrow> 'm" where
  "run_from step i 0 m = m"
| "run_from step i (Suc n) m = run_from step (Suc i) n (step i m)"

fun sent_from :: "(nat \<Rightarrow> 'm \<Rightarrow> 'm) \<Rightarrow> (nat \<Rightarrow> 'm \<Rightarrow> 'a list) \<Rightarrow> nat \<Rightarrow> nat \<Rightarrow> 'm \<Rightarrow> 'a list" where
  "sent_from step sent i 0 m = []"
| "sent_from step sent i (Suc n) m = sent i m @ sent_from step sent (Suc i) n (step i m)"

lemma run_from_add: "run_from step i (a + b) m = run_from step (i + a) b (run_from step i a m)"
  by (induction a arbitrary: i m) auto

lemma sent_from_add:
  "sent_from step sent i (a + b) m = sent_from step sent i a m @ sent_from step sent (i + a) b (run_from step i a m)"
  by (induction a arbitrary: i m) auto

lemma sent_from_Suc_right:
  "sent_from step sent i (Suc n) m = sent_from step sent i n m @ sent (i + n) (run_from step i n m)"
  using sent_from_add [of step sent i n 1 m] by simp

text \<open>
  A sequence of reports, each of which sends a part of what remains. A report that is \<open>final\<close> sends
  all of it; another one leaves the rest for the next; one of \<open>period\<close> consecutive reports is final
  or sends something.
\<close>

locale paged_report =
  fixes ok :: "'m \<Rightarrow> bool" and step :: "nat \<Rightarrow> 'm \<Rightarrow> 'm" and sent :: "nat \<Rightarrow> 'm \<Rightarrow> 'a list"
    and final :: "nat \<Rightarrow> 'm \<Rightarrow> bool" and remaining :: "'m \<Rightarrow> 'a list" and period :: nat
  assumes ok_step: "ok m \<Longrightarrow> ok (step i m)"
    and final_sends: "ok m \<Longrightarrow> final i m \<Longrightarrow> sent i m = remaining m"
    and rest_remains: "ok m \<Longrightarrow> \<not> final i m \<Longrightarrow> remaining m = sent i m @ remaining (step i m)"
    and progress: "ok m \<Longrightarrow> \<exists>j < period. final (i + j) (run_from step i j m) \<or> sent (i + j) (run_from step i j m) \<noteq> []"
begin

lemma run_ok: "ok m \<Longrightarrow> ok (run_from step i n m)"
  by (induction n arbitrary: i m) (auto intro: ok_step)

text \<open>As long as no report was final, what was sent and what remains is what remained at the start.\<close>

lemma unfinished:
  "ok m \<Longrightarrow> (\<And>j. j < n \<Longrightarrow> \<not> final (i + j) (run_from step i j m)) \<Longrightarrow>
   remaining m = sent_from step sent i n m @ remaining (run_from step i n m)"
proof (induction n arbitrary: i m)
  case (Suc n)
  have "\<not> final (Suc i + j) (run_from step (Suc i) j (step i m))" if "j < n" for j
    using Suc.prems(2) [of "Suc j"] that by simp
  from rest_remains [OF Suc.prems(1)] Suc.prems(2) [of 0] Suc.IH [OF ok_step [OF Suc.prems(1)] this]
  show ?case by simp
qed simp

lemma traversal_ends:
  assumes "ok m"
  shows "\<exists>n. n < period * (length (remaining m) + 1) \<and> final (i + n) (run_from step i n m) \<and>
    (\<forall>j < n. \<not> final (i + j) (run_from step i j m)) \<and> sent_from step sent i (Suc n) m = remaining m"
  using assms
proof (induction "length (remaining m)" arbitrary: i m rule: less_induct)
  case less
  let ?final = "\<lambda>j. final (i + j) (run_from step i j m)"
  obtain j where j: "j < period" "?final j \<or> sent (i + j) (run_from step i j m) \<noteq> []"
    using progress [OF less.prems] by blast
  show ?case
  proof (cases "\<exists>l \<le> j. ?final l")
    case True
    define n where "n = (LEAST l. ?final l)"
    have n: "?final n" "n \<le> j" "\<And>l. l < n \<Longrightarrow> \<not> ?final l"
      using True LeastI [of ?final] Least_le [of ?final] not_less_Least [of _ ?final] unfolding n_def by (blast, metis order_trans, blast)
    have "sent_from step sent i (Suc n) m = remaining m"
      using unfinished [OF less.prems, of n i] n(3) final_sends [OF run_ok [OF less.prems] n(1)]
      unfolding sent_from_Suc_right by simp
    moreover have "n < period * (length (remaining m) + 1)" using n(2) j(1) by simp
    ultimately show ?thesis using n(1,3) by blast
  next
    case False
    define k where "k = Suc j"
    have before_k: "\<not> ?final l" if "l < k" for l using False that by (auto simp: k_def)
    let ?m = "run_from step i k m"
    have rem: "remaining m = sent_from step sent i k m @ remaining ?m"
      by (rule unfinished [OF less.prems before_k])
    have "sent (i + j) (run_from step i j m) \<noteq> []" using j(2) False by auto
    then have shorter: "length (remaining ?m) < length (remaining m)"
      unfolding rem unfolding k_def sent_from_Suc_right by simp
    from less.hyps [OF shorter run_ok [OF less.prems], of "i + k"]
    obtain n where n: "n < period * (length (remaining ?m) + 1)" "final (i + k + n) (run_from step (i + k) n ?m)"
      "\<forall>l < n. \<not> final (i + k + l) (run_from step (i + k) l ?m)"
      "sent_from step sent (i + k) (Suc n) ?m = remaining ?m" by blast
    have "period * (length (remaining ?m) + 1) \<le> period * length (remaining m)"
      using shorter by (intro mult_le_mono) auto
    moreover have "k \<le> period" using j(1) by (simp add: k_def)
    ultimately have "k + n < period * (length (remaining m) + 1)" using n(1) by (simp add: algebra_simps)
    moreover have "\<not> ?final l" if "l < k + n" for l
    proof (cases "l < k")
      case False
      then obtain d where l: "l = k + d" by (metis le_Suc_ex not_less)
      then have "d < n" using that by simp
      with n(3) show ?thesis unfolding l run_from_add by (simp only: add.assoc simp_thms)
    qed (rule before_k)
    moreover have "sent_from step sent i (Suc (k + n)) m = remaining m"
      using sent_from_add [of step sent i k "Suc n" m] n(4) rem by (simp only: add_Suc_right)
    moreover have "?final (k + n)" using n(2) unfolding run_from_add by (simp only: add.assoc)
    ultimately show ?thesis by blast
  qed
qed

end

section \<open>The report\<close>

record job_report =
  jrep_local_id :: int
  jrep_managed_job_id :: "str option"
  jrep_requested_artifact_type :: str
  jrep_build_spec :: json
  jrep_target :: str
  jrep_system :: str
  jrep_input_revision :: str
  jrep_input_config_hash :: str
  jrep_status :: str
  jrep_progress_percent :: "int option"
  jrep_progress_stage :: "str option"
  jrep_progress_message :: "str option"
  jrep_logs :: str
  jrep_error :: str
  jrep_rejection_code :: "str option"
  jrep_output_path :: str
  jrep_output_sha256 :: str
  jrep_output_size_bytes :: int
  jrep_exit_code :: "int option"
  jrep_cache_metadata :: json
  jrep_started_at :: "str option"
  jrep_completed_at :: "str option"
  jrep_cancel_requested_at :: "str option"
  jrep_created_at :: str
  jrep_updated_at :: str

record artifact_report =
  arep_local_id :: int
  arep_managed_artifact_id :: "str option"
  arep_artifact_type :: str
  arep_hash :: str
  arep_size_bytes :: int
  arep_path :: str
  arep_store_path :: str
  arep_narinfo_path :: str
  arep_nar_url :: str
  arep_file_hash :: str
  arep_nar_hash :: str
  arep_nar_size_bytes :: int
  arep_closure_size_bytes :: int
  arep_closure_file_size_bytes :: int
  arep_compression :: str
  arep_references :: json
  arep_serving_url :: str
  arep_source_build_job_id :: "str option"
  arep_cache_metadata :: json
  arep_created_at :: str
  arep_updated_at :: str

text \<open>The status of the cache and the multicast evidence, with what they carry besides.\<close>

record 'x cache_status =
  cs_status :: str
  cs_error :: str
  cs_rest :: 'x

record 'x multicast_report =
  mr_report_instance_id :: str
  mr_events :: "(int \<times> 'x) list"

text \<open>\<open>nr_lanes\<close>: the fields of the report that neither trimming nor acceptance looks at.\<close>

record 'x nest_report =
  nr_protocol_version :: u32
  nr_cache :: "'x cache_status"
  nr_build_jobs :: "job_report list"
  nr_cache_artifacts :: "artifact_report list"
  nr_cache_inventory_instance_id :: str
  nr_cache_inventory_generation :: int
  nr_cache_artifacts_complete :: bool
  nr_workstation_multicast :: "'x multicast_report option"
  nr_software_update_findings :: "'x list option"
  nr_lanes :: 'x

definition max_report_build_jobs :: nat where "max_report_build_jobs = 500"
definition max_report_cache_artifacts :: nat where "max_report_cache_artifacts = 2000"
definition max_nest_report_body_bytes :: nat where "max_nest_report_body_bytes = 32 * 1024 * 1024"

definition optional_report_uuid :: "(str \<Rightarrow> str option) \<Rightarrow> str option \<Rightarrow> str option" where
  "optional_report_uuid uuid_parse value = Option.bind value (\<lambda>v. uuid_parse (trim v))"

definition report_of_job :: "(str \<Rightarrow> str option) \<Rightarrow> build_job \<Rightarrow> job_report" where
  "report_of_job uuid_parse job =
     \<lparr> jrep_local_id = job_id job, jrep_managed_job_id = optional_report_uuid uuid_parse (job_managed_job_id job),
       jrep_requested_artifact_type = job_requested_artifact_type job, jrep_build_spec = job_build_spec job,
       jrep_target = job_target job, jrep_system = job_system job, jrep_input_revision = job_input_revision job,
       jrep_input_config_hash = job_input_config_hash job, jrep_status = job_status job,
       jrep_progress_percent = job_progress_percent job, jrep_progress_stage = job_progress_stage job,
       jrep_progress_message = job_progress_message job, jrep_logs = job_logs job, jrep_error = job_error job,
       jrep_rejection_code = (if job_rejection_code job = [] then None else Some (job_rejection_code job)),
       jrep_output_path = job_output_path job, jrep_output_sha256 = job_output_sha256 job,
       jrep_output_size_bytes = job_output_size_bytes job, jrep_exit_code = job_exit_code job,
       jrep_cache_metadata = job_cache_metadata job, jrep_started_at = job_started_at job,
       jrep_completed_at = job_completed_at job, jrep_cancel_requested_at = job_cancel_requested_at job,
       jrep_created_at = job_created_at job, jrep_updated_at = job_updated_at job \<rparr>"

definition report_of_artifact :: "(str \<Rightarrow> str option) \<Rightarrow> cache_artifact \<Rightarrow> artifact_report" where
  "report_of_artifact uuid_parse a =
     \<lparr> arep_local_id = art_id a, arep_managed_artifact_id = optional_report_uuid uuid_parse (art_managed_artifact_id a),
       arep_artifact_type = art_artifact_type a, arep_hash = art_hash a, arep_size_bytes = art_size_bytes a,
       arep_path = art_path a, arep_store_path = art_store_path a, arep_narinfo_path = art_narinfo_path a,
       arep_nar_url = art_nar_url a, arep_file_hash = art_file_hash a, arep_nar_hash = art_nar_hash a,
       arep_nar_size_bytes = art_nar_size_bytes a, arep_closure_size_bytes = art_closure_size_bytes a,
       arep_closure_file_size_bytes = art_closure_file_size_bytes a, arep_compression = art_compression a,
       arep_references = art_references a, arep_serving_url = art_serving_url a,
       arep_source_build_job_id = optional_report_uuid uuid_parse (art_source_build_job_id a),
       arep_cache_metadata = art_cache_metadata a, arep_created_at = art_created_at a,
       arep_updated_at = art_updated_at a \<rparr>"

subsection \<open>Selection\<close>

text \<open>The index of the first item without the property, for a list that has those with it first.\<close>

definition partition_point :: "('a \<Rightarrow> bool) \<Rightarrow> 'a list \<Rightarrow> nat" where
  "partition_point p xs = length (takeWhile p xs)"

definition rotate_report_items_after_cursor :: "'a list \<Rightarrow> int option \<Rightarrow> ('a \<Rightarrow> int) \<Rightarrow> 'a list" where
  "rotate_report_items_after_cursor items cursor local_id =
     (let items = sort_key (\<lambda>item. - local_id item) items
      in case cursor of
           None \<Rightarrow> items
         | Some cursor \<Rightarrow>
             (let split = partition_point (\<lambda>item. cursor \<le> local_id item) items
              in if split < length items then rotate split items else items))"

definition nest_cache_report_cursor :: "managed_state \<Rightarrow> str \<Rightarrow> int \<Rightarrow> bool \<Rightarrow> int option" where
  "nest_cache_report_cursor managed inventory_instance_id inventory_generation inventory_valid =
     (if inventory_valid \<and> mg_cache_report_instance_id managed = Some inventory_instance_id \<and>
         mg_cache_report_generation managed = Some inventory_generation
      then mg_cache_artifact_report_cursor managed else None)"

datatype report_priority = ActiveBuilds | TerminalBuilds | RejectedBuilds | CacheArtifacts

definition priority_from_round :: "u8 \<Rightarrow> report_priority" where
  "priority_from_round round =
     (let k = unat (round mod 4)
      in if k = 0 then ActiveBuilds else if k = 1 then TerminalBuilds else if k = 2 then RejectedBuilds else CacheArtifacts)"

fun build_group_order :: "report_priority \<Rightarrow> nat list" where
  "build_group_order ActiveBuilds = [0, 1, 2]"
| "build_group_order TerminalBuilds = [2, 1, 0]"
| "build_group_order RejectedBuilds = [1, 0, 2]"
| "build_group_order CacheArtifacts = [0, 1, 2]"

definition nest_build_job_is_terminal :: "job_report \<Rightarrow> bool" where
  "nest_build_job_is_terminal job \<longleftrightarrow>
     jrep_status job = ''succeeded'' \<or> jrep_status job = ''failed'' \<or> jrep_status job = ''cancelled''"

text \<open>One pass over the groups: the numbers taken from each, their sum, and whether one was taken.\<close>

fun select_pass :: "nat list \<Rightarrow> nat \<Rightarrow> nat list \<Rightarrow> nat list \<times> nat \<times> bool \<Rightarrow> nat list \<times> nat \<times> bool" where
  "select_pass lengths max_reports [] st = st"
| "select_pass lengths max_reports (g # gs) (taken, selected, progressed) =
     (if selected = max_reports then (taken, selected, progressed)
      else if taken ! g < lengths ! g
      then select_pass lengths max_reports gs (taken[g := taken ! g + 1], selected + 1, True)
      else select_pass lengths max_reports gs (taken, selected, progressed))"

text \<open>The loop over the passes; its third component is the \<^verbatim>\<open>break\<close>.\<close>

definition select_counts :: "nat list \<Rightarrow> nat \<Rightarrow> nat list \<Rightarrow> nat list" where
  "select_counts lengths max_reports order =
     fst (while (\<lambda>(taken, selected, stop). selected < max_reports \<and> \<not> stop)
       (\<lambda>(taken, selected, stop).
          case select_pass lengths max_reports order (taken, selected, False) of
            (taken, selected, progressed) \<Rightarrow> (taken, selected, \<not> progressed))
       ([0, 0, 0], 0, False))"

definition active_group :: "job_report \<Rightarrow> bool" where
  "active_group report = (\<not> nest_build_job_is_terminal report)"

definition rejected_group :: "job_report \<Rightarrow> bool" where
  "rejected_group report = (nest_build_job_is_terminal report \<and> jrep_rejection_code report \<noteq> None)"

definition terminal_group :: "job_report \<Rightarrow> bool" where
  "terminal_group report = (nest_build_job_is_terminal report \<and> jrep_rejection_code report = None)"

definition select_build_job_reports ::
  "job_report list \<Rightarrow> int option \<Rightarrow> int option \<Rightarrow> int option \<Rightarrow> nat \<Rightarrow> report_priority \<Rightarrow> job_report list" where
  "select_build_job_reports reports active_cursor rejection_cursor terminal_cursor max_reports priority =
     (let active = rotate_report_items_after_cursor (filter active_group reports) active_cursor jrep_local_id;
          rejected = rotate_report_items_after_cursor (filter rejected_group reports) rejection_cursor jrep_local_id;
          terminal = rotate_report_items_after_cursor (filter terminal_group reports) terminal_cursor jrep_local_id;
          taken = select_counts [length active, length rejected, length terminal] max_reports (build_group_order priority)
      in take (taken ! 0) active @ take (taken ! 1) rejected @ take (taken ! 2) terminal)"

subsection \<open>Trimming\<close>

text \<open>
  \<^verbatim>\<open>NestReportSizeWriter\<close> counts the bytes of the pieces it is given; \<open>write_all\<close> does not call it for
  an empty piece.
\<close>

record size_writer =
  sw_written :: nat
  sw_max_bytes :: nat

definition size_write :: "str \<Rightarrow> size_writer \<Rightarrow> io_error + size_writer" where
  "size_write bytes w =
     (let next = sw_written w + length bytes
      in if 2 ^ 64 \<le> next then Inl IoOther
         else if sw_max_bytes w < next then Inl IoOther
         else Inr (w \<lparr> sw_written := next \<rparr>))"

fun write_pieces :: "str list \<Rightarrow> size_writer \<Rightarrow> io_error + size_writer" where
  "write_pieces [] w = Inr w"
| "write_pieces (piece # pieces) w =
     rbind (if piece = [] then Inr w else size_write piece w) (write_pieces pieces)"

type_synonym 'b writer = "'b \<Rightarrow> str list"

definition nest_report_body_fits :: "'x nest_report writer \<Rightarrow> 'x nest_report \<Rightarrow> nat \<Rightarrow> bool" where
  "nest_report_body_fits to_writer body max_bytes =
     is_ok (write_pieces (to_writer body) \<lparr> sw_written = 0, sw_max_bytes = max_bytes \<rparr>)"

definition serialize_nest_report_body :: "'x nest_report writer \<Rightarrow> 'x nest_report \<Rightarrow> str" where
  "serialize_nest_report_body to_writer body = concat (to_writer body)"

text \<open>\<^verbatim>\<open>rposition\<close>, and the loops that remove the last report of a group until the body fits.\<close>

fun rposition :: "('a \<Rightarrow> bool) \<Rightarrow> 'a list \<Rightarrow> nat option" where
  "rposition p [] = None"
| "rposition p (x # xs) =
     (case rposition p xs of Some i \<Rightarrow> Some (Suc i) | None \<Rightarrow> if p x then Some 0 else None)"

definition remove_at :: "nat \<Rightarrow> 'a list \<Rightarrow> 'a list" where
  "remove_at i xs = take i xs @ drop (Suc i) xs"

lemma rposition_less: "rposition p xs = Some i \<Longrightarrow> i < length xs"
  by (induction xs arbitrary: i) (auto split: option.splits if_splits)

function trim_group :: "('x nest_report \<Rightarrow> bool) \<Rightarrow> (job_report \<Rightarrow> bool) \<Rightarrow> 'x nest_report \<Rightarrow> 'x nest_report" where
  "trim_group fits p body =
     (if fits body then body
      else case rposition p (nr_build_jobs body) of
             None \<Rightarrow> body
           | Some index \<Rightarrow> trim_group fits p (body \<lparr> nr_build_jobs := remove_at index (nr_build_jobs body) \<rparr>))"
  by pat_completeness auto
termination
  by (relation "measure (\<lambda>(_, _, body). length (nr_build_jobs body))") (auto simp: remove_at_def dest: rposition_less)

definition trim_ordinary_terminal_reports :: "('x nest_report \<Rightarrow> bool) \<Rightarrow> 'x nest_report \<Rightarrow> 'x nest_report" where
  "trim_ordinary_terminal_reports fits =
     trim_group fits (\<lambda>job. nest_build_job_is_terminal job \<and> jrep_rejection_code job = None)"

definition trim_active_build_reports :: "('x nest_report \<Rightarrow> bool) \<Rightarrow> 'x nest_report \<Rightarrow> 'x nest_report" where
  "trim_active_build_reports fits = trim_group fits (\<lambda>job. \<not> nest_build_job_is_terminal job)"

definition trim_rejected_build_reports :: "('x nest_report \<Rightarrow> bool) \<Rightarrow> 'x nest_report \<Rightarrow> 'x nest_report" where
  "trim_rejected_build_reports fits = trim_group fits (\<lambda>job. jrep_rejection_code job \<noteq> None)"

function trim_workstation_multicast_reports :: "('x nest_report \<Rightarrow> bool) \<Rightarrow> 'x nest_report \<Rightarrow> 'x nest_report" where
  "trim_workstation_multicast_reports fits body =
     (if fits body then body
      else case nr_workstation_multicast body of
             None \<Rightarrow> body
           | Some report \<Rightarrow>
               if mr_events report = [] then body
               else trim_workstation_multicast_reports fits
                      (body \<lparr> nr_workstation_multicast := Some (report \<lparr> mr_events := butlast (mr_events report) \<rparr>) \<rparr>))"
  by pat_completeness auto
termination
  by (relation "measure (\<lambda>(_, body). case nr_workstation_multicast body of None \<Rightarrow> 0 | Some r \<Rightarrow> length (mr_events r))") auto

text \<open>The search for the longest prefix: the loop over the bounds.\<close>

definition prefix_guard :: "nat \<times> nat \<Rightarrow> bool" where
  "prefix_guard = (\<lambda>(low, high). low < high)"

definition prefix_step :: "(nat \<Rightarrow> bool) \<Rightarrow> nat \<times> nat \<Rightarrow> nat \<times> nat" where
  "prefix_step fits = (\<lambda>(low, high).
     let mid = (low + high + 1) div 2 in if fits mid then (mid, high) else (low, mid - 1))"

definition max_fitting_prefix_len :: "nat \<Rightarrow> (nat \<Rightarrow> bool) \<Rightarrow> nat" where
  "max_fitting_prefix_len len fits = fst (while prefix_guard (prefix_step fits) (0, len))"

definition trim_cache_artifact_reports :: "('x nest_report \<Rightarrow> bool) \<Rightarrow> 'x nest_report \<Rightarrow> 'x nest_report" where
  "trim_cache_artifact_reports fits body =
     (if fits body \<or> nr_cache_artifacts body = [] then body
      else let fitting = max_fitting_prefix_len (length (nr_cache_artifacts body)) (\<lambda>count.
                 fits (body \<lparr> nr_cache_artifacts := take count (nr_cache_artifacts body), nr_cache_artifacts_complete := False \<rparr>))
           in body \<lparr> nr_cache_artifacts := take fitting (nr_cache_artifacts body), nr_cache_artifacts_complete := False \<rparr>)"

fun trim_by_priority :: "('x nest_report \<Rightarrow> bool) \<Rightarrow> report_priority \<Rightarrow> 'x nest_report \<Rightarrow> 'x nest_report" where
  "trim_by_priority fits ActiveBuilds body =
     trim_active_build_reports fits (trim_rejected_build_reports fits
       (trim_cache_artifact_reports fits (trim_ordinary_terminal_reports fits body)))"
| "trim_by_priority fits TerminalBuilds body =
     trim_ordinary_terminal_reports fits (trim_rejected_build_reports fits
       (trim_active_build_reports fits (trim_cache_artifact_reports fits body)))"
| "trim_by_priority fits RejectedBuilds body =
     trim_rejected_build_reports fits (trim_active_build_reports fits
       (trim_cache_artifact_reports fits (trim_ordinary_terminal_reports fits body)))"
| "trim_by_priority fits CacheArtifacts body =
     trim_cache_artifact_reports fits (trim_rejected_build_reports fits
       (trim_active_build_reports fits (trim_ordinary_terminal_reports fits body)))"

definition clear_logs :: "'x nest_report \<Rightarrow> 'x nest_report" where
  "clear_logs body = body \<lparr> nr_build_jobs := map (\<lambda>job. job \<lparr> jrep_logs := [] \<rparr>) (nr_build_jobs body) \<rparr>"

definition fit_nest_report_body ::
  "'x nest_report writer \<Rightarrow> 'x nest_report \<Rightarrow> nat \<Rightarrow> report_priority \<Rightarrow> ('x nest_report \<times> str) sync_result" where
  "fit_nest_report_body to_writer body max_bytes priority =
     (let fits = (\<lambda>b. nest_report_body_fits to_writer b max_bytes)
      in if fits body then Inr (body, serialize_nest_report_body to_writer body)
         else let body = clear_logs body;
                  body = (if fits body then body else body \<lparr> nr_software_update_findings := None \<rparr>);
                  body = trim_workstation_multicast_reports fits body;
                  body = trim_by_priority fits priority body
              in if \<not> fits body
                 then Inl (Bail (''managed nest report base body exceeded '' @ nat_to_str max_bytes @ '' bytes''))
                 else Inr (body, serialize_nest_report_body to_writer body))"

subsection \<open>Acceptance\<close>

definition advance_nest_report_rotation :: "managed_state \<Rightarrow> 'x nest_report \<Rightarrow> managed_state" where
  "advance_nest_report_rotation managed body =
     (let jobs = rev (nr_build_jobs body);
          managed = (case find (\<lambda>job. \<not> nest_build_job_is_terminal job) jobs of
                       Some job \<Rightarrow> managed \<lparr> mg_active_report_cursor := Some (jrep_local_id job) \<rparr> | None \<Rightarrow> managed);
          managed = (case find (\<lambda>job. jrep_rejection_code job \<noteq> None) jobs of
                       Some job \<Rightarrow> managed \<lparr> mg_rejection_report_cursor := Some (jrep_local_id job) \<rparr> | None \<Rightarrow> managed);
          managed = (case find (\<lambda>job. nest_build_job_is_terminal job \<and> jrep_rejection_code job = None) jobs of
                       Some job \<Rightarrow> managed \<lparr> mg_terminal_report_cursor := Some (jrep_local_id job) \<rparr> | None \<Rightarrow> managed);
          managed =
            (if 0 \<le> nr_cache_inventory_generation body \<and> nr_cache_inventory_instance_id body \<noteq> []
             then let same_generation =
                        (mg_cache_report_instance_id managed = Some (nr_cache_inventory_instance_id body) \<and>
                         mg_cache_report_generation managed = Some (nr_cache_inventory_generation body));
                      managed = (if same_generation then managed else managed \<lparr> mg_cache_artifact_report_cursor := None \<rparr>);
                      managed = managed \<lparr> mg_cache_report_instance_id := Some (nr_cache_inventory_instance_id body),
                                          mg_cache_report_generation := Some (nr_cache_inventory_generation body) \<rparr>
                  in if nr_cache_artifacts_complete body then managed \<lparr> mg_cache_artifact_report_cursor := None \<rparr>
                     else if nr_cache_artifacts body \<noteq> []
                     then managed \<lparr> mg_cache_artifact_report_cursor := Some (arep_local_id (last (nr_cache_artifacts body))) \<rparr>
                     else managed
             else managed)
      in managed \<lparr> mg_report_rotation_round := (mg_report_rotation_round managed + 1) mod 4 \<rparr>)"

datatype warning_code =
    NestApplianceReportInvalid | NestArtifactReportConflict | NestArtifactReportInvalid | NestBuildReportConflict
  | NestBuildReportInvalid | NestCacheReportInvalid | NestDiskReportInvalid | NestHostReportInvalid
  | NestReleaseJobIdentityMismatch | NestReleaseSourceContainsProtectedMaterial | NestReleaseSourceIdentityMismatch
  | NestReleaseSourceLockMissing | UnknownWarning

fun warning_code_as_str :: "warning_code \<Rightarrow> str" where
  "warning_code_as_str NestApplianceReportInvalid = ''nest_appliance_report_invalid''"
| "warning_code_as_str NestArtifactReportConflict = ''nest_artifact_report_conflict''"
| "warning_code_as_str NestArtifactReportInvalid = ''nest_artifact_report_invalid''"
| "warning_code_as_str NestBuildReportConflict = ''nest_build_report_conflict''"
| "warning_code_as_str NestBuildReportInvalid = ''nest_build_report_invalid''"
| "warning_code_as_str NestCacheReportInvalid = ''nest_cache_report_invalid''"
| "warning_code_as_str NestDiskReportInvalid = ''nest_disk_report_invalid''"
| "warning_code_as_str NestHostReportInvalid = ''nest_host_report_invalid''"
| "warning_code_as_str NestReleaseJobIdentityMismatch = ''nest_release_job_identity_mismatch''"
| "warning_code_as_str NestReleaseSourceContainsProtectedMaterial = ''nest_release_source_contains_protected_material''"
| "warning_code_as_str NestReleaseSourceIdentityMismatch = ''nest_release_source_identity_mismatch''"
| "warning_code_as_str NestReleaseSourceLockMissing = ''nest_release_source_lock_missing''"
| "warning_code_as_str UnknownWarning = ''unknown''"

text \<open>The arms of the \<^verbatim>\<open>match\<close> are the names of the codes before \<^verbatim>\<open>Unknown\<close>.\<close>

definition warning_code_from_untrusted :: "str option \<Rightarrow> warning_code" where
  "warning_code_from_untrusted value =
     (case value of
        None \<Rightarrow> UnknownWarning
      | Some v \<Rightarrow>
          (case find (\<lambda>c. warning_code_as_str c = v)
                  [NestApplianceReportInvalid, NestArtifactReportConflict, NestArtifactReportInvalid,
                   NestBuildReportConflict, NestBuildReportInvalid, NestCacheReportInvalid, NestDiskReportInvalid,
                   NestHostReportInvalid, NestReleaseJobIdentityMismatch, NestReleaseSourceContainsProtectedMaterial,
                   NestReleaseSourceIdentityMismatch, NestReleaseSourceLockMissing] of
             Some c \<Rightarrow> c | None \<Rightarrow> UnknownWarning))"

record report_warnings =
  rw_codes :: "warning_code list"
  rw_truncated :: bool

definition max_nest_report_warning_receipts :: nat where "max_nest_report_warning_receipts = 32"

definition deserialize_warnings :: "json \<Rightarrow> report_warnings" where
  "deserialize_warnings value =
     (case value of
        JArr receipts \<Rightarrow>
          \<lparr> rw_codes = map (\<lambda>receipt. warning_code_from_untrusted (json_get_str receipt ''diagnostic_code''))
                         (take max_nest_report_warning_receipts receipts),
            rw_truncated = (max_nest_report_warning_receipts < length receipts) \<rparr>
      | _ \<Rightarrow> \<lparr> rw_codes = [], rw_truncated = False \<rparr>)"

definition nest_report_warning_fingerprint :: "report_warnings \<Rightarrow> str option" where
  "nest_report_warning_fingerprint warnings =
     (if rw_codes warnings = [] then None
      else Some ((if rw_truncated warnings then ''true'' else ''false'') @ '':'' @
             join '','' (remdups_adj (sort (map warning_code_as_str (rw_codes warnings))))))"

text \<open>The value tells whether a warning was logged.\<close>

definition log_nest_report_warnings :: "report_warnings \<Rightarrow> managed_state \<Rightarrow> bool \<times> managed_state" where
  "log_nest_report_warnings warnings managed =
     (let fingerprint = nest_report_warning_fingerprint warnings
      in if fingerprint = None then (False, managed \<lparr> mg_report_warning_fingerprint := None \<rparr>)
         else if mg_report_warning_fingerprint managed = fingerprint then (False, managed)
         else (rw_codes warnings \<noteq> [], managed \<lparr> mg_report_warning_fingerprint := fingerprint \<rparr>))"

datatype receipt_state = ReceiptAccepted | ReceiptRejected | ReceiptUnavailable | ReceiptUnknown

datatype receipt_error = ReceiptMissing | ReceiptInvalid | ReceiptStale | ReceiptStorageUnavailable | ReceiptErrorUnknown

fun receipt_error_as_str :: "receipt_error \<Rightarrow> str" where
  "receipt_error_as_str ReceiptMissing = ''runtime_report_missing''"
| "receipt_error_as_str ReceiptInvalid = ''runtime_report_invalid''"
| "receipt_error_as_str ReceiptStale = ''runtime_report_stale''"
| "receipt_error_as_str ReceiptStorageUnavailable = ''runtime_report_storage_unavailable''"
| "receipt_error_as_str ReceiptErrorUnknown = ''runtime_report_receipt_invalid''"

record report_response =
  rr_status :: str
  rr_workstation_netboot :: "(receipt_state \<times> receipt_error option) option"
  rr_warnings :: report_warnings

definition validate_nest_report_status :: "report_response \<Rightarrow> unit sync_result" where
  "validate_nest_report_status response =
     (if rr_status response \<noteq> ''ok'' then Inl (Bail ''Tiaris returned an invalid Nest report status'') else Inr ())"

definition validate_workstation_netboot_report_receipt :: "report_response \<Rightarrow> unit sync_result" where
  "validate_workstation_netboot_report_receipt response =
     (case rr_workstation_netboot response of
        None \<Rightarrow> Inr ()
      | Some (st, code_opt) \<Rightarrow>
          (if st = ReceiptAccepted \<and> code_opt = None then Inr ()
           else case code_opt of
                  Some c \<Rightarrow>
                    if (st = ReceiptRejected \<or> st = ReceiptUnavailable) \<and> c \<noteq> ReceiptErrorUnknown
                    then Inl (Bail (''Tiaris did not accept workstation runtime evidence ('' @ receipt_error_as_str c @ '')''))
                    else Inl (Bail ''Tiaris returned an invalid workstation runtime report receipt'')
                | None \<Rightarrow> Inl (Bail ''Tiaris returned an invalid workstation runtime report receipt'')))"

text \<open>The cursors advance before the receipt of the isolated lane is looked at.\<close>

definition accept_nest_report_response :: "report_response \<Rightarrow> 'x nest_report \<Rightarrow> (managed_state, sync_error, unit) edb" where
  "accept_nest_report_response response body =
     db_then (db_lift (validate_nest_report_status response))
     (\<lambda>managed. (validate_workstation_netboot_report_receipt response,
         snd (log_nest_report_warnings (rr_warnings response) (advance_nest_report_rotation managed body))))"

subsection \<open>One report\<close>

definition cache_inventory_generation_for_peer :: "int \<Rightarrow> bool \<Rightarrow> bool \<Rightarrow> bool \<Rightarrow> int" where
  "cache_inventory_generation_for_peer generation cache_listing_valid cache_inventory_valid peer_supports_lane_isolation =
     (if peer_supports_lane_isolation \<and> (\<not> cache_listing_valid \<or> \<not> cache_inventory_valid) then - 1 else generation)"

definition cache_status_for_local_state :: "'x cache_status \<Rightarrow> bool \<Rightarrow> 'x cache_status" where
  "cache_status_for_local_state report local_state_valid =
     (if local_state_valid then report
      else report \<lparr> cs_status := ''error'', cs_error := ''local_state_unavailable'' \<rparr>)"

text \<open>What the other modules contribute to a report: whether the scrub of the cache succeeded, what
  the peer supports, and their own parts of the body.\<close>

record 'x report_inputs =
  ri_scrub_valid :: bool
  ri_peer_supports_runtime_fencing :: bool
  ri_report_protocol :: u32
  ri_cache :: "'x cache_status"
  ri_workstation_multicast :: "'x multicast_report option"
  ri_software_update_findings :: "'x list option"
  ri_lanes :: 'x

definition or_empty :: "'e + 'a list \<Rightarrow> 'a list \<times> bool" where
  "or_empty r = (case r of Inr xs \<Rightarrow> (xs, True) | Inl _ \<Rightarrow> ([], False))"

definition cache_page :: "json_env \<Rightarrow> int option \<Rightarrow> build_store \<Rightarrow> cache_artifact list \<times> bool \<times> bool" where
  "cache_page env cursor s =
     (case fst (list_cache_artifacts_report_page env cursor max_report_cache_artifacts max_nest_report_body_bytes s) of
        Inr (artifacts, complete) \<Rightarrow> (artifacts, complete, True)
      | Inl _ \<Rightarrow> ([], False, False))"

definition nest_report_body ::
  "json_env \<Rightarrow> (str \<Rightarrow> str option) \<Rightarrow> 'x report_inputs \<Rightarrow> build_store \<Rightarrow> managed_state \<Rightarrow> 'x nest_report" where
  "nest_report_body env uuid_parse inputs s managed =
     (let (build_jobs, build_listing_valid) =
            or_empty (fst (list_build_jobs_report_page env (mg_active_report_cursor managed)
              (mg_rejection_report_cursor managed) (mg_terminal_report_cursor managed)
              (mg_report_rotation_round managed) max_report_build_jobs max_nest_report_body_bytes s));
          cache_scrub_valid = ri_scrub_valid inputs;
          (instance_id, generation, cache_inventory_valid) =
            (case fst (cache_inventory_state s) of
               Inr inventory \<Rightarrow> (inv_instance_id inventory, inv_generation inventory, True)
             | Inl _ \<Rightarrow> ([], 0, False));
          cache_report_cursor = nest_cache_report_cursor managed instance_id generation cache_inventory_valid;
          (cache_artifacts, cache_listing_complete, cache_listing_valid) = cache_page env cache_report_cursor s;
          generation = cache_inventory_generation_for_peer generation cache_listing_valid cache_inventory_valid
                         (ri_peer_supports_runtime_fencing inputs);
          cache_artifacts_complete = (cache_listing_complete \<and> cache_inventory_valid \<and> cache_scrub_valid);
          local_cache_build_state_valid =
            (build_listing_valid \<and> cache_scrub_valid \<and> cache_listing_valid \<and> cache_inventory_valid);
          cache = cache_status_for_local_state (ri_cache inputs) local_cache_build_state_valid;
          report_priority = priority_from_round (mg_report_rotation_round managed);
          build_jobs = select_build_job_reports
            (filter (\<lambda>job. jrep_managed_job_id job \<noteq> None) (map (report_of_job uuid_parse) build_jobs))
            (mg_active_report_cursor managed) (mg_rejection_report_cursor managed)
            (mg_terminal_report_cursor managed) max_report_build_jobs report_priority;
          cache_artifacts = take max_report_cache_artifacts
            (rotate_report_items_after_cursor (map (report_of_artifact uuid_parse) cache_artifacts)
               cache_report_cursor arep_local_id)
      in \<lparr> nr_protocol_version = ri_report_protocol inputs, nr_cache = cache, nr_build_jobs = build_jobs,
           nr_cache_artifacts = cache_artifacts, nr_cache_inventory_instance_id = instance_id,
           nr_cache_inventory_generation = generation, nr_cache_artifacts_complete = cache_artifacts_complete,
           nr_workstation_multicast = ri_workstation_multicast inputs,
           nr_software_update_findings = ri_software_update_findings inputs, nr_lanes = ri_lanes inputs \<rparr>)"

text \<open>
  From the body to the acceptance of the answer; \<open>respond\<close> is the request to the service. The notes on
  the contact and the receipts of the other lanes follow it in the source.
\<close>

definition exchange_nest_report ::
  "json_env \<Rightarrow> (str \<Rightarrow> str option) \<Rightarrow> 'x nest_report writer \<Rightarrow> (str \<Rightarrow> str \<Rightarrow> report_response sync_result) \<Rightarrow>
     'x report_inputs \<Rightarrow> build_store \<Rightarrow> (managed_state, sync_error, unit) edb" where
  "exchange_nest_report env uuid_parse to_writer respond inputs s =
     db_bind (db_get (\<lambda>managed. fit_nest_report_body to_writer (nest_report_body env uuid_parse inputs s managed)
         max_nest_report_body_bytes (priority_from_round (mg_report_rotation_round managed)))) (\<lambda>fitted.
     db_bind (db_lift fitted) (\<lambda>(body, body_bytes).
     db_bind (db_get managed_device_id) (\<lambda>device. db_bind (db_lift device) (\<lambda>device_id.
     db_bind (db_lift (respond (''/v1/agent/devices/'' @ device_id @ ''/nest/report'') body_bytes)) (\<lambda>response.
     accept_nest_report_response response body)))))"

section \<open>The boot report\<close>

record boot_client_report =
  bcr_mac :: str
  bcr_hostname :: "str option"
  bcr_serial_number :: "str option"
  bcr_last_seen_at :: "str option"
  bcr_notes :: str
  bcr_tags :: "str list"

record boot_event_report =
  ber_source_event_id :: int
  ber_mac :: "str option"
  ber_serial_number :: "str option"
  ber_ip_address :: "str option"
  ber_user_agent :: "str option"
  ber_selected_profile_id :: "str option"
  ber_selected_profile_name :: "str option"
  ber_known_client :: bool
  ber_created_at :: str

record 'x boot_report =
  br_settings :: 'x
  br_clients :: "boot_client_report list"
  br_events :: "boot_event_report list"

definition max_report_clients :: nat where "max_report_clients = 2000"
definition max_report_events :: int where "max_report_events = 500"
definition max_boot_report_body_bytes :: nat where "max_boot_report_body_bytes = 3 * 1024 * 1024"

definition current_boot_client_reports :: "boot_client_report list store_db" where
  "current_boot_client_reports =
     db_get (\<lambda>s. map (\<lambda>row. \<lparr> bcr_mac = dev_mac row, bcr_hostname = dev_hostname row,
                             bcr_serial_number = dev_serial_number row, bcr_last_seen_at = dev_last_seen_at row,
                             bcr_notes = dev_notes row, bcr_tags = clean_tags (dev_tags row) \<rparr>)
       (sort_key (\<lambda>d. if dev_one_time_profile_id d \<noteq> None then 0 else (1 :: nat))
          (order_desc seen_or_created (order_desc dev_mac (st_devices s)))))"

definition has_unreported_known_profile_events :: "int option \<Rightarrow> bool store_db" where
  "has_unreported_known_profile_events last_reported_event_id =
     db_get (\<lambda>s. list_ex (\<lambda>e. unwrap_or last_reported_event_id 0 < ev_id e \<and> ev_known_device e \<and>
                             ev_selected_profile_id e \<noteq> None) (st_events s))"

text \<open>The events after the cursor, each with the managed identity of its profile.\<close>

definition list_events_after :: "int \<Rightarrow> int \<Rightarrow> (boot_event \<times> str option) list store_db" where
  "list_events_after last_reported_event_id limit =
     db_get (\<lambda>s. map (\<lambda>e. (e, Option.bind (ev_selected_profile_id e) (\<lambda>i.
                               Option.bind (find (\<lambda>p. prof_id p = i) (st_profiles s)) prof_managed_profile_id)))
       (take (nat (min (max limit 1) max_report_events))
          (sort_key ev_id (filter (\<lambda>e. last_reported_event_id < ev_id e) (st_events s)))))"

definition event_report :: "(str \<Rightarrow> str option) \<Rightarrow> boot_event \<times> str option \<Rightarrow> boot_event_report" where
  "event_report uuid_parse = (\<lambda>(event, selected_profile_id).
     \<lparr> ber_source_event_id = ev_id event, ber_mac = ev_mac event, ber_serial_number = ev_serial_number event,
       ber_ip_address = ev_ip_address event, ber_user_agent = ev_user_agent event,
       ber_selected_profile_id = optional_report_uuid uuid_parse selected_profile_id,
       ber_selected_profile_name = ev_selected_profile_name event, ber_known_client = ev_known_device event,
       ber_created_at = ev_created_at event \<rparr>)"

text \<open>\<open>settings\<close> gives the settings of the running server from the counts of profiles and clients.\<close>

definition boot_report_body :: "(str \<Rightarrow> str option) \<Rightarrow> (nat \<Rightarrow> nat \<Rightarrow> 'x) \<Rightarrow> managed_state \<Rightarrow> 'x boot_report store_db" where
  "boot_report_body uuid_parse settings managed =
     db_bind current_boot_client_reports (\<lambda>clients.
     db_bind list_profiles (\<lambda>profiles.
     db_bind (list_events_after (unwrap_or (mg_last_reported_event_id managed) 0) max_report_events) (\<lambda>events.
     db_ret \<lparr> br_settings = settings (length profiles) (length clients), br_clients = take max_report_clients clients,
              br_events = map (event_report uuid_parse) events \<rparr>)))"

definition serialize_boot_report_body :: "'x boot_report writer \<Rightarrow> 'x boot_report \<Rightarrow> str" where
  "serialize_boot_report_body to_writer body = concat (to_writer body)"

definition boot_report_body_fits :: "'x boot_report writer \<Rightarrow> 'x boot_report \<Rightarrow> nat \<Rightarrow> bool" where
  "boot_report_body_fits to_writer body max_bytes = (length (serialize_boot_report_body to_writer body) \<le> max_bytes)"

definition fit_boot_report_body :: "'x boot_report writer \<Rightarrow> 'x boot_report \<Rightarrow> nat \<Rightarrow> ('x boot_report \<times> str) sync_result" where
  "fit_boot_report_body to_writer body max_bytes =
     (if length (serialize_boot_report_body to_writer body) \<le> max_bytes
      then Inr (body, serialize_boot_report_body to_writer body)
      else
        let clients_len = max_fitting_prefix_len (length (br_clients body)) (\<lambda>count.
              boot_report_body_fits to_writer (body \<lparr> br_clients := take count (br_clients body) \<rparr>) max_bytes);
            body = body \<lparr> br_clients := take clients_len (br_clients body) \<rparr>;
            body = (if max_bytes < length (serialize_boot_report_body to_writer body)
                    then let events_len = max_fitting_prefix_len (length (br_events body)) (\<lambda>count.
                               boot_report_body_fits to_writer (body \<lparr> br_events := take count (br_events body) \<rparr>) max_bytes)
                         in body \<lparr> br_events := take events_len (br_events body) \<rparr>
                    else body)
        in if max_bytes < length (serialize_boot_report_body to_writer body)
           then Inl (Bail (''managed boot report base body exceeded '' @ nat_to_str max_bytes @ '' bytes''))
           else Inr (body, serialize_boot_report_body to_writer body))"

definition max_event_id :: "boot_event_report list \<Rightarrow> int option" where
  "max_event_id events = (if events = [] then None else Some (Max (set (map ber_source_event_id events))))"

definition report_boot_state ::
  "(str \<Rightarrow> str option) \<Rightarrow> 'x boot_report writer \<Rightarrow> (str \<Rightarrow> str \<Rightarrow> unit sync_result) \<Rightarrow> (nat \<Rightarrow> nat \<Rightarrow> 'x) \<Rightarrow> store \<Rightarrow>
     (managed_state, sync_error, unit) edb" where
  "report_boot_state uuid_parse to_writer respond settings s =
     db_bind (db_get (\<lambda>managed. fst (boot_report_body uuid_parse settings managed s))) (\<lambda>body.
     db_bind (db_lift (from_app body)) (\<lambda>body.
     db_bind (db_lift (fit_boot_report_body to_writer body max_boot_report_body_bytes)) (\<lambda>(body, body_bytes).
     db_bind (db_get managed_device_id) (\<lambda>device. db_bind (db_lift device) (\<lambda>device_id.
     db_then (db_lift (respond (''/v1/agent/devices/'' @ device_id @ ''/boot/report'') body_bytes))
     (\<lambda>managed. (Inr (), case max_event_id (br_events body) of
                           Some i \<Rightarrow> managed \<lparr> mg_last_reported_event_id := Some i \<rparr> | None \<Rightarrow> managed)))))))"

section \<open>Trimming keeps what fits\<close>

declare trim_group.simps [simp del] trim_workstation_multicast_reports.simps [simp del]

lemma write_pieces_is_ok:
  "is_ok (write_pieces pieces w) \<longleftrightarrow>
     (let total = sw_written w + length (concat pieces)
      in concat pieces = [] \<or> total < 2 ^ 64 \<and> total \<le> sw_max_bytes w)"
proof (induction pieces arbitrary: w)
  case (Cons piece pieces)
  then show ?case
    by (cases "piece = []"; cases "concat pieces = []")
       (auto simp: size_write_def Let_def result_simps simp del: concat_eq_Nil_conv)
qed simp

lemma fits_iff:
  assumes "max_bytes < 2 ^ 64"
  shows "nest_report_body_fits to_writer body max_bytes \<longleftrightarrow> length (serialize_nest_report_body to_writer body) \<le> max_bytes"
  using assms
  by (cases "concat (to_writer body) = []")
     (auto simp: nest_report_body_fits_def serialize_nest_report_body_def write_pieces_is_ok Let_def simp del: concat_eq_Nil_conv)

lemma prefix_search:
  obtains r where "while_option prefix_guard (prefix_step fits) (0, len) = Some (r, r)"
    "max_fitting_prefix_len len fits = r" "r \<le> len" "r = 0 \<or> fits r" "r = len \<or> \<not> fits (Suc r)"
proof -
  let ?inv = "\<lambda>(low, high). low \<le> high \<and> high \<le> len \<and> (low = 0 \<or> fits low) \<and> (high = len \<or> \<not> fits (Suc high))"
  have step: "?inv (prefix_step fits s) \<and> (\<lambda>(low, high). high - low) (prefix_step fits s) < (\<lambda>(low, high). high - low) s"
    if "?inv s" "prefix_guard s" for s
    using that by (cases s) (auto simp: prefix_guard_def prefix_step_def Let_def)
  have start: "?inv (0, len)" by simp
  obtain t where t: "while_option prefix_guard (prefix_step fits) (0, len) = Some t"
    using measure_while_option_Some [of ?inv prefix_guard "prefix_step fits", OF step start] by blast
  have inv: "?inv t" by (rule while_option_rule [where P = ?inv, OF step [THEN conjunct1] t start])
  obtain low high where lh: "t = (low, high)" by (cases t)
  have "\<not> prefix_guard t" using while_option_stop [OF t] .
  with inv have "high = low" by (auto simp: lh prefix_guard_def)
  with t lh inv show thesis
    by (intro that [of low]) (simp_all add: max_fitting_prefix_len_def while_def)
qed

text \<open>What trimming may remove: whole jobs, the end of the artifacts (then the list is not complete),
  the end of the multicast events, and the findings.\<close>

definition events_of :: "'x nest_report \<Rightarrow> (int \<times> 'x) list" where
  "events_of body = (case nr_workstation_multicast body of None \<Rightarrow> [] | Some r \<Rightarrow> mr_events r)"

definition trimmed :: "'x nest_report \<Rightarrow> 'x nest_report \<Rightarrow> bool" where
  "trimmed body body' \<longleftrightarrow>
     subseq (nr_build_jobs body') (nr_build_jobs body) \<and>
     prefix (nr_cache_artifacts body') (nr_cache_artifacts body) \<and>
     (nr_cache_artifacts_complete body' \<longrightarrow> nr_cache_artifacts_complete body \<and> nr_cache_artifacts body' = nr_cache_artifacts body) \<and>
     prefix (events_of body') (events_of body) \<and>
     map_option mr_report_instance_id (nr_workstation_multicast body') = map_option mr_report_instance_id (nr_workstation_multicast body) \<and>
     (nr_software_update_findings body' = None \<or> nr_software_update_findings body' = nr_software_update_findings body) \<and>
     nr_protocol_version body' = nr_protocol_version body \<and> nr_cache body' = nr_cache body \<and>
     nr_cache_inventory_instance_id body' = nr_cache_inventory_instance_id body \<and>
     nr_cache_inventory_generation body' = nr_cache_inventory_generation body \<and> nr_lanes body' = nr_lanes body"

lemma trimmed_refl [intro]: "trimmed body body"
  by (simp add: trimmed_def)

lemma trimmed_trans [trans]:
  assumes "trimmed a b" "trimmed b c"
  shows "trimmed a c"
  using assms subseq_order.order_trans [of "nr_build_jobs c" "nr_build_jobs b" "nr_build_jobs a"]
    prefix_order.order_trans [of "nr_cache_artifacts c" "nr_cache_artifacts b" "nr_cache_artifacts a"]
    prefix_order.order_trans [of "events_of c" "events_of b" "events_of a"]
  unfolding trimmed_def by auto

lemma remove_at_subseq: "subseq (remove_at i xs) xs"
proof (cases "i < length xs")
  case True
  then have "xs = take i xs @ [xs ! i] @ drop (Suc i) xs" by (simp add: id_take_nth_drop)
  then show ?thesis unfolding remove_at_def by (metis subseq_order.order_refl list_emb_append_mono list_emb_append2 append_Cons append_Nil list_emb_Cons)
qed (simp add: remove_at_def)

lemma rposition_None: "rposition p xs = None \<longleftrightarrow> (\<forall>x \<in> set xs. \<not> p x)"
  by (induction xs) (auto split: option.splits)

text \<open>A trimming step: it leaves a body that fits alone; otherwise the result fits or satisfies \<open>Q\<close>.\<close>

definition trims :: "('x nest_report \<Rightarrow> bool) \<Rightarrow> ('x nest_report \<Rightarrow> bool) \<Rightarrow> ('x nest_report \<Rightarrow> 'x nest_report) \<Rightarrow> bool" where
  "trims fits Q f \<longleftrightarrow> (\<forall>b. trimmed b (f b) \<and> (fits b \<longrightarrow> f b = b) \<and> (fits (f b) \<or> Q (f b)))"

lemma trims_comp:
  assumes "trims fits Q f" "trims fits R g" and "\<And>b c. trimmed b c \<Longrightarrow> Q b \<Longrightarrow> Q c"
  shows "trims fits (\<lambda>b. Q b \<and> R b) (\<lambda>b. g (f b))"
  unfolding trims_def
proof (intro allI conjI impI)
  fix b
  note f = assms(1) [unfolded trims_def, rule_format, of b] and g = assms(2) [unfolded trims_def, rule_format, of "f b"]
  show "trimmed b (g (f b))" using f g trimmed_trans by blast
  show "g (f b) = b" if "fits b" using f g that by auto
  show "fits (g (f b)) \<or> Q (g (f b)) \<and> R (g (f b))" using f g assms(3) by metis
qed

definition no_job :: "(job_report \<Rightarrow> bool) \<Rightarrow> 'x nest_report \<Rightarrow> bool" where
  "no_job p body = (\<forall>job \<in> set (nr_build_jobs body). \<not> p job)"

lemma trim_group_trims: "trims fits (no_job p) (trim_group fits p)"
  unfolding trims_def
proof (intro allI conjI impI)
  fix b
  show "trimmed b (trim_group fits p b)"
  proof (induction fits p b rule: trim_group.induct)
    case (1 fits p body)
    show ?case
    proof (cases "fits body \<or> rposition p (nr_build_jobs body) = None")
      case True
      then show ?thesis by (subst trim_group.simps) auto
    next
      case False
      then obtain i where i: "rposition p (nr_build_jobs body) = Some i" by auto
      let ?b = "body \<lparr> nr_build_jobs := remove_at i (nr_build_jobs body) \<rparr>"
      have "trimmed body ?b" by (simp add: trimmed_def events_of_def remove_at_subseq)
      also have "trimmed ?b (trim_group fits p ?b)" using 1 False i by blast
      finally show ?thesis using False i by (subst trim_group.simps) simp
    qed
  qed
  show "fits b \<Longrightarrow> trim_group fits p b = b" by (subst trim_group.simps) simp
  show "fits (trim_group fits p b) \<or> no_job p (trim_group fits p b)"
  proof (induction fits p b rule: trim_group.induct)
    case (1 fits p body)
    show ?case
    proof (cases "fits body \<or> rposition p (nr_build_jobs body) = None")
      case True
      then have "trim_group fits p body = body" by (subst trim_group.simps) auto
      with True show ?thesis by (auto simp: no_job_def rposition_None)
    next
      case False
      with 1 show ?thesis by (auto simp: trim_group.simps [of fits p body])
    qed
  qed
qed

lemma trim_multicast_trims: "trims fits (\<lambda>b. events_of b = []) (trim_workstation_multicast_reports fits)"
  unfolding trims_def
proof (intro allI conjI impI)
  fix b
  show "trimmed b (trim_workstation_multicast_reports fits b)"
  proof (induction fits b rule: trim_workstation_multicast_reports.induct)
    case (1 fits body)
    show ?case
    proof (cases "fits body \<or> events_of body = []")
      case True
      then show ?thesis
        by (subst trim_workstation_multicast_reports.simps) (auto simp: events_of_def split: option.splits)
    next
      case False
      then obtain r where r: "nr_workstation_multicast body = Some r" "mr_events r \<noteq> []"
        by (auto simp: events_of_def split: option.splits)
      let ?b = "body \<lparr> nr_workstation_multicast := Some (r \<lparr> mr_events := butlast (mr_events r) \<rparr>) \<rparr>"
      have "trimmed body ?b" by (simp add: trimmed_def events_of_def r(1) prefixeq_butlast)
      also have "trimmed ?b (trim_workstation_multicast_reports fits ?b)" using 1 False r by blast
      finally show ?thesis using False r by (subst trim_workstation_multicast_reports.simps) simp
    qed
  qed
  show "fits b \<Longrightarrow> trim_workstation_multicast_reports fits b = b"
    by (subst trim_workstation_multicast_reports.simps) simp
  show "fits (trim_workstation_multicast_reports fits b) \<or> events_of (trim_workstation_multicast_reports fits b) = []"
  proof (induction fits b rule: trim_workstation_multicast_reports.induct)
    case (1 fits body)
    show ?case
    proof (cases "fits body \<or> events_of body = []")
      case True
      then have "trim_workstation_multicast_reports fits body = body"
        by (subst trim_workstation_multicast_reports.simps) (auto simp: events_of_def split: option.splits)
      with True show ?thesis by auto
    next
      case False
      then obtain r where r: "nr_workstation_multicast body = Some r" "mr_events r \<noteq> []"
        by (auto simp: events_of_def split: option.splits)
      with 1 False show ?thesis by (simp add: trim_workstation_multicast_reports.simps [of fits body])
    qed
  qed
qed

lemma trim_cache_trims: "trims fits (\<lambda>b. nr_cache_artifacts b = []) (trim_cache_artifact_reports fits)"
  unfolding trims_def
proof (intro allI conjI impI)
  fix b
  obtain r where r: "max_fitting_prefix_len (length (nr_cache_artifacts b)) (\<lambda>count.
      fits (b \<lparr> nr_cache_artifacts := take count (nr_cache_artifacts b), nr_cache_artifacts_complete := False \<rparr>)) = r"
    "r = 0 \<or> fits (b \<lparr> nr_cache_artifacts := take r (nr_cache_artifacts b), nr_cache_artifacts_complete := False \<rparr>)"
    by (rule prefix_search)
  show "trimmed b (trim_cache_artifact_reports fits b)"
    by (simp add: trim_cache_artifact_reports_def Let_def trimmed_def events_of_def take_is_prefix)
  show "fits b \<Longrightarrow> trim_cache_artifact_reports fits b = b" by (simp add: trim_cache_artifact_reports_def)
  show "fits (trim_cache_artifact_reports fits b) \<or> nr_cache_artifacts (trim_cache_artifact_reports fits b) = []"
    using r by (auto simp: trim_cache_artifact_reports_def Let_def)
qed

lemma subseq_subset: "subseq xs ys \<Longrightarrow> set xs \<subseteq> set ys"
  by (induction rule: list_emb.induct) auto

lemma trimmed_no_job: "trimmed b c \<Longrightarrow> no_job p b \<Longrightarrow> no_job p c"
  unfolding trimmed_def no_job_def using subseq_subset by blast

lemma trimmed_gone:
  assumes "trimmed b c"
  shows "nr_build_jobs b = [] \<Longrightarrow> nr_build_jobs c = []" "nr_cache_artifacts b = [] \<Longrightarrow> nr_cache_artifacts c = []"
    "events_of b = [] \<Longrightarrow> events_of c = []" "nr_software_update_findings b = None \<Longrightarrow> nr_software_update_findings c = None"
  using assms by (auto simp: trimmed_def)

lemmas group_trims = trim_ordinary_terminal_reports_def trim_active_build_reports_def trim_rejected_build_reports_def

lemma trims_weaken: "trims fits Q f \<Longrightarrow> (\<And>b. Q b \<Longrightarrow> R b) \<Longrightarrow> trims fits R f"
  by (auto simp: trims_def)

lemma three_groups_trims:
  assumes "\<And>job. p job \<or> q job \<or> r job"
  shows "trims fits (\<lambda>b. nr_build_jobs b = []) (\<lambda>b. trim_group fits r (trim_group fits q (trim_group fits p b)))"
proof -
  have "trims fits (\<lambda>b. (no_job p b \<and> no_job q b) \<and> no_job r b)
      (\<lambda>b. trim_group fits r (trim_group fits q (trim_group fits p b)))"
    by (intro trims_comp [OF trims_comp [OF trim_group_trims trim_group_trims] trim_group_trims]) (auto dest: trimmed_no_job)
  then show ?thesis
  proof (rule trims_weaken)
    show "nr_build_jobs b = []" if "(no_job p b \<and> no_job q b) \<and> no_job r b" for b :: "'a nest_report"
      using that assms unfolding no_job_def by (cases "nr_build_jobs b") auto
  qed
qed

lemma trim_by_priority_trims:
  "trims fits (\<lambda>b. nr_build_jobs b = [] \<and> nr_cache_artifacts b = []) (trim_by_priority fits priority)"
proof -
  let ?t = "\<lambda>job. nest_build_job_is_terminal job \<and> jrep_rejection_code job = None"
  let ?a = "\<lambda>job. \<not> nest_build_job_is_terminal job" and ?r = "\<lambda>job. jrep_rejection_code job \<noteq> None"
  note c = trim_cache_trims [of fits] and g = trim_group_trims [of fits]
  have final: "nr_build_jobs b = [] \<and> nr_cache_artifacts b = []"
    if "no_job ?t b" "no_job ?a b" "no_job ?r b" "nr_cache_artifacts b = []" for b :: "'a nest_report"
    using that unfolding no_job_def by (cases "nr_build_jobs b") auto
  note keep = trimmed_no_job trimmed_gone(2)
  show ?thesis
  proof (cases priority)
    case ActiveBuilds
    have "trims fits (\<lambda>b. ((no_job ?t b \<and> nr_cache_artifacts b = []) \<and> no_job ?r b) \<and> no_job ?a b) (trim_by_priority fits priority)"
      unfolding ActiveBuilds trim_by_priority.simps [abs_def] group_trims
      by (intro trims_comp [OF trims_comp [OF trims_comp [OF g c] g] g]) (auto intro: keep)
    then show ?thesis by (rule trims_weaken) (use final in blast)
  next
    case TerminalBuilds
    have "trims fits (\<lambda>b. ((nr_cache_artifacts b = [] \<and> no_job ?a b) \<and> no_job ?r b) \<and> no_job ?t b) (trim_by_priority fits priority)"
      unfolding TerminalBuilds trim_by_priority.simps [abs_def] group_trims
      by (intro trims_comp [OF trims_comp [OF trims_comp [OF c g] g] g]) (auto intro: keep)
    then show ?thesis by (rule trims_weaken) (use final in blast)
  next
    case RejectedBuilds
    have "trims fits (\<lambda>b. ((no_job ?t b \<and> nr_cache_artifacts b = []) \<and> no_job ?a b) \<and> no_job ?r b) (trim_by_priority fits priority)"
      unfolding RejectedBuilds trim_by_priority.simps [abs_def] group_trims
      by (intro trims_comp [OF trims_comp [OF trims_comp [OF g c] g] g]) (auto intro: keep)
    then show ?thesis by (rule trims_weaken) (use final in blast)
  next
    case CacheArtifacts
    have "trims fits (\<lambda>b. ((no_job ?t b \<and> no_job ?a b) \<and> no_job ?r b) \<and> nr_cache_artifacts b = []) (trim_by_priority fits priority)"
      unfolding CacheArtifacts trim_by_priority.simps [abs_def] group_trims
      by (intro trims_comp [OF trims_comp [OF trims_comp [OF g g] g] c]) (auto intro: keep)
    then show ?thesis by (rule trims_weaken) (use final in blast)
  qed
qed

text \<open>The steps before the trimming by priority.\<close>

definition trim_lanes :: "('x nest_report \<Rightarrow> bool) \<Rightarrow> 'x nest_report \<Rightarrow> 'x nest_report" where
  "trim_lanes fits body =
     trim_workstation_multicast_reports fits (if fits body then body else body \<lparr> nr_software_update_findings := None \<rparr>)"

lemma trim_lanes_trims: "trims fits (\<lambda>b. nr_software_update_findings b = None \<and> events_of b = []) (trim_lanes fits)"
proof -
  have "trims fits (\<lambda>b. nr_software_update_findings b = None)
      (\<lambda>b. if fits b then b else b \<lparr> nr_software_update_findings := None \<rparr>)"
    by (auto simp: trims_def trimmed_def events_of_def)
  from trims_comp [OF this trim_multicast_trims] show ?thesis
    unfolding trim_lanes_def [abs_def] by (auto simp: trimmed_def)
qed

definition stripped :: "'x nest_report \<Rightarrow> bool" where
  "stripped b \<longleftrightarrow> nr_build_jobs b = [] \<and> nr_software_update_findings b = None \<and> events_of b = []"

lemma trim_all_trims:
  "trims fits (\<lambda>b. stripped b \<and> nr_cache_artifacts b = []) (\<lambda>b. trim_by_priority fits priority (trim_lanes fits b))"
  by (rule trims_weaken [OF trims_comp [OF trim_lanes_trims trim_by_priority_trims]]) (auto simp: stripped_def trimmed_gone)

lemma fit_nest_report_body_eq:
  "fit_nest_report_body to_writer body max_bytes priority =
     (let fits = (\<lambda>b. nest_report_body_fits to_writer b max_bytes);
          body' = (if fits body then body else trim_by_priority fits priority (trim_lanes fits (clear_logs body)))
      in if fits body' then Inr (body', serialize_nest_report_body to_writer body')
         else Inl (Bail (''managed nest report base body exceeded '' @ nat_to_str max_bytes @ '' bytes'')))"
  by (simp add: fit_nest_report_body_def trim_lanes_def Let_def)

text \<open>C23: a report that is sent fits the size of a request; it is the whole report when that fits, and
  otherwise lacks only logs, findings, multicast events, build jobs and the end of the artifact list,
  which is then no longer called complete. Only a report with none of these left that still exceeds
  the size is an error.\<close>

theorem fit_nest_report_body_spec:
  assumes "max_bytes < 2 ^ 64"
  shows "case fit_nest_report_body to_writer body max_bytes priority of
      Inr (body', bytes) \<Rightarrow>
        bytes = serialize_nest_report_body to_writer body' \<and> length bytes \<le> max_bytes \<and>
        (if length (serialize_nest_report_body to_writer body) \<le> max_bytes then body' = body
         else trimmed (clear_logs body) body')
    | Inl e \<Rightarrow>
        \<exists>b. trimmed (clear_logs body) b \<and> stripped b \<and> nr_cache_artifacts b = [] \<and>
            max_bytes < length (serialize_nest_report_body to_writer b)"
proof -
  let ?fits = "\<lambda>b. nest_report_body_fits to_writer b max_bytes"
  let ?b = "trim_by_priority ?fits priority (trim_lanes ?fits (clear_logs body))"
  have t: "trimmed (clear_logs body) ?b" "?fits ?b \<or> stripped ?b \<and> nr_cache_artifacts ?b = []"
    using trim_all_trims [of ?fits priority] unfolding trims_def by blast+
  note fits = fits_iff [OF assms, of to_writer]
  show ?thesis
  proof (cases "?fits body")
    case True
    then show ?thesis by (simp add: fit_nest_report_body_eq Let_def fits)
  next
    case False
    then show ?thesis
      using t by (cases "?fits ?b") (auto simp: fit_nest_report_body_eq Let_def fits not_le)
  qed
qed

text \<open>C26: the search for the longest prefix that fits ends, with a prefix that fits (or none) and whose
  extension by one does not; if every shorter prefix of a fitting one fits, it is the longest.\<close>

theorem max_fitting_prefix_len_spec:
  "\<exists>r. while_option prefix_guard (prefix_step fits) (0, len) = Some (r, r) \<and> max_fitting_prefix_len len fits = r \<and>
     r \<le> len \<and> (r = 0 \<or> fits r) \<and> (r = len \<or> \<not> fits (Suc r)) \<and>
     ((\<forall>i j. i \<le> j \<longrightarrow> fits j \<longrightarrow> fits i) \<longrightarrow> (\<forall>k \<le> len. fits k \<longrightarrow> k \<le> r))"
proof (rule prefix_search [of fits len])
  fix r
  assume r: "while_option prefix_guard (prefix_step fits) (0, len) = Some (r, r)" "max_fitting_prefix_len len fits = r"
    "r \<le> len" "r = 0 \<or> fits r" "r = len \<or> \<not> fits (Suc r)"
  moreover have "k \<le> r" if mono: "\<forall>i j. i \<le> j \<longrightarrow> fits j \<longrightarrow> fits i" and k: "k \<le> len" "fits k" for k
    using r(5) k mono not_less_eq_eq by blast
  ultimately show ?thesis by blast
qed

section \<open>Fair selection\<close>

text \<open>\<open>taken\<close> has \<open>r + 1\<close> of each group in \<open>ahead\<close> and \<open>r\<close> of the others, as far as they have them.\<close>

definition shares :: "nat list \<Rightarrow> nat \<Rightarrow> nat set \<Rightarrow> nat list" where
  "shares lengths r ahead = map (\<lambda>g. min (if g \<in> ahead then Suc r else r) (lengths ! g)) [0..<3]"

lemma shares_update:
  assumes "g < 3" "g \<notin> ahead"
  shows "shares lengths r (insert g ahead) = (shares lengths r ahead)[g := min (Suc r) (lengths ! g)]"
  using assms by (intro nth_equalityI) (auto simp: shares_def nth_list_update)

lemma shares_sum_update:
  assumes "g < 3" "g \<notin> ahead"
  shows "sum_list (shares lengths r (insert g ahead)) = sum_list (shares lengths r ahead) + (if r < lengths ! g then 1 else 0)"
proof -
  have g: "g = 0 \<or> g = 1 \<or> g = 2" using assms(1) by auto
  then show ?thesis using assms(2) by (auto simp: shares_def upt_rec min_def)
qed

lemma select_pass_shares:
  assumes "distinct gs" "set gs \<subseteq> {0..<3}" "set gs \<inter> ahead = {}" "sum_list (shares lengths r ahead) \<le> max_reports"
  shows "\<exists>k \<le> length gs. let now = ahead \<union> set (take k gs)
      in select_pass lengths max_reports gs (shares lengths r ahead, sum_list (shares lengths r ahead), progressed) =
           (shares lengths r now, sum_list (shares lengths r now), progressed \<or> (\<exists>g \<in> set (take k gs). r < lengths ! g)) \<and>
         sum_list (shares lengths r now) \<le> max_reports \<and>
         (k = length gs \<or> sum_list (shares lengths r now) = max_reports)"
  using assms
proof (induction gs arbitrary: ahead progressed)
  case (Cons g gs)
  let ?s = "shares lengths r ahead"
  have g: "g < 3" "g \<notin> ahead" using Cons.prems by auto
  then have nth: "?s ! g = min r (lengths ! g)" by (simp add: shares_def)
  show ?case
  proof (cases "sum_list ?s = max_reports")
    case True
    then show ?thesis by (intro exI [of _ 0]) simp
  next
    case False
    let ?now = "insert g ahead"
    have le: "sum_list (shares lengths r ?now) \<le> max_reports"
      using shares_sum_update [OF g, of lengths r] Cons.prems(4) False by (auto split: if_splits)
    have step: "select_pass lengths max_reports (g # gs) (?s, sum_list ?s, progressed) =
        select_pass lengths max_reports gs (shares lengths r ?now, sum_list (shares lengths r ?now), progressed \<or> r < lengths ! g)"
    proof (cases "r < lengths ! g")
      case True
      then show ?thesis using False nth shares_update [OF g, of lengths r] shares_sum_update [OF g, of lengths r] by (simp add: min_def)
    next
      case lg: False
      then have "min (Suc r) (lengths ! g) = ?s ! g" using nth by simp
      then have "shares lengths r ?now = ?s" by (simp add: shares_update [OF g])
      with lg False nth show ?thesis by (auto simp: min_def)
    qed
    have "set gs \<inter> ?now = {}" "distinct gs" "set gs \<subseteq> {0..<3}" using Cons.prems by auto
    from Cons.IH [OF this(2,3,1) le, of "progressed \<or> r < lengths ! g"]
    obtain k where k: "k \<le> length gs" "let now = ?now \<union> set (take k gs)
        in select_pass lengths max_reports gs (shares lengths r ?now, sum_list (shares lengths r ?now), progressed \<or> r < lengths ! g) =
             (shares lengths r now, sum_list (shares lengths r now),
              (progressed \<or> r < lengths ! g) \<or> (\<exists>g \<in> set (take k gs). r < lengths ! g)) \<and>
           sum_list (shares lengths r now) \<le> max_reports \<and> (k = length gs \<or> sum_list (shares lengths r now) = max_reports)"
      by blast
    have "ahead \<union> set (take (Suc k) (g # gs)) = ?now \<union> set (take k gs)" by auto
    with k step show ?thesis by (intro exI [of _ "Suc k"]) (simp add: Let_def disj_assoc)
  qed
qed (simp add: Let_def)

lemma shares_exhausted:
  assumes "length lengths = 3"
  shows "sum_list (shares lengths r ahead) \<le> sum_list lengths" "\<forall>g < 3. lengths ! g \<le> r \<Longrightarrow> shares lengths r ahead = lengths"
proof -
  have eq: "lengths = map ((!) lengths) [0..<3]" using assms map_nth [of lengths] by simp
  have "sum_list (shares lengths r ahead) \<le> sum_list (map ((!) lengths) [0..<3])"
    unfolding shares_def by (intro sum_list_mono) simp
  then show "sum_list (shares lengths r ahead) \<le> sum_list lengths" using eq by simp
  assume "\<forall>g < 3. lengths ! g \<le> r"
  then show "shares lengths r ahead = lengths"
    using assms by (intro nth_equalityI) (auto simp: shares_def min_def not_le)
qed

lemma shares_all: "shares lengths r {0..<3} = shares lengths (Suc r) {}"
  by (simp add: shares_def)

lemma shares_ahead:
  assumes "A \<subseteq> {0..<3}"
  shows "\<not> (\<exists>g \<in> A. r < lengths ! g) \<Longrightarrow> shares lengths r A = shares lengths r {}"
    and "\<exists>g \<in> A. r < lengths ! g \<Longrightarrow> sum_list (shares lengths r {}) < sum_list (shares lengths r A)"
proof -
  show "shares lengths r A = shares lengths r {}" if "\<not> (\<exists>g \<in> A. r < lengths ! g)"
    using that by (auto simp: shares_def not_less min_def)
  assume "\<exists>g \<in> A. r < lengths ! g"
  then obtain g where g: "g \<in> A" "r < lengths ! g" by blast
  then have "g = 0 \<or> g = 1 \<or> g = 2" using assms by auto
  with g show "sum_list (shares lengths r {}) < sum_list (shares lengths r A)"
    by (elim disjE) (auto simp: shares_def upt_rec numeral_2_eq_2 intro!: add_less_le_mono add_le_less_mono add_mono)
qed

lemma select_counts_shares:
  assumes "distinct order" "set order = {0..<3}" "length lengths = 3"
  shows "\<exists>r k. select_counts lengths max_reports order = shares lengths r (set (take k order)) \<and>
    sum_list (select_counts lengths max_reports order) = min max_reports (sum_list lengths)"
proof -
  let ?guard = "\<lambda>(taken, selected, stop). selected < max_reports \<and> \<not> stop"
  let ?body = "\<lambda>(taken, selected, stop). case select_pass lengths max_reports order (taken, selected, False) of
      (taken, selected, progressed) \<Rightarrow> (taken, selected, \<not> progressed)"
  let ?inv = "\<lambda>(taken, selected, stop). selected = sum_list taken \<and> selected \<le> max_reports \<and>
      (if stop then taken = lengths \<and> (\<exists>r. taken = shares lengths r {})
       else (\<exists>r. taken = shares lengths r {}) \<or> selected = max_reports \<and> (\<exists>r k. taken = shares lengths r (set (take k order))))"
  let ?Q = "\<lambda>s. \<exists>r k. fst s = shares lengths r (set (take k order)) \<and> sum_list (fst s) = min max_reports (sum_list lengths)"
  let ?m = "\<lambda>(taken, selected, stop). if stop then 0 else Suc (max_reports - selected)"
  have bound: "sum_list (shares lengths r A) \<le> sum_list lengths" for r A using shares_exhausted(1) [OF assms(3)] .
  have none: "\<exists>q k. shares lengths r {} = shares lengths q (set (take k order))" for r
    by (intro exI [of _ r] exI [of _ 0]) simp
  have step: "?inv (?body s) \<and> (?body s, s) \<in> measure ?m" if inv: "?inv s" and guard: "?guard s" for s
  proof -
    obtain taken selected where s: "s = (taken, selected, False)" using guard by (cases s) auto
    then obtain r where t: "taken = shares lengths r {}" and sel: "selected = sum_list taken" "selected < max_reports"
      using inv guard by auto
    obtain k where k: "k \<le> length order" and pass: "select_pass lengths max_reports order (taken, selected, False) =
        (shares lengths r (set (take k order)), sum_list (shares lengths r (set (take k order))),
          \<exists>g \<in> set (take k order). r < lengths ! g)"
      and le: "sum_list (shares lengths r (set (take k order))) \<le> max_reports"
      and last: "k = length order \<or> sum_list (shares lengths r (set (take k order))) = max_reports"
      using select_pass_shares [of order "{}" lengths r max_reports False] assms sel t by (auto simp: Let_def)
    let ?A = "set (take k order)"
    have A: "?A \<subseteq> {0..<3}" using assms(2) set_take_subset [of k order] by simp
    show ?thesis
    proof (cases "\<exists>g \<in> ?A. r < lengths ! g")
      case True
      have "?body s = (shares lengths r ?A, sum_list (shares lengths r ?A), False)" using True pass by (simp add: s)
      moreover have "\<exists>q. shares lengths r ?A = shares lengths q {}" if "k = length order"
        using that shares_all [of lengths r] assms(2) by auto
      ultimately show ?thesis using last le True shares_ahead(2) [OF A True] sel t by (auto simp: s)
    next
      case False
      note same = shares_ahead(1) [OF A False]
      have "k = length order" using last sel t same by auto
      then have "shares lengths r {} = lengths" using False assms(2,3) by (intro shares_exhausted(2)) (auto simp: not_less)
      then show ?thesis using False pass le by (auto simp: s same intro: exI [of _ r])
    qed
  qed
  have "?Q (while ?guard ?body ([0, 0, 0], 0, False))"
  proof (rule while_rule [where P = ?inv and r = "measure ?m"])
    show "?inv ([0, 0, 0], 0, False)" by (auto simp: shares_def upt_rec intro!: exI [of _ 0])
    show "?Q s" if inv: "?inv s" and stop: "\<not> ?guard s" for s
    proof -
      obtain taken selected b where s: "s = (taken, selected, b)" by (cases s)
      have "(\<exists>r. taken = shares lengths r {}) \<or> (\<exists>r k. taken = shares lengths r (set (take k order)))"
        using inv unfolding s by (simp split: if_splits) blast+
      then obtain r k where "fst s = shares lengths r (set (take k order))"
        unfolding s fst_conv using none by blast
      moreover have "sum_list (fst s) = min max_reports (sum_list lengths)"
        using inv stop bound by (cases s) (auto simp: min_def split: if_splits)
      ultimately show ?thesis by blast
    qed
  next
    show "?inv (?body s)" if "?inv s" "?guard s" for s by (rule conjunct1 [OF step [OF that]])
    show "(?body s, s) \<in> measure ?m" if "?inv s" "?guard s" for s by (rule conjunct2 [OF step [OF that]])
  qed simp
  then show ?thesis unfolding select_counts_def .
qed

lemma build_group_order_set: "distinct (build_group_order priority)" "set (build_group_order priority) = {0..<3}"
  by (cases priority; auto)+

text \<open>The rotation is the order of the query: below the cursor first, then the rest, each descending.\<close>

definition wrap_after :: "int option \<Rightarrow> int \<Rightarrow> nat" where
  "wrap_after cursor i = (case cursor of None \<Rightarrow> 0 | Some c \<Rightarrow> if i < c then 0 else 1)"

lemma dropWhile_sorted_below:
  assumes "sorted (map (\<lambda>x. - local_id x) ys)" "x \<in> set (dropWhile (\<lambda>x. (c :: int) \<le> local_id x) ys)"
  shows "local_id x < c"
  using assms by (induction ys) (auto split: if_splits)

lemma rotate_is_sort:
  "rotate_report_items_after_cursor items cursor local_id = sort_key (\<lambda>x. (wrap_after cursor (local_id x), - local_id x)) items"
proof (cases cursor)
  case None
  have "sort_key (\<lambda>x. (0 :: nat, - local_id x)) items = sort_key (\<lambda>x. - local_id x) items"
  proof (rule properties_for_sort_key)
    have cls: "(\<lambda>y. (0 :: nat, - local_id k) = (0, - local_id y)) = (\<lambda>y. - local_id y = - local_id k)" for k by auto
    show "filter (\<lambda>y. (0 :: nat, - local_id k) = (0, - local_id y)) (sort_key (\<lambda>x. - local_id x) items) =
        filter (\<lambda>y. (0 :: nat, - local_id k) = (0, - local_id y)) items" for k
      unfolding cls by (rule sort_key_stable)
    show "sorted (map (\<lambda>x. (0 :: nat, - local_id x)) (sort_key (\<lambda>x. - local_id x) items))"
      unfolding sorted_map by (rule sorted_wrt_mono_rel [OF _ sorted_sort_key [unfolded sorted_map]]) (simp add: less_eq_prod_def)
  qed simp
  then show ?thesis by (simp add: None rotate_report_items_after_cursor_def wrap_after_def)
next
  case (Some c)
  define ys where "ys = sort_key (\<lambda>x. - local_id x) items"
  let ?p = "\<lambda>x. c \<le> local_id x" and ?key = "\<lambda>x. (wrap_after cursor (local_id x), - local_id x)"
  let ?zs = "dropWhile ?p ys @ takeWhile ?p ys"
  have sorted: "sorted (map (\<lambda>x. - local_id x) ys)" by (simp add: ys_def)
  have parts: "take (length (takeWhile ?p ys)) ys = takeWhile ?p ys" "drop (length (takeWhile ?p ys)) ys = dropWhile ?p ys"
    by (rule takeWhile_eq_take [symmetric], rule dropWhile_eq_drop [symmetric])
  have rot: "rotate_report_items_after_cursor items cursor local_id = ?zs"
  proof (cases "length (takeWhile ?p ys) < length ys")
    case True
    then show ?thesis
      using parts by (simp add: rotate_report_items_after_cursor_def Some Let_def partition_point_def ys_def [symmetric] rotate_drop_take)
  next
    case False
    then have "?zs = ys" using parts by simp
    with False show ?thesis
      by (simp only: rotate_report_items_after_cursor_def Some Let_def partition_point_def ys_def [symmetric] option.case if_False)
  qed
  have "sort_key ?key items = ?zs"
  proof (rule properties_for_sort_key)
    have "mset ?zs = mset ys" by (metis add.commute mset_append takeWhile_dropWhile_id)
    then show "mset ?zs = mset items" by (simp add: ys_def)
    show "filter (\<lambda>y. ?key k = ?key y) ?zs = filter (\<lambda>y. ?key k = ?key y) items" if "k \<in> set ?zs" for k
    proof -
      have cls: "(\<lambda>y. ?key k = ?key y) = (\<lambda>y. - local_id y = - local_id k)" by auto
      let ?q = "\<lambda>y. - local_id y = - local_id k"
      have "filter ?q (dropWhile ?p ys) = [] \<or> filter ?q (takeWhile ?p ys) = []"
      proof (cases "?p k")
        case True
        then show ?thesis using dropWhile_sorted_below [OF sorted] by (fastforce simp: filter_empty_conv)
      next
        case False
        then show ?thesis by (auto simp: filter_empty_conv dest: set_takeWhileD)
      qed
      then have "filter ?q ?zs = filter ?q (takeWhile ?p ys) @ filter ?q (dropWhile ?p ys)" by (elim disjE) simp_all
      also have "\<dots> = filter ?q ys" by (simp only: filter_append [symmetric] takeWhile_dropWhile_id)
      also have "\<dots> = filter (\<lambda>y. - local_id y = - local_id k) items" unfolding ys_def by (rule sort_key_stable)
      finally show ?thesis unfolding cls .
    qed
    have "sorted_wrt (\<lambda>x y. - local_id x \<le> - local_id y) ys" using sorted by (simp add: sorted_map)
    then have halves: "sorted_wrt (\<lambda>x y. - local_id x \<le> - local_id y) (dropWhile ?p ys)"
      "sorted_wrt (\<lambda>x y. - local_id x \<le> - local_id y) (takeWhile ?p ys)"
      by (metis sorted_wrt_append takeWhile_dropWhile_id)+
    show "sorted (map ?key ?zs)"
      unfolding sorted_map sorted_wrt_append
    proof (intro conjI ballI)
      show "sorted_wrt (\<lambda>x y. ?key x \<le> ?key y) (dropWhile ?p ys)"
        by (rule sorted_wrt_mono_rel [OF _ halves(1)]) (auto simp: less_eq_prod_def Some wrap_after_def dest: dropWhile_sorted_below [OF sorted])
      show "sorted_wrt (\<lambda>x y. ?key x \<le> ?key y) (takeWhile ?p ys)"
        by (rule sorted_wrt_mono_rel [OF _ halves(2)]) (auto simp: less_eq_prod_def Some wrap_after_def dest: set_takeWhileD)
      show "?key x \<le> ?key y" if "x \<in> set (dropWhile ?p ys)" "y \<in> set (takeWhile ?p ys)" for x y
        using that dropWhile_sorted_below [OF sorted] by (auto simp: less_eq_prod_def Some wrap_after_def dest: set_takeWhileD)
    qed
  qed
  then show ?thesis by (simp add: rot)
qed

lemma rotate_sorted:
  assumes "sorted (map (\<lambda>x. (wrap_after cursor (local_id x), - local_id x)) xs)"
  shows "rotate_report_items_after_cursor xs cursor local_id = xs"
  unfolding rotate_is_sort using assms by (simp add: sorted_sort_id sort_key_id_if_sorted)

lemma mset_rotate [simp]: "mset (rotate_report_items_after_cursor xs cursor local_id) = mset xs"
  by (simp add: rotate_is_sort)

lemma select_as_shares:
  fixes active rejected terminal :: "job_report list"
  assumes "active = rotate_report_items_after_cursor (filter active_group reports) active_cursor jrep_local_id"
    and "rejected = rotate_report_items_after_cursor (filter rejected_group reports) rejection_cursor jrep_local_id"
    and "terminal = rotate_report_items_after_cursor (filter terminal_group reports) terminal_cursor jrep_local_id"
  obtains r k where "select_build_job_reports reports active_cursor rejection_cursor terminal_cursor max_reports priority =
      (let n = shares [length active, length rejected, length terminal] r (set (take k (build_group_order priority)))
       in take (n ! 0) active @ take (n ! 1) rejected @ take (n ! 2) terminal)"
    "sum_list (shares [length active, length rejected, length terminal] r (set (take k (build_group_order priority)))) =
      min max_reports (length reports)"
proof -
  let ?lengths = "[length active, length rejected, length terminal]"
  obtain r k where rk: "select_counts ?lengths max_reports (build_group_order priority) =
      shares ?lengths r (set (take k (build_group_order priority)))"
    "sum_list (select_counts ?lengths max_reports (build_group_order priority)) = min max_reports (sum_list ?lengths)"
    using select_counts_shares [of "build_group_order priority" ?lengths max_reports] build_group_order_set by auto
  have len: "length (rotate_report_items_after_cursor xs c f) = length xs" for xs :: "job_report list" and c f
    by (metis mset_rotate size_mset)
  have "sum_list ?lengths = length reports"
    unfolding assms len
    by (induction reports) (auto simp: active_group_def rejected_group_def terminal_group_def)
  with rk show thesis
    by (intro that [of r k]) (simp_all add: select_build_job_reports_def Let_def assms)
qed

text \<open>C25: the builds of a report are chosen fairly: the report is as long as its bound allows, from each
  group it takes the first ones after the group's cursor, a group that is not exhausted is at most
  one behind any other, and the group with priority in this round is behind none.\<close>

theorem select_build_job_reports_fair:
  "\<exists>n. (let groups = [rotate_report_items_after_cursor (filter active_group reports) active_cursor jrep_local_id,
                     rotate_report_items_after_cursor (filter rejected_group reports) rejection_cursor jrep_local_id,
                     rotate_report_items_after_cursor (filter terminal_group reports) terminal_cursor jrep_local_id];
            selected = select_build_job_reports reports active_cursor rejection_cursor terminal_cursor max_reports priority;
            favoured = hd (build_group_order priority)
        in selected = concat (map (\<lambda>g. take (n g) (groups ! g)) [0, 1, 2]) \<and>
           length selected = min max_reports (length reports) \<and>
           (\<forall>g < 3. n g \<le> length (groups ! g) \<and>
              (\<forall>h < 3. n g < length (groups ! g) \<longrightarrow> n h \<le> n g + (if g = favoured then 0 else 1))))"
proof -
  define a where "a = rotate_report_items_after_cursor (filter active_group reports) active_cursor jrep_local_id"
  define b where "b = rotate_report_items_after_cursor (filter rejected_group reports) rejection_cursor jrep_local_id"
  define c where "c = rotate_report_items_after_cursor (filter terminal_group reports) terminal_cursor jrep_local_id"
  let ?len = "[length a, length b, length c]"
  obtain r k where rk: "select_build_job_reports reports active_cursor rejection_cursor terminal_cursor max_reports priority =
      (let n = shares ?len r (set (take k (build_group_order priority))) in take (n ! 0) a @ take (n ! 1) b @ take (n ! 2) c)"
    "sum_list (shares ?len r (set (take k (build_group_order priority)))) = min max_reports (length reports)"
    by (rule select_as_shares [OF a_def b_def c_def])
  let ?A = "set (take k (build_group_order priority))"
  define n where "n = (\<lambda>g. shares ?len r ?A ! g)"
  have nth: "[a, b, c] ! g = (if g = 0 then a else if g = 1 then b else c)" if "g < 3" for g
    using that by (auto simp: nth_Cons' numeral_2_eq_2)
  have n: "n g = min (if g \<in> ?A then Suc r else r) (length ([a, b, c] ! g))" if "g < 3" for g
    using that by (simp add: n_def shares_def nth)
  have fav: "hd (build_group_order priority) \<in> ?A \<or> ?A = {}" by (cases priority; cases k) auto
  have "n h \<le> n g + (if g = hd (build_group_order priority) then 0 else 1)"
    if "g < 3" "h < 3" "n g < length ([a, b, c] ! g)" for g h
    using that fav n [of g] n [of h] by (auto simp: min_def split: if_splits)
  moreover have "n g \<le> length ([a, b, c] ! g)" if "g < 3" for g using n [OF that] by simp
  moreover have sel: "select_build_job_reports reports active_cursor rejection_cursor terminal_cursor max_reports priority =
      concat (map (\<lambda>g. take (n g) ([a, b, c] ! g)) [0, 1, 2])" using rk(1) by (simp add: n_def Let_def)
  moreover have "length (concat (map (\<lambda>g. take (n g) ([a, b, c] ! g)) [0, 1, 2])) = min max_reports (length reports)"
  proof -
    have "sum_list (shares ?len r ?A) = n 0 + n 1 + n 2" by (simp add: n_def shares_def upt_rec numeral_2_eq_2)
    moreover have "n 0 \<le> length a" "n 1 \<le> length b" "n 2 \<le> length c" using n [of 0] n [of 1] n [of 2] by simp_all
    ultimately show ?thesis using rk(2) by simp
  qed
  ultimately show ?thesis unfolding a_def [symmetric] b_def [symmetric] c_def [symmetric] Let_def by (intro exI [of _ n]) simp
qed

text \<open>In the page of the query every group is a prefix of its rotation.\<close>

lemma filter_ranked_jobs:
  assumes "g \<in> {0, 1, 2}"
  shows "filter (\<lambda>r. report_group r = g) (ranked_jobs ac rc tc round rows) =
    rotated_group (if g = 0 then ac else if g = 1 then rc else tc) g rows"
proof -
  let ?key = "\<lambda>((position, g), r). (position, group_priority round g)"
  let ?tag = "\<lambda>g cursor. map (\<lambda>(i, r). ((i, g), r)) (enumerate 1 (rotated_group cursor g rows))"
  let ?all = "?tag 0 ac @ ?tag 1 rc @ ?tag 2 tc"
  let ?cursor = "if g = 0 then ac else if g = 1 then rc else tc"
  have in_tag: "report_group (snd x) = k" if "x \<in> set (?tag k cursor)" for x k cursor
  proof -
    have "snd x \<in> set (map snd (?tag k cursor))" unfolding set_map [of snd] using that by (rule imageI)
    also have "map snd (?tag k cursor) = rotated_group cursor k rows" by (simp add: comp_def split_def)
    finally show ?thesis by (simp add: rotated_group_def)
  qed
  have "filter (\<lambda>x. report_group (snd x) = g) (?tag k cursor) = filter (\<lambda>_. k = g) (?tag k cursor)" for k cursor
    by (rule filter_cong [OF refl]) (use in_tag in blast)
  then have "filter (\<lambda>x. report_group (snd x) = g) ?all = ?tag g ?cursor" using assms by auto
  moreover have "sorted (map ?key (?tag g ?cursor))"
  proof -
    have "sorted (map (\<lambda>(i, r). (i, group_priority round g)) (enumerate 1 xs))" for xs :: "job_row list"
      by (auto simp: sorted_map sorted_wrt_iff_nth_less nth_enumerate_eq less_eq_prod_def)
    then show ?thesis by (simp add: comp_def split_def)
  qed
  ultimately have "filter (\<lambda>x. report_group (snd x) = g) (sort_key ?key ?all) = ?tag g ?cursor"
    by (simp only: filter_sort sort_key_id_if_sorted)
  then have "map snd (filter (\<lambda>x. report_group (snd x) = g) (sort_key ?key ?all)) = rotated_group ?cursor g rows"
    by (simp add: comp_def split_def)
  then show ?thesis by (simp add: ranked_jobs_def filter_map comp_def)
qed

definition group_of :: "str \<Rightarrow> str \<Rightarrow> nat" where
  "group_of status rejection =
     (if status \<notin> {''succeeded'', ''failed'', ''cancelled''} then 0 else if rejection \<noteq> [] then 1 else 2)"

lemma report_groups:
  "active_group (report_of_job u j) \<longleftrightarrow> group_of (job_status j) (job_rejection_code j) = 0"
  "rejected_group (report_of_job u j) \<longleftrightarrow> group_of (job_status j) (job_rejection_code j) = 1"
  "terminal_group (report_of_job u j) \<longleftrightarrow> group_of (job_status j) (job_rejection_code j) = 2"
  by (auto simp: active_group_def rejected_group_def terminal_group_def nest_build_job_is_terminal_def report_of_job_def group_of_def)

lemma prefix_filter_take: "prefix (filter p (take k xs)) (filter p xs)"
  by (metis append_take_drop_id filter_append prefixI)

lemma sorted_prefix: "sorted (map f xs) \<Longrightarrow> prefix ys xs \<Longrightarrow> sorted (map f ys)"
  by (auto simp: prefix_def sorted_append)

text \<open>The identities of the jobs of one group of a page, in the order of the group's rotation.\<close>

lemma page_group_sorted:
  assumes jobs: "map (\<lambda>j. (job_id j, group_of (job_status j) (job_rejection_code j))) jobs =
      map (\<lambda>r. (jr_id r, report_group r)) (take k (ranked_jobs ac rc tc round rows))"
    and g: "g \<in> {0, 1, 2}" and cursor: "cursor = (if g = 0 then ac else if g = 1 then rc else tc)"
  shows "sorted (map (\<lambda>i. (wrap_after cursor i, - i)) (map job_id (filter (\<lambda>j. group_of (job_status j) (job_rejection_code j) = g) jobs)))"
proof -
  let ?page = "take k (ranked_jobs ac rc tc round rows)"
  have "map job_id (filter (\<lambda>j. group_of (job_status j) (job_rejection_code j) = g) jobs) =
      map fst (filter (\<lambda>x. snd x = g) (map (\<lambda>j. (job_id j, group_of (job_status j) (job_rejection_code j))) jobs))"
    by (simp add: filter_map comp_def)
  also have "\<dots> = map jr_id (filter (\<lambda>r. report_group r = g) ?page)" unfolding jobs by (simp add: filter_map comp_def)
  finally have ids: "map job_id (filter (\<lambda>j. group_of (job_status j) (job_rejection_code j) = g) jobs) =
      map jr_id (filter (\<lambda>r. report_group r = g) ?page)" .
  have "prefix (filter (\<lambda>r. report_group r = g) ?page) (rotated_group cursor g rows)"
    using prefix_filter_take [of "\<lambda>r. report_group r = g" k "ranked_jobs ac rc tc round rows"]
    unfolding filter_ranked_jobs [OF g] cursor .
  moreover have "sorted (map (\<lambda>r. (wrap_group cursor r, - jr_id r)) (rotated_group cursor g rows))"
    by (simp add: rotated_group_def)
  ultimately have "sorted (map (\<lambda>r. (wrap_group cursor r, - jr_id r)) (filter (\<lambda>r. report_group r = g) ?page))"
    by (rule sorted_prefix [rotated])
  then show ?thesis unfolding ids by (simp add: comp_def wrap_after_def wrap_group_def)
qed

lemma shares_full:
  assumes "sum_list (shares [a, b, c] r A) = a + b + c"
  shows "shares [a, b, c] r A = [a, b, c]"
proof -
  obtain x y z where xyz: "shares [a, b, c] r A = [x, y, z]" "x \<le> a" "y \<le> b" "z \<le> c"
    by (simp add: shares_def upt_rec)
  with assms have "x = a" "y = b" "z = c" by auto
  with xyz show ?thesis by simp
qed

text \<open>C24: choosing in memory from the page of the query agrees with the query: no build of the page is
  dropped, and each group keeps the order the query gave it.\<close>

theorem selection_agrees_with_query:
  assumes "list_build_jobs_report_page env ac rc tc round max_reports budget s = (Inr jobs, t)" and "0 < max_reports"
  shows "let reports = filter (\<lambda>job. jrep_managed_job_id job \<noteq> None) (map (report_of_job uuid_parse) jobs)
    in select_build_job_reports reports ac rc tc max_reports priority =
       filter active_group reports @ filter rejected_group reports @ filter terminal_group reports"
proof -
  let ?managed = "\<lambda>job. jrep_managed_job_id job \<noteq> None"
  let ?reports = "filter ?managed (map (report_of_job uuid_parse) jobs)"
  define rows where "rows = ranked_jobs ac rc tc (unat round) (bs_jobs s)"
  obtain k where k: "k \<le> length rows" "page_of estimated_bytes (clamp_limit max_reports) (clamp_limit budget) rows = take k rows"
    "1 < k \<Longrightarrow> k \<le> clamp_limit max_reports"
    by (rule page_of_spec [of rows estimated_bytes "clamp_limit max_reports" "clamp_limit budget"]) blast
  from assms(1) have c: "rcollect (map (job_of_row env) (take k rows)) = Inr jobs"
    by (simp add: list_build_jobs_report_page_def build_job_rows_to_models_def rows_def [symmetric] k(2) db_bind_get_eq)
  have keys: "map (\<lambda>j. (job_id j, group_of (job_status j) (job_rejection_code j))) jobs =
      map (\<lambda>r. (jr_id r, report_group r)) (take k rows)"
    by (rule rcollect_key [OF c]) (auto simp: job_of_row_def result_simps group_of_def report_group_def)
  have len: "length jobs \<le> max_reports"
    using arg_cong [OF keys, of length] k assms(2) by (cases "1 < k") (auto simp: clamp_limit_def min_def split: if_splits)
  have id: "jrep_local_id (report_of_job uuid_parse j) = job_id j" for j by (simp add: report_of_job_def)
  have rot: "rotate_report_items_after_cursor (filter P ?reports) cursor jrep_local_id = filter P ?reports"
    if "\<And>j. P (report_of_job uuid_parse j) \<longleftrightarrow> group_of (job_status j) (job_rejection_code j) = g" "g \<in> {0, 1, 2}"
      "cursor = (if g = 0 then ac else if g = 1 then rc else tc)" for P g cursor
  proof (rule rotate_sorted)
    have "filter P ?reports = filter ?managed (filter P (map (report_of_job uuid_parse) jobs))"
      by (simp add: conj_commute)
    moreover have "sorted (map (\<lambda>x. (wrap_after cursor (jrep_local_id x), - jrep_local_id x)) (filter P (map (report_of_job uuid_parse) jobs)))"
      using page_group_sorted [OF keys [unfolded rows_def] that(2,3)] by (simp add: filter_map comp_def that(1) id)
    ultimately show "sorted (map (\<lambda>x. (wrap_after cursor (jrep_local_id x), - jrep_local_id x)) (filter P ?reports))"
      by (simp only: sorted_filter)
  qed
  have rots: "rotate_report_items_after_cursor (filter active_group ?reports) ac jrep_local_id = filter active_group ?reports"
    "rotate_report_items_after_cursor (filter rejected_group ?reports) rc jrep_local_id = filter rejected_group ?reports"
    "rotate_report_items_after_cursor (filter terminal_group ?reports) tc jrep_local_id = filter terminal_group ?reports"
    using rot [of active_group 0 ac] rot [of rejected_group 1 rc] rot [of terminal_group 2 tc] by (simp_all add: report_groups)
  let ?len = "[length (filter active_group ?reports), length (filter rejected_group ?reports), length (filter terminal_group ?reports)]"
  obtain r k where rk: "select_build_job_reports ?reports ac rc tc max_reports priority =
      (let n = shares ?len r (set (take k (build_group_order priority)))
       in take (n ! 0) (filter active_group ?reports) @ take (n ! 1) (filter rejected_group ?reports) @
          take (n ! 2) (filter terminal_group ?reports))"
    "sum_list (shares ?len r (set (take k (build_group_order priority)))) = min max_reports (length ?reports)"
    by (rule select_as_shares [OF rots [symmetric]])
  have "length ?reports \<le> max_reports" by (rule order_trans [OF length_filter_le]) (simp add: len)
  moreover have "length ?reports = length (filter active_group ?reports) + length (filter rejected_group ?reports) +
      length (filter terminal_group ?reports)"
    by (induction jobs) (auto simp: active_group_def rejected_group_def terminal_group_def)
  ultimately have "shares ?len r (set (take k (build_group_order priority))) = ?len"
    using rk(2) by (intro shares_full) simp
  with rk(1) show ?thesis by (simp add: Let_def numeral_2_eq_2)
qed

section \<open>The whole cache inventory is reported\<close>

text \<open>One of four consecutive rounds puts the artifacts last in the trimming.\<close>

lemma priority_cache: "priority_from_round round = CacheArtifacts \<longleftrightarrow> unat round mod 4 = 3"
proof -
  have "unat (round mod 4) = unat round mod 4" by (simp add: unat_mod)
  moreover have "unat round mod 4 < 4" by simp
  ultimately show ?thesis by (auto simp: priority_from_round_def Let_def)
qed

lemma next_round: "unat ((round + 1) mod 4 :: u8) = (unat round + 1) mod 4"
proof -
  have "unat ((round + 1) mod 4) = unat (round + 1) mod 4" by (simp add: unat_mod)
  also have "unat (round + 1) = (unat round + 1) mod 256" by (simp add: unat_word_ariths)
  also have "(unat round + 1) mod 256 mod 4 = (unat round + 1) mod 4" by (simp add: mod_mod_cancel)
  finally show ?thesis .
qed

lemma advance_sel [simp]:
  "mg_device_id (advance_nest_report_rotation managed body) = mg_device_id managed"
  "mg_report_rotation_round (advance_nest_report_rotation managed body) = (mg_report_rotation_round managed + 1) mod 4"
  by (simp_all add: advance_nest_report_rotation_def Let_def split: option.splits)

lemma log_warnings_sel [simp]:
  "mg_device_id (snd (log_nest_report_warnings w m)) = mg_device_id m"
  "mg_report_rotation_round (snd (log_nest_report_warnings w m)) = mg_report_rotation_round m"
  "mg_cache_artifact_report_cursor (snd (log_nest_report_warnings w m)) = mg_cache_artifact_report_cursor m"
  "mg_cache_report_instance_id (snd (log_nest_report_warnings w m)) = mg_cache_report_instance_id m"
  "mg_cache_report_generation (snd (log_nest_report_warnings w m)) = mg_cache_report_generation m"
  by (auto simp: log_nest_report_warnings_def Let_def)

text \<open>A report of the sequence: the inputs of the other modules and the answer of the service.\<close>

record 'x report_turn =
  rt_inputs :: "'x report_inputs"
  rt_respond :: "str \<Rightarrow> str \<Rightarrow> report_response sync_result"

definition turn_fitted ::
  "json_env \<Rightarrow> (str \<Rightarrow> str option) \<Rightarrow> 'x nest_report writer \<Rightarrow> (nat \<Rightarrow> 'x report_turn) \<Rightarrow> build_store \<Rightarrow> nat \<Rightarrow>
     managed_state \<Rightarrow> ('x nest_report \<times> str) sync_result" where
  "turn_fitted env uuid_parse to_writer turns s i managed =
     fit_nest_report_body to_writer (nest_report_body env uuid_parse (rt_inputs (turns i)) s managed)
       max_nest_report_body_bytes (priority_from_round (mg_report_rotation_round managed))"

definition turn_step ::
  "json_env \<Rightarrow> (str \<Rightarrow> str option) \<Rightarrow> 'x nest_report writer \<Rightarrow> (nat \<Rightarrow> 'x report_turn) \<Rightarrow> build_store \<Rightarrow> nat \<Rightarrow>
     managed_state \<Rightarrow> managed_state" where
  "turn_step env uuid_parse to_writer turns s i managed =
     snd (exchange_nest_report env uuid_parse to_writer (rt_respond (turns i)) (rt_inputs (turns i)) s managed)"

definition turn_sent ::
  "json_env \<Rightarrow> (str \<Rightarrow> str option) \<Rightarrow> 'x nest_report writer \<Rightarrow> (nat \<Rightarrow> 'x report_turn) \<Rightarrow> build_store \<Rightarrow> nat \<Rightarrow>
     managed_state \<Rightarrow> int list" where
  "turn_sent env uuid_parse to_writer turns s i managed =
     (case turn_fitted env uuid_parse to_writer turns s i managed of
        Inr (body, _) \<Rightarrow> map arep_local_id (nr_cache_artifacts body) | Inl _ \<Rightarrow> [])"

definition turn_complete ::
  "json_env \<Rightarrow> (str \<Rightarrow> str option) \<Rightarrow> 'x nest_report writer \<Rightarrow> (nat \<Rightarrow> 'x report_turn) \<Rightarrow> build_store \<Rightarrow> nat \<Rightarrow>
     managed_state \<Rightarrow> bool" where
  "turn_complete env uuid_parse to_writer turns s i managed =
     (case turn_fitted env uuid_parse to_writer turns s i managed of
        Inr (body, _) \<Rightarrow> nr_cache_artifacts_complete body | Inl _ \<Rightarrow> False)"

definition inventory_cursor :: "build_store \<Rightarrow> managed_state \<Rightarrow> int option" where
  "inventory_cursor s managed =
     nest_cache_report_cursor managed (inv_instance_id (bs_inventory s)) (inv_generation (bs_inventory s)) True"

definition unreported :: "build_store \<Rightarrow> managed_state \<Rightarrow> int list" where
  "unreported s managed = map ar_id (below_cursor (inventory_cursor s managed) (bs_artifacts s))"

text \<open>
  What the traversal relies on: the rows are readable and their numbers differ, the inventory is
  identified, each scrub succeeds, the service accepts each report, and a report without builds,
  findings and events that carries at most one artifact fits a request.
\<close>

definition inventory_ok :: "json_env \<Rightarrow> build_store \<Rightarrow> bool" where
  "inventory_ok env s \<longleftrightarrow>
     distinct (map ar_id (bs_artifacts s)) \<and> (\<forall>r \<in> set (bs_artifacts s). is_ok (artifact_of_row env r)) \<and>
     0 \<le> inv_generation (bs_inventory s) \<and> inv_instance_id (bs_inventory s) \<noteq> []"

definition artifact_reports :: "json_env \<Rightarrow> (str \<Rightarrow> str option) \<Rightarrow> build_store \<Rightarrow> artifact_report set" where
  "artifact_reports env uuid_parse s =
     {report_of_artifact uuid_parse a | a r. r \<in> set (bs_artifacts s) \<and> artifact_of_row env r = Inr a}"

definition bare_report :: "build_store \<Rightarrow> 'x report_inputs \<Rightarrow> 'x nest_report \<Rightarrow> bool" where
  "bare_report s inputs b \<longleftrightarrow>
     stripped b \<and> nr_protocol_version b = ri_report_protocol inputs \<and> nr_lanes b = ri_lanes inputs \<and>
     (\<exists>v. nr_cache b = cache_status_for_local_state (ri_cache inputs) v) \<and>
     nr_cache_inventory_instance_id b = inv_instance_id (bs_inventory s) \<and>
     nr_cache_inventory_generation b = inv_generation (bs_inventory s) \<and>
     map_option mr_report_instance_id (nr_workstation_multicast b) =
       map_option mr_report_instance_id (ri_workstation_multicast inputs)"

definition turn_ok ::
  "json_env \<Rightarrow> (str \<Rightarrow> str option) \<Rightarrow> 'x nest_report writer \<Rightarrow> build_store \<Rightarrow> 'x report_turn \<Rightarrow> bool" where
  "turn_ok env uuid_parse to_writer s turn \<longleftrightarrow>
     ri_scrub_valid (rt_inputs turn) \<and>
     (\<forall>path bytes. \<exists>response. rt_respond turn path bytes = Inr response \<and> rr_status response = ''ok'') \<and>
     (\<forall>b. bare_report s (rt_inputs turn) b \<longrightarrow> length (nr_cache_artifacts b) \<le> 1 \<longrightarrow>
        set (nr_cache_artifacts b) \<subseteq> artifact_reports env uuid_parse s \<longrightarrow>
        nest_report_body_fits to_writer b max_nest_report_body_bytes)"

subsection \<open>The page of one report\<close>

lemma below_cursor_desc:
  assumes "distinct (map ar_id rows)"
  shows "sorted_wrt (\<lambda>a b. ar_id b < ar_id a) (below_cursor cursor rows)"
proof -
  let ?xs = "filter (\<lambda>r. case cursor of None \<Rightarrow> True | Some c \<Rightarrow> ar_id r < c) rows"
  have "sorted (map ar_id (sort_key ar_id ?xs))" by simp
  moreover have "distinct (map ar_id (sort_key ar_id ?xs))"
    using assms by (simp add: distinct_map inj_on_def)
  ultimately have "sorted_wrt (<) (map ar_id (sort_key ar_id ?xs))" by (simp add: strict_sorted_iff)
  then show ?thesis by (simp add: below_cursor_def order_desc_def sorted_wrt_rev sorted_wrt_map)
qed

lemma below_cursor_mem: "x \<in> set (below_cursor cursor rows) \<Longrightarrow> cursor = Some c \<Longrightarrow> ar_id x < c"
  by (auto simp: below_cursor_def)

lemma below_lower_cursor:
  assumes "\<And>k. cursor = Some k \<Longrightarrow> c \<le> k"
  shows "below_cursor (Some c) rows = filter (\<lambda>r. ar_id r < c) (below_cursor cursor rows)"
proof -
  have "filter (\<lambda>r. ar_id r < c) rows = filter (\<lambda>r. ar_id r < c) (filter (\<lambda>r. case cursor of None \<Rightarrow> True | Some k \<Rightarrow> ar_id r < k) rows)"
    unfolding filter_filter using assms by (intro filter_cong) (auto split: option.split)
  then show ?thesis by (simp add: below_cursor_def order_desc_def rev_filter [symmetric] filter_sort)
qed

text \<open>Moving the cursor to the last of the first \<open>n\<close> rows leaves the others.\<close>

lemma below_cursor_advance:
  assumes d: "distinct (map ar_id rows)" and n: "0 < n" "n \<le> length (below_cursor cursor rows)"
  shows "map ar_id (below_cursor (Some (ar_id (below_cursor cursor rows ! (n - 1)))) rows) =
    drop n (map ar_id (below_cursor cursor rows))"
proof -
  let ?L = "below_cursor cursor rows" and ?c = "ar_id (below_cursor cursor rows ! (n - 1))"
  have desc: "sorted_wrt (\<lambda>a b. ar_id b < ar_id a) ?L" by (rule below_cursor_desc [OF d])
  have "?c \<le> k" if "cursor = Some k" for k using below_cursor_mem [of "?L ! (n - 1)" cursor rows k] n that by simp
  then have "below_cursor (Some ?c) rows = filter (\<lambda>r. ar_id r < ?c) ?L" by (rule below_lower_cursor)
  also have "\<dots> = drop n ?L"
  proof -
    have lt: "n - 1 < length ?L" using n by linarith
    have "filter (\<lambda>r. ar_id r < ?c) (take n ?L) = []"
    proof (intro filter_False ballI)
      fix r assume "r \<in> set (take n ?L)"
      then obtain i where i: "i < n" "i < length ?L" "r = ?L ! i" by (auto simp: in_set_conv_nth)
      then consider "i = n - 1" | "i < n - 1" by linarith
      then show "\<not> ar_id r < ?c" using sorted_wrt_nth_less [OF desc _ lt, of i] i(3) by cases auto
    qed
    moreover have "filter (\<lambda>r. ar_id r < ?c) (drop n ?L) = drop n ?L"
    proof (intro filter_True ballI)
      fix r assume "r \<in> set (drop n ?L)"
      then obtain i where i: "i < length (drop n ?L)" "r = drop n ?L ! i" by (metis in_set_conv_nth)
      then have "n + i < length ?L" "r = ?L ! (n + i)" by auto
      then show "ar_id r < ?c" using sorted_wrt_nth_less [OF desc, of "n - 1" "n + i"] n(1) by simp
    qed
    ultimately show ?thesis by (metis append_Nil append_take_drop_id filter_append)
  qed
  finally show ?thesis by (simp add: drop_map)
qed

lemma rcollect_ok: "(\<forall>x \<in> set xs. is_ok (f x)) \<Longrightarrow> \<exists>ys. rcollect (map f xs) = Inr ys"
  by (induction xs) (auto simp: is_ok_iff result_simps)

lemma list_all2_source: "list_all2 P xs ys \<Longrightarrow> y \<in> set ys \<Longrightarrow> \<exists>x \<in> set xs. P x y"
  by (induction rule: list_all2_induct) auto

lemma page_reports:
  assumes "inventory_ok env s"
  obtains k artifacts where "k \<le> length (below_cursor cursor (bs_artifacts s))"
    "below_cursor cursor (bs_artifacts s) = [] \<or> 0 < k"
    "cache_page env cursor s = (artifacts, k = length (below_cursor cursor (bs_artifacts s)), True)"
    "map art_id artifacts = map ar_id (take k (below_cursor cursor (bs_artifacts s)))"
    "length artifacts \<le> max_report_cache_artifacts"
    "\<forall>a \<in> set artifacts. \<exists>r \<in> set (bs_artifacts s). artifact_of_row env r = Inr a"
proof -
  let ?L = "below_cursor cursor (bs_artifacts s)"
  have sub: "set ?L \<subseteq> set (bs_artifacts s)" by (auto simp: below_cursor_def)
  obtain k where k: "k \<le> length ?L" "?L = [] \<or> 0 < k"
      "artifact_page cursor max_report_cache_artifacts max_nest_report_body_bytes (bs_artifacts s) = take k ?L"
      "1 < k \<Longrightarrow> k \<le> clamp_limit max_report_cache_artifacts"
    unfolding artifact_page_def
    by (rule page_of_spec [of ?L artifact_estimated_bytes "clamp_limit max_report_cache_artifacts" "clamp_limit max_nest_report_body_bytes"]) blast
  have in_rows: "r \<in> set (bs_artifacts s)" if "r \<in> set (take k ?L)" for r using that sub set_take_subset [of k ?L] by blast
  have "\<forall>r \<in> set (take k ?L). is_ok (artifact_of_row env r)" using in_rows assms unfolding inventory_ok_def by blast
  then obtain artifacts where a: "rcollect (map (artifact_of_row env) (take k ?L)) = Inr artifacts"
    using rcollect_ok by blast
  have ids: "map art_id artifacts = map ar_id (take k ?L)"
    by (rule rcollect_key [OF a]) (auto simp: artifact_of_row_def result_simps)
  have k_le: "k \<le> max_report_cache_artifacts"
    using k(4) by (cases "1 < k") (auto simp: clamp_limit_def max_report_cache_artifacts_def)
  show thesis
  proof (rule that [OF k(1,2)])
    show "cache_page env cursor s = (artifacts, k = length ?L, True)"
      using k(1) by (auto simp: cache_page_def list_cache_artifacts_report_page_def db_bind_get_eq k(3)
          cache_artifact_rows_to_models_def a Let_def db_bind_def)
    show "length artifacts \<le> max_report_cache_artifacts" using arg_cong [OF ids, of length] k(1) k_le by simp
    show "\<forall>a \<in> set artifacts. \<exists>r \<in> set (bs_artifacts s). artifact_of_row env r = Inr a"
    proof
      fix x assume "x \<in> set artifacts"
      moreover have "list_all2 (\<lambda>r y. artifact_of_row env r = Inr y) (take k ?L) artifacts" using rcollect_Inr [OF a] .
      ultimately show "\<exists>r \<in> set (bs_artifacts s). artifact_of_row env r = Inr x"
        using in_rows by (blast dest: list_all2_source)
    qed
  qed (rule ids)
qed

text \<open>The cache part of the body before trimming.\<close>

lemma body_cache_part:
  fixes uuid_parse :: "str \<Rightarrow> str option" and managed :: managed_state
  assumes inv: "inventory_ok env s" and scrub: "ri_scrub_valid inputs"
  defines "body \<equiv> nest_report_body env uuid_parse inputs s managed"
  defines "L \<equiv> below_cursor (inventory_cursor s managed) (bs_artifacts s)"
  obtains k where "k \<le> length L" "L = [] \<or> 0 < k"
    "map arep_local_id (nr_cache_artifacts body) = map ar_id (take k L)"
    "nr_cache_artifacts_complete body \<longleftrightarrow> k = length L"
    "set (nr_cache_artifacts body) \<subseteq> artifact_reports env uuid_parse s"
proof -
  obtain k artifacts where k: "k \<le> length L" "L = [] \<or> 0 < k"
    "cache_page env (inventory_cursor s managed) s = (artifacts, k = length L, True)"
    "map art_id artifacts = map ar_id (take k L)" "length artifacts \<le> max_report_cache_artifacts"
    "\<forall>a \<in> set artifacts. \<exists>r \<in> set (bs_artifacts s). artifact_of_row env r = Inr a"
    unfolding L_def by (rule page_reports [OF inv, of "inventory_cursor s managed"])
  let ?reports = "map (report_of_artifact uuid_parse) artifacts"
  have ids: "map arep_local_id ?reports = map ar_id (take k L)" unfolding k(4) [symmetric] by (simp add: report_of_artifact_def)
  have "sorted (map (\<lambda>i. (wrap_after (inventory_cursor s managed) i, - i)) (map ar_id (take k L)))"
  proof -
    have d: "distinct (map ar_id (bs_artifacts s))" using inv by (simp add: inventory_ok_def)
    have "wrap_after (inventory_cursor s managed) (ar_id r) = 0" if "r \<in> set L" for r
      using that by (auto simp: wrap_after_def L_def below_cursor_def split: option.splits)
    moreover have "sorted_wrt (\<lambda>a b. ar_id b < ar_id a) (take k L)"
      using below_cursor_desc [OF d] by (simp add: L_def sorted_wrt_take)
    ultimately show ?thesis
      unfolding sorted_map map_map comp_def
      by (auto simp: sorted_wrt_map less_eq_prod_def intro!: sorted_wrt_mono_rel [of "take k L" "\<lambda>a b. ar_id b < ar_id a"] dest: in_set_takeD)
  qed
  then have rot: "rotate_report_items_after_cursor ?reports (inventory_cursor s managed) arep_local_id = ?reports"
    unfolding ids [symmetric] by (intro rotate_sorted) (simp add: comp_def)
  have body: "nr_cache_artifacts body = ?reports" "nr_cache_artifacts_complete body \<longleftrightarrow> k = length L"
    using k(3,5) scrub rot
    by (simp_all add: body_def nest_report_body_def Let_def cache_inventory_state_def inventory_cursor_def split_def)
  have "set ?reports \<subseteq> artifact_reports env uuid_parse s" using k(6) unfolding artifact_reports_def by fastforce
  with body k(1,2) ids show thesis by (intro that [of k]) simp_all
qed

lemma trim_group_cache [simp]:
  "nr_cache_artifacts (trim_group fits p b) = nr_cache_artifacts b"
  "nr_cache_artifacts_complete (trim_group fits p b) = nr_cache_artifacts_complete b"
proof (induction fits p b rule: trim_group.induct)
  case (1 fits p b)
  {
    case 1 show ?case using "1.IH"(1) by (subst trim_group.simps) (auto split: option.splits)
  next
    case 2 show ?case using "1.IH"(2) by (subst trim_group.simps) (auto split: option.splits)
  }
qed

lemma trim_multicast_cache [simp]:
  "nr_cache_artifacts (trim_workstation_multicast_reports fits b) = nr_cache_artifacts b"
  "nr_cache_artifacts_complete (trim_workstation_multicast_reports fits b) = nr_cache_artifacts_complete b"
proof (induction fits b rule: trim_workstation_multicast_reports.induct)
  case (1 fits b)
  {
    case 1 show ?case using "1.IH"(1) by (subst trim_workstation_multicast_reports.simps) (auto split: option.splits)
  next
    case 2 show ?case using "1.IH"(2) by (subst trim_workstation_multicast_reports.simps) (auto split: option.splits)
  }
qed

lemma trim_lanes_cache [simp]:
  "nr_cache_artifacts (trim_lanes fits b) = nr_cache_artifacts b"
  "nr_cache_artifacts_complete (trim_lanes fits b) = nr_cache_artifacts_complete b"
  by (simp_all add: trim_lanes_def)

lemma clear_logs_sel [simp]:
  "nr_cache_artifacts (clear_logs b) = nr_cache_artifacts b"
  "nr_cache_artifacts_complete (clear_logs b) = nr_cache_artifacts_complete b"
  by (simp_all add: clear_logs_def)

lemma body_lanes [simp]:
  "nr_protocol_version (nest_report_body env u inputs s m) = ri_report_protocol inputs"
  "nr_lanes (nest_report_body env u inputs s m) = ri_lanes inputs"
  "nr_cache_inventory_instance_id (nest_report_body env u inputs s m) = inv_instance_id (bs_inventory s)"
  "nr_workstation_multicast (nest_report_body env u inputs s m) = ri_workstation_multicast inputs"
  "\<exists>v. nr_cache (nest_report_body env u inputs s m) = cache_status_for_local_state (ri_cache inputs) v"
  by (auto simp: nest_report_body_def Let_def cache_inventory_state_def split_def)

lemma body_generation:
  "inventory_ok env s \<Longrightarrow> nr_cache_inventory_generation (nest_report_body env u inputs s m) = inv_generation (bs_inventory s)"
  by (erule page_reports [of env s "inventory_cursor s m"])
     (simp add: nest_report_body_def Let_def cache_inventory_state_def split_def inventory_cursor_def cache_inventory_generation_for_peer_def)

lemma trimmed_bare:
  assumes "inventory_ok env s" "trimmed (clear_logs (nest_report_body env u inputs s m)) b" "stripped b"
  shows "bare_report s inputs b"
  using assms body_lanes [of env u inputs s m] body_generation [OF assms(1), of u inputs m]
  by (auto simp: bare_report_def trimmed_def clear_logs_def)

text \<open>When the artifacts are trimmed last, a body that still exceeds the size has nothing else left to
  remove, so that at least one artifact stays.\<close>

lemma cache_turn_progress:
  assumes small: "\<And>c. trimmed (clear_logs b0) c \<Longrightarrow> stripped c \<Longrightarrow> length (nr_cache_artifacts c) \<le> 1 \<Longrightarrow>
      set (nr_cache_artifacts c) \<subseteq> set (nr_cache_artifacts b0) \<Longrightarrow> fits c"
    and b: "b = (if fits b0 then b0 else trim_by_priority fits CacheArtifacts (trim_lanes fits (clear_logs b0)))"
    and empty: "nr_cache_artifacts b0 = [] \<Longrightarrow> nr_cache_artifacts_complete b0"
  shows "nr_cache_artifacts_complete b \<or> nr_cache_artifacts b \<noteq> []"
proof (cases "fits b0")
  case False
  let ?jobs = "\<lambda>b. trim_rejected_build_reports fits (trim_active_build_reports fits (trim_ordinary_terminal_reports fits b))"
  define b3 where "b3 = ?jobs (trim_lanes fits (clear_logs b0))"
  have cache: "nr_cache_artifacts b3 = nr_cache_artifacts b0" "nr_cache_artifacts_complete b3 = nr_cache_artifacts_complete b0"
    by (simp_all add: b3_def group_trims)
  have b': "b = trim_cache_artifact_reports fits b3" using b False by (simp add: b3_def)
  have "trims fits (\<lambda>b. nr_build_jobs b = []) ?jobs"
    unfolding group_trims by (rule three_groups_trims) blast
  then have "trims fits stripped (\<lambda>b. ?jobs (trim_lanes fits b))"
    by (intro trims_weaken [OF trims_comp [OF trim_lanes_trims]]) (auto simp: stripped_def trimmed_gone)
  then have t: "trimmed (clear_logs b0) b3" "fits b3 \<or> stripped b3" unfolding trims_def b3_def by blast+
  show ?thesis
  proof (cases "fits b3 \<or> nr_cache_artifacts b3 = []")
    case True
    then have "b = b3" by (simp add: b' trim_cache_artifact_reports_def)
    then show ?thesis using cache empty by auto
  next
    case False
    let ?A = "nr_cache_artifacts b3"
    let ?c = "\<lambda>n. b3 \<lparr> nr_cache_artifacts := take n ?A, nr_cache_artifacts_complete := False \<rparr>"
    obtain r where r: "max_fitting_prefix_len (length ?A) (\<lambda>n. fits (?c n)) = r" "r = length ?A \<or> \<not> fits (?c (Suc r))"
      by (rule prefix_search)
    have "trimmed b3 (?c 1)" by (simp add: trimmed_def events_of_def take_is_prefix)
    then have "fits (?c (Suc 0))"
      using t False cache set_take_subset [of "Suc 0" ?A]
      by (intro small trimmed_trans [OF t(1)]) (auto simp: stripped_def events_of_def)
    then have "r \<noteq> 0" using r(2) False by (intro notI) auto
    then show ?thesis using False r(1) by (simp add: b' trim_cache_artifact_reports_def Let_def)
  qed
qed (use b empty in auto)

lemma turn_result:
  assumes inv: "inventory_ok env s" and ok: "turn_ok env u to_writer s (turns i)"
  obtains body bytes n where "turn_fitted env u to_writer turns s i m = Inr (body, bytes)"
    "n \<le> length (unreported s m)" "map arep_local_id (nr_cache_artifacts body) = take n (unreported s m)"
    "nr_cache_artifacts_complete body \<longrightarrow> n = length (unreported s m)"
    "priority_from_round (mg_report_rotation_round m) = CacheArtifacts \<longrightarrow> nr_cache_artifacts_complete body \<or> 0 < n"
    "nr_cache_inventory_instance_id body = inv_instance_id (bs_inventory s)"
    "nr_cache_inventory_generation body = inv_generation (bs_inventory s)"
proof -
  let ?inputs = "rt_inputs (turns i)" and ?fits = "\<lambda>b. nest_report_body_fits to_writer b max_nest_report_body_bytes"
  let ?priority = "priority_from_round (mg_report_rotation_round m)"
  define b0 where "b0 = nest_report_body env u ?inputs s m"
  define b1 where "b1 = trim_lanes ?fits (clear_logs b0)"
  define b where "b = (if ?fits b0 then b0 else trim_by_priority ?fits ?priority b1)"
  have scrub: "ri_scrub_valid ?inputs" using ok by (simp add: turn_ok_def)
  obtain k where k: "k \<le> length (unreported s m)" "unreported s m = [] \<or> 0 < k"
    "map arep_local_id (nr_cache_artifacts b0) = take k (unreported s m)"
    "nr_cache_artifacts_complete b0 \<longleftrightarrow> k = length (unreported s m)"
    "set (nr_cache_artifacts b0) \<subseteq> artifact_reports env u s"
    by (rule body_cache_part [OF inv scrub, of m u]) (auto simp: unreported_def b0_def take_map)
  have small: "?fits c" if "trimmed (clear_logs b0) c" "stripped c" "length (nr_cache_artifacts c) \<le> 1"
      "set (nr_cache_artifacts c) \<subseteq> artifact_reports env u s" for c
    using that trimmed_bare [OF inv, of u ?inputs m c] ok unfolding turn_ok_def b0_def by blast
  have trim: "trimmed (clear_logs b0) (trim_by_priority ?fits ?priority b1)"
    "?fits (trim_by_priority ?fits ?priority b1) \<or>
       stripped (trim_by_priority ?fits ?priority b1) \<and> nr_cache_artifacts (trim_by_priority ?fits ?priority b1) = []"
    using trim_all_trims [of ?fits ?priority] unfolding trims_def b1_def by blast+
  then have fits: "?fits b" using small by (auto simp: b_def)
  have cases: "b = b0 \<or> trimmed (clear_logs b0) b" using trim(1) by (simp add: b_def)
  then have pre: "prefix (nr_cache_artifacts b) (nr_cache_artifacts b0)"
    "nr_cache_artifacts_complete b \<Longrightarrow> nr_cache_artifacts_complete b0 \<and> nr_cache_artifacts b = nr_cache_artifacts b0"
    by (auto simp: trimmed_def)
  define n where "n = length (nr_cache_artifacts b)"
  have len0: "length (nr_cache_artifacts b0) = k" using arg_cong [OF k(3), of length] k(1) by simp
  then have n: "n \<le> k" using prefix_length_le [OF pre(1)] by (simp add: n_def)
  have ids: "map arep_local_id (nr_cache_artifacts b) = take n (unreported s m)"
  proof -
    have "nr_cache_artifacts b = take n (nr_cache_artifacts b0)" using pre(1) by (auto simp: prefix_def n_def)
    then have "map arep_local_id (nr_cache_artifacts b) = take n (map arep_local_id (nr_cache_artifacts b0))" by (simp add: take_map)
    then show ?thesis using k(3) n by (simp add: min_absorb1)
  qed
  have progress: "nr_cache_artifacts_complete b \<or> nr_cache_artifacts b \<noteq> []" if "?priority = CacheArtifacts"
  proof (rule cache_turn_progress [of b0 ?fits b])
    show "?fits c" if "trimmed (clear_logs b0) c" "stripped c" "length (nr_cache_artifacts c) \<le> 1"
      "set (nr_cache_artifacts c) \<subseteq> set (nr_cache_artifacts b0)" for c using small that k(5) by blast
  qed (use that k(2,4) len0 in \<open>auto simp: b_def b1_def\<close>)
  show thesis
  proof (rule that [of b _ n])
    show "turn_fitted env u to_writer turns s i m = Inr (b, serialize_nest_report_body to_writer b)"
      using fits
      unfolding turn_fitted_def fit_nest_report_body_eq Let_def b0_def [symmetric] b1_def [symmetric] b_def [symmetric] by simp
    show "n \<le> length (unreported s m)" using n k(1) by simp
    show "nr_cache_artifacts_complete b \<longrightarrow> n = length (unreported s m)" using pre(2) k(4) len0 by (auto simp: n_def)
    have "nr_cache_inventory_instance_id b = nr_cache_inventory_instance_id b0 \<and>
        nr_cache_inventory_generation b = nr_cache_inventory_generation b0"
      using cases by (auto simp: trimmed_def clear_logs_def)
    then show "nr_cache_inventory_instance_id b = inv_instance_id (bs_inventory s)"
      "nr_cache_inventory_generation b = inv_generation (bs_inventory s)"
      using body_generation [OF inv] by (simp_all add: b0_def)
  qed (use ids progress in \<open>auto simp: n_def\<close>)
qed

lemma turn_step_eq:
  assumes "turn_fitted env u to_writer turns s i m = Inr (body, bytes)" and "turn_ok env u to_writer s (turns i)"
    and "is_ok (managed_device_id m)"
  obtains w where "turn_step env u to_writer turns s i m = snd (log_nest_report_warnings w (advance_nest_report_rotation m body))"
proof -
  obtain device_id where d: "managed_device_id m = Inr device_id" using assms(3) unfolding is_ok_iff by auto
  obtain response where "rt_respond (turns i) (''/v1/agent/devices/'' @ device_id @ ''/nest/report'') bytes = Inr response"
    "rr_status response = ''ok''"
    using assms(2) unfolding turn_ok_def by blast
  with assms(1) d show thesis
    by (intro that [of "rr_warnings response"])
       (simp add: turn_step_def exchange_nest_report_def turn_fitted_def db_bind_get_eq db_bind_def db_then_def
          accept_nest_report_response_def validate_nest_report_status_def)
qed

lemma cursor_after:
  assumes "nr_cache_inventory_instance_id body = inv_instance_id (bs_inventory s)"
    and "nr_cache_inventory_generation body = inv_generation (bs_inventory s)" and "inventory_ok env s"
  shows "inventory_cursor s (snd (log_nest_report_warnings w (advance_nest_report_rotation m body))) =
    (if nr_cache_artifacts_complete body then None
     else if nr_cache_artifacts body \<noteq> [] then Some (arep_local_id (last (nr_cache_artifacts body)))
     else inventory_cursor s m)"
  using assms
  by (auto simp: inventory_cursor_def nest_cache_report_cursor_def advance_nest_report_rotation_def Let_def inventory_ok_def
      split: option.split)

lemma last_of_take: "0 < n \<Longrightarrow> n \<le> length xs \<Longrightarrow> last (take n xs) = xs ! (n - 1)"
  by (subst last_conv_nth) (auto simp: min_absorb2)

lemma unreported_after:
  assumes inv: "inventory_ok env s" and ok: "turn_ok env u to_writer s (turns i)" and dev: "is_ok (managed_device_id m)"
    and "\<not> turn_complete env u to_writer turns s i m"
  shows "unreported s m = turn_sent env u to_writer turns s i m @ unreported s (turn_step env u to_writer turns s i m)"
proof -
  obtain body bytes n where t: "turn_fitted env u to_writer turns s i m = Inr (body, bytes)"
    "n \<le> length (unreported s m)" "map arep_local_id (nr_cache_artifacts body) = take n (unreported s m)"
    "nr_cache_inventory_instance_id body = inv_instance_id (bs_inventory s)"
    "nr_cache_inventory_generation body = inv_generation (bs_inventory s)"
    by (rule turn_result [where turns = turns and i = i and m = m, OF inv ok])
  obtain w where step: "turn_step env u to_writer turns s i m = snd (log_nest_report_warnings w (advance_nest_report_rotation m body))"
    by (rule turn_step_eq [OF t(1) ok dev])
  have incomplete: "\<not> nr_cache_artifacts_complete body" using assms(4) t(1) by (simp add: turn_complete_def)
  let ?L = "below_cursor (inventory_cursor s m) (bs_artifacts s)"
  have "unreported s (turn_step env u to_writer turns s i m) = drop n (unreported s m)"
  proof (cases "n = 0")
    case True
    then have "nr_cache_artifacts body = []" using t(3) by simp
    then show ?thesis using cursor_after [OF t(4,5) inv, of w m] incomplete True by (simp add: unreported_def step)
  next
    case False
    have len: "length (nr_cache_artifacts body) = n" using arg_cong [OF t(3), of length] t(2) by simp
    have "arep_local_id (last (nr_cache_artifacts body)) = last (take n (unreported s m))"
      using False len t(3) by (metis last_map length_0_conv)
    also have "\<dots> = ar_id (?L ! (n - 1))" using False t(2) by (simp add: unreported_def last_of_take)
    finally have "inventory_cursor s (turn_step env u to_writer turns s i m) = Some (ar_id (?L ! (n - 1)))"
      using cursor_after [OF t(4,5) inv, of w m] incomplete False len by (auto simp: step)
    then show ?thesis
      using below_cursor_advance [of "bs_artifacts s" n "inventory_cursor s m"] False t(2) inv
      by (simp add: unreported_def inventory_ok_def)
  qed
  then show ?thesis using t(1,3) by (simp add: turn_sent_def)
qed

lemma turn_keeps:
  assumes "inventory_ok env s" and "turn_ok env u to_writer s (turns i)" and "is_ok (managed_device_id m)"
  shows "unat (mg_report_rotation_round (turn_step env u to_writer turns s i m)) = (unat (mg_report_rotation_round m) + 1) mod 4"
    and "is_ok (managed_device_id (turn_step env u to_writer turns s i m))"
proof -
  obtain body bytes where t: "turn_fitted env u to_writer turns s i m = Inr (body, bytes)"
    by (rule turn_result [where turns = turns and i = i and m = m, OF assms(1,2)])
  obtain w where "turn_step env u to_writer turns s i m = snd (log_nest_report_warnings w (advance_nest_report_rotation m body))"
    by (rule turn_step_eq [OF t assms(2,3)])
  with assms(3) show "unat (mg_report_rotation_round (turn_step env u to_writer turns s i m)) = (unat (mg_report_rotation_round m) + 1) mod 4"
    and "is_ok (managed_device_id (turn_step env u to_writer turns s i m))"
    by (simp_all add: next_round managed_device_id_def)
qed

lemma run_round:
  assumes "inventory_ok env s" and "\<And>i. turn_ok env u to_writer s (turns i)" and "is_ok (managed_device_id m)"
  shows "unat (mg_report_rotation_round (run_from (turn_step env u to_writer turns s) i j m)) mod 4 =
    (unat (mg_report_rotation_round m) + j) mod 4"
  using assms(3)
proof (induction j arbitrary: i m)
  case (Suc j)
  note keeps = turn_keeps [where turns = turns and i = i, OF assms(1,2) Suc.prems]
  show ?case using keeps(1) by (simp add: Suc.IH [OF keeps(2)]) presburger
qed simp

interpretation inventory: paged_report
  "\<lambda>m. inventory_ok env s \<and> (\<forall>i. turn_ok env u to_writer s (turns i)) \<and> is_ok (managed_device_id m)"
  "turn_step env u to_writer turns s" "turn_sent env u to_writer turns s" "turn_complete env u to_writer turns s"
  "unreported s" 4 for env u to_writer turns s
proof (unfold_locales, goal_cases)
  case (1 m i)
  then show ?case using turn_keeps(2) by blast
next
  case (2 m i)
  then show ?case
    by (auto simp: turn_complete_def turn_sent_def split: sum.splits elim!: turn_result [of env s u to_writer turns i m])
next
  case (3 m i)
  then show ?case by (intro unreported_after) auto
next
  case (4 m i)
  define j where "j = (3 + 3 * unat (mg_report_rotation_round m)) mod 4"
  let ?m = "run_from (turn_step env u to_writer turns s) i j m"
  have "(unat (mg_report_rotation_round m) + j) mod 4 = 3" unfolding j_def by presburger
  then have "priority_from_round (mg_report_rotation_round ?m) = CacheArtifacts"
    using run_round [of env s u to_writer turns m i j] 4 by (simp add: priority_cache)
  moreover have "j < 4" by (simp add: j_def)
  ultimately show ?case
    using 4 by (intro exI [of _ j] conjI) (auto simp: turn_complete_def turn_sent_def elim!: turn_result [of env s u to_writer turns "i + j" ?m])
qed

lemma complete_turn_restarts:
  assumes "inventory_ok env s" and "turn_ok env u to_writer s (turns i)" and "is_ok (managed_device_id m)"
    and "turn_complete env u to_writer turns s i m"
  shows "unreported s (turn_step env u to_writer turns s i m) = map ar_id (order_desc ar_id (bs_artifacts s))"
proof -
  obtain body bytes where t: "turn_fitted env u to_writer turns s i m = Inr (body, bytes)"
    "nr_cache_inventory_instance_id body = inv_instance_id (bs_inventory s)"
    "nr_cache_inventory_generation body = inv_generation (bs_inventory s)"
    by (rule turn_result [where turns = turns and i = i and m = m, OF assms(1,2)])
  obtain w where "turn_step env u to_writer turns s i m = snd (log_nest_report_warnings w (advance_nest_report_rotation m body))"
    by (rule turn_step_eq [OF t(1) assms(2,3)])
  moreover have "nr_cache_artifacts_complete body" using assms(4) t(1) by (simp add: turn_complete_def)
  ultimately show ?thesis using cursor_after [OF t(2,3) assms(1), of w m] by (simp add: unreported_def below_cursor_def)
qed

text \<open>C9: the artifacts of the cache all reach the service: as long as the inventory does not change,
  from any state of the cursors some report among the next four per artifact still to be reported
  (and four more) calls the list complete; up to it the reports have sent exactly those
  artifacts, in the order of the list and each once, whatever was trimmed from them; and the report
  after it starts again with the whole inventory.\<close>

theorem cache_inventory_is_reported:
  assumes "inventory_ok env s" and "\<forall>i. turn_ok env uuid_parse to_writer s (turns i)" and "is_ok (managed_device_id managed)"
  shows "\<exists>n. n < 4 * (length (unreported s managed) + 1) \<and>
    turn_complete env uuid_parse to_writer turns s n (run_from (turn_step env uuid_parse to_writer turns s) 0 n managed) \<and>
    sent_from (turn_step env uuid_parse to_writer turns s) (turn_sent env uuid_parse to_writer turns s) 0 (Suc n) managed =
      unreported s managed \<and>
    unreported s (run_from (turn_step env uuid_parse to_writer turns s) 0 (Suc n) managed) =
      map ar_id (order_desc ar_id (bs_artifacts s))"
proof -
  let ?step = "turn_step env uuid_parse to_writer turns s"
  obtain n where n: "n < 4 * (length (unreported s managed) + 1)"
    "turn_complete env uuid_parse to_writer turns s n (run_from ?step 0 n managed)"
    "sent_from ?step (turn_sent env uuid_parse to_writer turns s) 0 (Suc n) managed = unreported s managed"
    using inventory.traversal_ends [of env s uuid_parse to_writer turns managed 0] assms by auto
  have "run_from ?step 0 (Suc n) managed = ?step n (run_from ?step 0 n managed)"
    using run_from_add [of ?step 0 n 1 managed] by simp
  moreover have "is_ok (managed_device_id (run_from ?step 0 n managed))"
    using inventory.run_ok [of env s uuid_parse to_writer turns managed 0 n] assms by blast
  ultimately show ?thesis using complete_turn_restarts [OF assms(1) _ _ n(2)] assms(2) n by auto
qed

section \<open>Every boot event is reported\<close>

record 'x boot_turn =
  bt_settings :: "nat \<Rightarrow> nat \<Rightarrow> 'x"
  bt_respond :: "str \<Rightarrow> str \<Rightarrow> unit sync_result"

definition boot_turn_step ::
  "(str \<Rightarrow> str option) \<Rightarrow> 'x boot_report writer \<Rightarrow> (nat \<Rightarrow> 'x boot_turn) \<Rightarrow> store \<Rightarrow> nat \<Rightarrow> managed_state \<Rightarrow> managed_state" where
  "boot_turn_step uuid_parse to_writer turns s i managed =
     snd (report_boot_state uuid_parse to_writer (bt_respond (turns i)) (bt_settings (turns i)) s managed)"

definition boot_turn_sent ::
  "(str \<Rightarrow> str option) \<Rightarrow> 'x boot_report writer \<Rightarrow> (nat \<Rightarrow> 'x boot_turn) \<Rightarrow> store \<Rightarrow> nat \<Rightarrow> managed_state \<Rightarrow> int list" where
  "boot_turn_sent uuid_parse to_writer turns s i managed =
     (case rbind (from_app (fst (boot_report_body uuid_parse (bt_settings (turns i)) managed s)))
             (\<lambda>body. fit_boot_report_body to_writer body max_boot_report_body_bytes) of
        Inr (body, _) \<Rightarrow> map ber_source_event_id (br_events body) | Inl _ \<Rightarrow> [])"

definition event_ids :: "store \<Rightarrow> int list" where
  "event_ids s = sort (map ev_id (st_events s))"

definition unsent_events :: "store \<Rightarrow> managed_state \<Rightarrow> int list" where
  "unsent_events s managed = filter (\<lambda>i. unwrap_or (mg_last_reported_event_id managed) 0 < i) (event_ids s)"

text \<open>The reports of the stored events.\<close>

definition event_reports :: "(str \<Rightarrow> str option) \<Rightarrow> store \<Rightarrow> boot_event_report set" where
  "event_reports uuid_parse s =
     (\<lambda>e. event_report uuid_parse (e, Option.bind (ev_selected_profile_id e) (\<lambda>i.
            Option.bind (find (\<lambda>p. prof_id p = i) (st_profiles s)) prof_managed_profile_id))) ` set (st_events s)"

text \<open>The service accepts the report, and a report without clients and with at most one of the stored events
  fits.\<close>

definition boot_turn_ok :: "(str \<Rightarrow> str option) \<Rightarrow> 'x boot_report writer \<Rightarrow> store \<Rightarrow> 'x boot_turn \<Rightarrow> bool" where
  "boot_turn_ok uuid_parse to_writer s turn \<longleftrightarrow>
     (\<forall>path bytes. bt_respond turn path bytes = Inr ()) \<and>
     (\<forall>events. length events \<le> 1 \<longrightarrow> set events \<subseteq> event_reports uuid_parse s \<longrightarrow>
        boot_report_body_fits to_writer
          \<lparr> br_settings = bt_settings turn (length (st_profiles s)) (length (st_devices s)), br_clients = [], br_events = events \<rparr>
          max_boot_report_body_bytes)"

lemma map_sort_key: "map f (sort_key f xs) = sort (map f xs)"
  by (rule sym, rule properties_for_sort) simp_all

lemma boot_events_listed:
  assumes "fst (boot_report_body uuid_parse settings managed s) = Inr body"
  shows "map ber_source_event_id (br_events body) = take 500 (unsent_events s managed)"
    and "br_settings body = settings (length (st_profiles s)) (length (st_devices s))"
    and "set (br_events body) \<subseteq> event_reports uuid_parse s"
proof -
  have id: "ber_source_event_id (event_report uuid_parse (e, p)) = ev_id e" for e p by (simp add: event_report_def)
  show "map ber_source_event_id (br_events body) = take 500 (unsent_events s managed)"
    using assms
    by (auto simp: boot_report_body_def current_boot_client_reports_def list_profiles_def list_events_after_def db_bind_get_eq
        db_ret_def unsent_events_def event_ids_def max_report_events_def comp_def id take_map [symmetric] filter_sort [symmetric]
        map_sort_key [symmetric] filter_map)
  show "br_settings body = settings (length (st_profiles s)) (length (st_devices s))"
    using assms
    by (auto simp: boot_report_body_def current_boot_client_reports_def list_profiles_def list_events_after_def db_bind_get_eq
        db_ret_def order_desc_def)
  show "set (br_events body) \<subseteq> event_reports uuid_parse s"
    using assms
    by (auto simp: boot_report_body_def current_boot_client_reports_def list_profiles_def list_events_after_def db_bind_get_eq
        db_ret_def event_reports_def dest!: in_set_takeD)
qed

lemma boot_report_body_ok: "\<exists>body. fst (boot_report_body uuid_parse settings managed s) = Inr body"
  by (simp add: boot_report_body_def current_boot_client_reports_def list_profiles_def list_events_after_def db_bind_get_eq db_ret_def)

lemma prefix_of_max_fitting:
  assumes "len \<noteq> 0 \<Longrightarrow> fits 1"
  shows "max_fitting_prefix_len len fits \<le> len" and "max_fitting_prefix_len len fits = 0 \<Longrightarrow> len = 0"
    and "max_fitting_prefix_len len fits \<noteq> 0 \<Longrightarrow> fits (max_fitting_prefix_len len fits)"
  using assms by (rule_tac [!] prefix_search [of fits len]) auto

text \<open>A report of the boot server that does not fit keeps the first of its events.\<close>

lemma fit_boot_result:
  assumes small: "\<And>k. k \<le> 1 \<Longrightarrow> boot_report_body_fits to_writer (body \<lparr> br_clients := [], br_events := take k (br_events body) \<rparr>) max_bytes"
  obtains body' bytes k where "fit_boot_report_body to_writer body max_bytes = Inr (body', bytes)"
    "br_events body' = take k (br_events body)" "k \<le> length (br_events body)" "k = 0 \<longrightarrow> br_events body = []"
proof -
  let ?fits = "\<lambda>b. boot_report_body_fits to_writer b max_bytes"
  let ?c = "max_fitting_prefix_len (length (br_clients body)) (\<lambda>n. ?fits (body \<lparr> br_clients := take n (br_clients body) \<rparr>))"
  let ?b = "body \<lparr> br_clients := take ?c (br_clients body) \<rparr>"
  let ?e = "max_fitting_prefix_len (length (br_events body)) (\<lambda>n. ?fits (?b \<lparr> br_events := take n (br_events body) \<rparr>))"
  note fits = boot_report_body_fits_def
  have eq: "fit_boot_report_body to_writer body max_bytes =
      (if ?fits body then Inr (body, serialize_boot_report_body to_writer body)
       else let body = (if ?fits ?b then ?b else ?b \<lparr> br_events := take ?e (br_events body) \<rparr>)
            in if ?fits body then Inr (body, serialize_boot_report_body to_writer body)
               else Inl (Bail (''managed boot report base body exceeded '' @ nat_to_str max_bytes @ '' bytes'')))"
    by (simp add: fit_boot_report_body_def fits Let_def not_less)
  show thesis
  proof (cases "?fits body \<or> ?fits ?b")
    case True
    define b where "b = (if ?fits body then body else ?b)"
    from True have "fit_boot_report_body to_writer body max_bytes = Inr (b, serialize_boot_report_body to_writer b)"
      "br_events b = take (length (br_events body)) (br_events body)"
      by (auto simp: eq b_def Let_def)
    then show ?thesis by (rule that) auto
  next
    case False
    then have "?c = 0" by (rule_tac prefix_search [of "\<lambda>n. ?fits (body \<lparr> br_clients := take n (br_clients body) \<rparr>)" "length (br_clients body)"]) auto
    then have b: "?b \<lparr> br_events := take n (br_events body) \<rparr> = body \<lparr> br_clients := [], br_events := take n (br_events body) \<rparr>" for n
      by simp
    note e = prefix_of_max_fitting [of "length (br_events body)" "\<lambda>n. ?fits (?b \<lparr> br_events := take n (br_events body) \<rparr>)"]
    have "?fits (?b \<lparr> br_events := take ?e (br_events body) \<rparr>)"
      using e(3) small [of 0] small [of 1] unfolding b by (cases "?e = 0") (auto simp: b)
    then have "fit_boot_report_body to_writer body max_bytes = Inr (?b \<lparr> br_events := take ?e (br_events body) \<rparr>,
        serialize_boot_report_body to_writer (?b \<lparr> br_events := take ?e (br_events body) \<rparr>))"
      using False unfolding eq by (simp add: Let_def)
    then show ?thesis by (rule that) (use e(1,2) small [of 1] in \<open>auto simp: b\<close>)
  qed
qed

lemma drop_after:
  assumes "sorted xs" "distinct xs" "0 < k" "k \<le> length (filter (\<lambda>x. c < x) xs)"
  shows "filter (\<lambda>x. Max (set (take k (filter (\<lambda>x. c < x) xs))) < x) xs = drop k (filter (\<lambda>x. c < (x :: int)) xs)"
proof -
  let ?ys = "filter (\<lambda>x. c < x) xs"
  have ys: "sorted (take k ?ys @ drop k ?ys)" "distinct (take k ?ys @ drop k ?ys)" using assms by (simp_all add: sorted_wrt_filter)
  have ne: "take k ?ys \<noteq> []" using assms(3,4) by auto
  let ?M = "Max (set (take k ?ys))"
  have M: "?M \<in> set (take k ?ys)" using ne by (intro Max_in) auto
  then have "c < ?M" by (auto dest: in_set_takeD)
  then have "filter (\<lambda>x. ?M < x) xs = filter (\<lambda>x. ?M < x) ?ys" by (simp add: filter_filter) (rule filter_cong, auto)
  also have "\<dots> = filter (\<lambda>x. ?M < x) (take k ?ys) @ filter (\<lambda>x. ?M < x) (drop k ?ys)"
    by (metis append_take_drop_id filter_append)
  also have "filter (\<lambda>x. ?M < x) (take k ?ys) = []" by (auto simp: filter_empty_conv not_less)
  also have "filter (\<lambda>x. ?M < x) (drop k ?ys) = drop k ?ys"
    using ys M unfolding sorted_append distinct_append
    by (intro filter_True) (metis disjoint_iff order_le_less)
  finally show ?thesis by simp
qed

lemma boot_turn_result:
  assumes ok: "boot_turn_ok uuid_parse to_writer s (turns i)" and dev: "is_ok (managed_device_id m)"
    and ids: "distinct (event_ids s)"
  obtains k where "boot_turn_sent uuid_parse to_writer turns s i m = take k (unsent_events s m)"
    "k \<le> length (unsent_events s m)" "k = 0 \<longrightarrow> unsent_events s m = []"
    "unsent_events s (boot_turn_step uuid_parse to_writer turns s i m) = drop k (unsent_events s m)"
    "is_ok (managed_device_id (boot_turn_step uuid_parse to_writer turns s i m))"
proof -
  obtain body where body: "fst (boot_report_body uuid_parse (bt_settings (turns i)) m s) = Inr body"
    using boot_report_body_ok by blast
  note listed = boot_events_listed [OF body]
  have mem: "set (take k (br_events body)) \<subseteq> event_reports uuid_parse s" for k
    using listed(3) by (auto dest: in_set_takeD)
  have "boot_report_body_fits to_writer (body \<lparr> br_clients := [], br_events := take k (br_events body) \<rparr>) max_boot_report_body_bytes"
    if "k \<le> 1" for k
  proof -
    have "body \<lparr> br_clients := [], br_events := take k (br_events body) \<rparr> =
        \<lparr> br_settings = bt_settings (turns i) (length (st_profiles s)) (length (st_devices s)), br_clients = [],
          br_events = take k (br_events body) \<rparr>" using listed(2) by (cases body) simp
    moreover have "length (take k (br_events body)) \<le> 1" using that by simp
    ultimately show ?thesis using ok mem [of k] unfolding boot_turn_ok_def by metis
  qed
  then obtain body' bytes k where fit: "fit_boot_report_body to_writer body max_boot_report_body_bytes = Inr (body', bytes)"
    "br_events body' = take k (br_events body)" "k \<le> length (br_events body)" "k = 0 \<longrightarrow> br_events body = []"
    by (rule fit_boot_result [of to_writer body max_boot_report_body_bytes]) blast
  have k500: "k \<le> length (unsent_events s m)" "k \<le> 500" using fit(3) arg_cong [OF listed(1), of length] by simp_all
  have sent: "map ber_source_event_id (br_events body') = take k (unsent_events s m)"
    using k500(2) by (simp add: fit(2) take_map [symmetric] listed(1) min_absorb1)
  obtain device_id where d: "managed_device_id m = Inr device_id" using dev unfolding is_ok_iff by auto
  have step: "boot_turn_step uuid_parse to_writer turns s i m =
      (case max_event_id (br_events body') of Some i \<Rightarrow> m \<lparr> mg_last_reported_event_id := Some i \<rparr> | None \<Rightarrow> m)"
    using ok by (simp add: boot_turn_step_def report_boot_state_def db_bind_get_eq body from_app_def fit(1) d db_bind_def db_then_def
        boot_turn_ok_def)
  have "unsent_events s (boot_turn_step uuid_parse to_writer turns s i m) = drop k (unsent_events s m)"
  proof (cases "k = 0")
    case True
    then show ?thesis by (simp add: step fit(2) max_event_id_def)
  next
    case False
    then have "max_event_id (br_events body') = Some (Max (set (take k (unsent_events s m))))"
      using sent k500(1) by (cases "br_events body'") (auto simp: max_event_id_def)
    then show ?thesis
      using drop_after [of "event_ids s" k "unwrap_or (mg_last_reported_event_id m) 0"] False k500(1) ids
      by (simp add: step unsent_events_def event_ids_def unwrap_or_def)
  qed
  then show thesis
    by (rule that [rotated 3])
       (use sent k500 fit(4) listed(1) dev in \<open>auto simp: boot_turn_sent_def rbind_def body from_app_def fit(1) step
          managed_device_id_def split: option.splits\<close>)
qed

interpretation boot_events: paged_report
  "\<lambda>m. distinct (event_ids s) \<and> (\<forall>i. boot_turn_ok u to_writer s (turns i)) \<and> is_ok (managed_device_id m)"
  "boot_turn_step u to_writer turns s" "boot_turn_sent u to_writer turns s"
  "\<lambda>i m. boot_turn_sent u to_writer turns s i m = unsent_events s m" "unsent_events s" 1 for u to_writer turns s
proof (unfold_locales, goal_cases)
  case (1 m i)
  show ?case by (rule boot_turn_result [of u to_writer s turns i m]) (use 1 in auto)
next
  case (3 m i)
  show ?case by (rule boot_turn_result [of u to_writer s turns i m]) (use 3 in auto)
next
  case (4 m i)
  show ?case by (rule boot_turn_result [of u to_writer s turns i m]) (use 4 in auto)
qed

text \<open>C10: every boot event reaches the service: of the next reports, one more than there are events to
  report at most, some report is the last; up to it the reports have sent every event after the cursor, in
  the order of their numbers and each once; nothing is left to send after it.\<close>

theorem boot_events_are_reported:
  assumes "distinct (event_ids s)" and "\<forall>i. boot_turn_ok uuid_parse to_writer s (turns i)"
    and "is_ok (managed_device_id managed)"
  shows "\<exists>n \<le> length (unsent_events s managed).
    sent_from (boot_turn_step uuid_parse to_writer turns s) (boot_turn_sent uuid_parse to_writer turns s) 0 (Suc n) managed =
      unsent_events s managed \<and>
    unsent_events s (run_from (boot_turn_step uuid_parse to_writer turns s) 0 (Suc n) managed) = []"
proof -
  let ?step = "boot_turn_step uuid_parse to_writer turns s"
  obtain n where n: "n < 1 * (length (unsent_events s managed) + 1)"
    "boot_turn_sent uuid_parse to_writer turns s (0 + n) (run_from ?step 0 n managed) = unsent_events s (run_from ?step 0 n managed)"
    "sent_from ?step (boot_turn_sent uuid_parse to_writer turns s) 0 (Suc n) managed = unsent_events s managed"
    using boot_events.traversal_ends [of s uuid_parse to_writer turns managed 0] assms by blast
  have dev: "is_ok (managed_device_id (run_from ?step 0 n managed))"
    using boot_events.run_ok [of s uuid_parse to_writer turns managed 0 n] assms by blast
  have "unsent_events s (?step n (run_from ?step 0 n managed)) = []"
    by (rule boot_turn_result [where turns = turns and i = n, OF spec [OF assms(2), of n] dev assms(1)]) (use n(2) in auto)
  moreover have "run_from ?step 0 (Suc n) managed = ?step n (run_from ?step 0 n managed)"
    using run_from_add [of ?step 0 n 1 managed] by simp
  ultimately show ?thesis using n by (intro exI [of _ n]) (simp del: run_from.simps sent_from.simps)
qed

section \<open>Examples\<close>

text \<open>Two artifacts of 24 MiB each in a report: each needs a report of its own.\<close>

definition demo_cache :: build_store where
  "demo_cache =
     (let put = (\<lambda>kind. upsert_cache_artifact demo_json ''t'' None kind demo_hash 5 ''/nix/x'' [] [] [] [] [] 0 0 0 [] None [] None None)
      in snd (put ''nixos_closure'' (snd (put ''desktop_image'' demo_builds))))"

definition demo_report_writer :: "unit nest_report writer" where
  "demo_report_writer b = map (\<lambda>_. replicate (24 * 1024 * 1024) CHR ''a'') (nr_cache_artifacts b)"

definition demo_inputs :: "unit report_inputs" where
  "demo_inputs =
     \<lparr> ri_scrub_valid = True, ri_peer_supports_runtime_fencing = True, ri_report_protocol = 4,
       ri_cache = \<lparr> cs_status = ''ready'', cs_error = [], cs_rest = () \<rparr>, ri_workstation_multicast = None,
       ri_software_update_findings = None, ri_lanes = () \<rparr>"

definition demo_turn :: "unit report_turn" where
  "demo_turn =
     \<lparr> rt_inputs = demo_inputs,
       rt_respond = (\<lambda>_ _. Inr \<lparr> rr_status = ''ok'', rr_workstation_netboot = None,
                              rr_warnings = \<lparr> rw_codes = [], rw_truncated = False \<rparr> \<rparr>) \<rparr>"

definition demo_body :: "unit nest_report" where
  "demo_body = nest_report_body demo_json (\<lambda>v. Some v) demo_inputs demo_cache demo_managed"

lemma demo_writer_length: "length (serialize_nest_report_body demo_report_writer b) = 25165824 * length (nr_cache_artifacts b)"
  by (simp add: serialize_nest_report_body_def demo_report_writer_def length_concat comp_def sum_list_triv)

theorem cache_inventory_is_reported_witness:
  "unreported demo_cache demo_managed = [2, 1] \<and>
   (\<exists>n < 12. sent_from (turn_step demo_json (\<lambda>_. None) demo_report_writer (\<lambda>_. demo_turn) demo_cache)
      (turn_sent demo_json (\<lambda>_. None) demo_report_writer (\<lambda>_. demo_turn) demo_cache) 0 (Suc n) demo_managed = [2, 1])"
proof -
  have inv: "inventory_ok demo_json demo_cache" and dev: "is_ok (managed_device_id demo_managed)"
    and u: "unreported demo_cache demo_managed = [2, 1]" by code_simp+
  have turn: "turn_ok demo_json (\<lambda>_. None) demo_report_writer demo_cache demo_turn"
    by (simp add: turn_ok_def demo_turn_def demo_inputs_def fits_iff max_nest_report_body_bytes_def demo_writer_length)
  from cache_inventory_is_reported [OF inv _ dev, of "\<lambda>_. None" demo_report_writer "\<lambda>_. demo_turn"] turn u
  show ?thesis by auto
qed

theorem fit_nest_report_body_spec_witness:
  "map arep_local_id (nr_cache_artifacts demo_body) = [2, 1] \<and>
   (\<exists>body bytes. fit_nest_report_body demo_report_writer demo_body max_nest_report_body_bytes ActiveBuilds = Inr (body, bytes) \<and>
      length bytes \<le> 33554432 \<and> length (nr_cache_artifacts body) \<le> 1 \<and> trimmed (clear_logs demo_body) body)"
proof -
  have b: "map arep_local_id (nr_cache_artifacts demo_body) = [2, 1]" by code_simp
  have l: "length (nr_cache_artifacts demo_body) = 2" using arg_cong [OF b, of length] by simp
  have m: "max_nest_report_body_bytes < 2 ^ 64" by (simp add: max_nest_report_body_bytes_def)
  let ?r = "fit_nest_report_body demo_report_writer demo_body max_nest_report_body_bytes ActiveBuilds"
  note spec = fit_nest_report_body_spec [where to_writer = demo_report_writer and body = demo_body and priority = ActiveBuilds, OF m]
  have big: "max_nest_report_body_bytes = 33554432" by (simp add: max_nest_report_body_bytes_def)
  have large: "\<not> length (serialize_nest_report_body demo_report_writer demo_body) \<le> 33554432" by (simp add: demo_writer_length l)
  show ?thesis
  proof (cases ?r)
    case (Inl e)
    with spec show ?thesis by (simp add: demo_writer_length) auto
  next
    case (Inr p)
    obtain body bytes where p: "p = (body, bytes)" by (rule prod.exhaust)
    have "bytes = serialize_nest_report_body demo_report_writer body \<and> length bytes \<le> 33554432 \<and> trimmed (clear_logs demo_body) body"
      using spec [unfolded Inr p, simplified, unfolded big] large by meson
    then have r: "bytes = serialize_nest_report_body demo_report_writer body" "length bytes \<le> 33554432" "trimmed (clear_logs demo_body) body"
      by blast+
    from r(2) have "length (nr_cache_artifacts body) \<le> 1" unfolding r(1) demo_writer_length by linarith
    with r Inr p b show ?thesis by blast
  qed
qed

theorem max_fitting_prefix_len_spec_witness: "max_fitting_prefix_len 10 (\<lambda>k. k \<le> 3) = 3"
proof -
  from max_fitting_prefix_len_spec [of "\<lambda>k. k \<le> 3" 10]
  obtain r where r: "max_fitting_prefix_len 10 (\<lambda>k. k \<le> 3) = r" "r = 0 \<or> r \<le> 3" "\<forall>k \<le> 10. k \<le> 3 \<longrightarrow> k \<le> r" by auto
  from r(3) have "3 \<le> r" by simp
  with r show ?thesis by auto
qed

theorem select_build_job_reports_fair_witness:
  "length (nr_build_jobs demo_body) = 2 \<and>
   length (select_build_job_reports (nr_build_jobs demo_body) None None (Some 2) 1 RejectedBuilds) = 1"
proof -
  have l: "length (nr_build_jobs demo_body) = 2" by code_simp
  with select_build_job_reports_fair [of "nr_build_jobs demo_body" None None "Some 2" 1 RejectedBuilds]
  show ?thesis by (auto simp: Let_def)
qed

theorem selection_agrees_with_query_witness:
  "\<exists>jobs t. list_build_jobs_report_page demo_json None None (Some 2) 0 5 33554432 demo_builds = (Inr jobs, t) \<and> map job_id jobs = [2, 1] \<and>
    (let reports = filter (\<lambda>job. jrep_managed_job_id job \<noteq> None) (map (report_of_job (\<lambda>v. Some v)) jobs)
     in select_build_job_reports reports None None (Some 2) 5 CacheArtifacts =
        filter active_group reports @ filter rejected_group reports @ filter terminal_group reports)"
proof -
  let ?m = "list_build_jobs_report_page demo_json None None (Some 2) 0 5 33554432 demo_builds"
  have q: "map_sum id (map job_id) (fst ?m) = Inr [2, 1]" by code_simp
  obtain x t where m: "?m = (x, t)" by (rule prod.exhaust)
  with q obtain jobs where "x = Inr jobs" "map job_id jobs = [2, 1]" by (cases x) auto
  with m selection_agrees_with_query [OF m [unfolded \<open>x = Inr jobs\<close>], of "\<lambda>v. Some v" CacheArtifacts] show ?thesis by auto
qed

text \<open>A boot server with three events, in reports that have room for one. The report writes the user agent
  of an event and two MiB around it.\<close>

definition demo_boot_log :: store where
  "demo_boot_log =
     (let ev = (\<lambda>i. \<lparr> ev_id = i, ev_device_id = None, ev_mac = None, ev_serial_number = None, ev_ip_address = None,
                      ev_user_agent = Some ''iPXE/1.21'', ev_selected_profile_id = None, ev_selected_profile_name = None,
                      ev_known_device = False, ev_created_at = ''t'' \<rparr>)
      in demo_store \<lparr> st_events := [ev 3, ev 1, ev 2] \<rparr>)"

definition demo_boot_writer :: "unit boot_report writer" where
  "demo_boot_writer b =
     map (\<lambda>e. (case ber_user_agent e of Some agent \<Rightarrow> agent | None \<Rightarrow> []) @ replicate (2 * 1024 * 1024) CHR ''a'') (br_events b)"

definition demo_boot_turn :: "unit boot_turn" where
  "demo_boot_turn = \<lparr> bt_settings = (\<lambda>_ _. ()), bt_respond = (\<lambda>_ _. Inr ()) \<rparr>"

lemma demo_boot_turn_ok: "boot_turn_ok (\<lambda>_. None) demo_boot_writer demo_boot_log demo_boot_turn"
proof -
  have agent: "ber_user_agent e = Some ''iPXE/1.21''" if "e \<in> event_reports (\<lambda>_. None) demo_boot_log" for e
    using that by (auto simp: event_reports_def demo_boot_log_def event_report_def)
  have "length (serialize_boot_report_body demo_boot_writer b) \<le> 3145728"
    if "length (br_events b) \<le> 1" "set (br_events b) \<subseteq> event_reports (\<lambda>_. None) demo_boot_log" for b
    using that agent by (cases "br_events b") (auto simp: serialize_boot_report_body_def demo_boot_writer_def)
  then show ?thesis
    by (simp add: boot_turn_ok_def demo_boot_turn_def boot_report_body_fits_def max_boot_report_body_bytes_def)
qed

theorem boot_events_are_reported_witness:
  "\<exists>n \<le> 3. sent_from (boot_turn_step (\<lambda>_. None) demo_boot_writer (\<lambda>_. demo_boot_turn) demo_boot_log)
      (boot_turn_sent (\<lambda>_. None) demo_boot_writer (\<lambda>_. demo_boot_turn) demo_boot_log) 0 (Suc n) demo_managed = [1, 2, 3]"
proof -
  have ids: "distinct (event_ids demo_boot_log)" and dev: "is_ok (managed_device_id demo_managed)"
    and u: "unsent_events demo_boot_log demo_managed = [1, 2, 3]" by code_simp+
  have "length (unsent_events demo_boot_log demo_managed) = 3" by (simp add: u)
  with boot_events_are_reported [OF ids _ dev, of "\<lambda>_. None" demo_boot_writer "\<lambda>_. demo_boot_turn"] demo_boot_turn_ok u
  show ?thesis by metis
qed

end
