(* ===== verification/Nest_Nix.thy ===== *)
theory Nest_Nix
  imports Nest_Request
begin

text \<open>
  The formats of the Nix binary cache (\<^verbatim>\<open>src/src/cache.rs\<close>): the base32 notation of digests, store
  paths, the records of a cache (\<^verbatim>\<open>narinfo\<close> files) and the signature check of such a record.
  Base64, hexadecimal decoding and the signature scheme are parameters; digests are lists of bytes.
\<close>

unbundle bit_operations_syntax

section \<open>Base32\<close>

definition cache_base32_alphabet :: str where
  "cache_base32_alphabet = ''0123456789abcdfghijklmnpqrsvwxyz''"

fun index_of :: "'a \<Rightarrow> 'a list \<Rightarrow> nat option" where
  "index_of x [] = None"
| "index_of x (y # ys) = (if x = y then Some 0 else map_option Suc (index_of x ys))"

text \<open>The loop of \<^verbatim>\<open>decode_nix_base32_sha256\<close> from a position on.\<close>

fun decode_digits :: "nat \<Rightarrow> nat \<Rightarrow> str \<Rightarrow> u8 list \<Rightarrow> u8 list sync_result" where
  "decode_digits len position [] decoded = Inr decoded"
| "decode_digits len position (b # bs) decoded =
     (case index_of b cache_base32_alphabet of
        None \<Rightarrow> Inl (Bail ''Nix base32 digest contained an invalid character'')
      | Some n \<Rightarrow>
          (let value = of_nat n :: u16;
               bit = (len - 1 - position) * 5;
               byte_index = bit div 8;
               shift = bit mod 8;
               shifted = push_bit shift value;
               decoded = decoded[byte_index := decoded ! byte_index OR ucast shifted]
           in if byte_index + 1 < length decoded
              then decode_digits len (Suc position) bs
                     (decoded[byte_index + 1 := decoded ! (byte_index + 1) OR ucast (drop_bit 8 shifted)])
              else if 255 < shifted then Inl (Bail ''Nix base32 digest had non-canonical high bits'')
              else decode_digits len (Suc position) bs decoded))"

definition decode_nix_base32_sha256 :: "str \<Rightarrow> u8 list sync_result" where
  "decode_nix_base32_sha256 encoded =
     (if length encoded \<noteq> 52 then Inl (Bail ''SHA-256 Nix base32 digest must contain 52 characters'')
      else decode_digits (length encoded) 0 encoded (replicate 32 0))"

definition base32_value :: "u8 list \<Rightarrow> nat \<Rightarrow> u16" where
  "base32_value digest position =
     (let bit = position * 5;
          byte_index = bit div 8;
          shift = bit mod 8;
          value = drop_bit shift (ucast (digest ! byte_index)) :: u16
      in (if byte_index + 1 < length digest then value OR push_bit (8 - shift) (ucast (digest ! (byte_index + 1))) else value)
         AND 31)"

definition encode_nix_base32_sha256 :: "u8 list \<Rightarrow> str" where
  "encode_nix_base32_sha256 digest = rev (map (\<lambda>position. cache_base32_alphabet ! unat (base32_value digest position)) [0..<52])"

section \<open>Store paths\<close>

definition nix_store_dir :: str where "nix_store_dir = ''/nix/store/''"

definition validate_store_path :: "str \<Rightarrow> unit sync_result" where
  "validate_store_path value =
     (case strip_prefix value nix_store_dir of
        None \<Rightarrow> Inl (Bail ''store path was outside /nix/store'')
      | Some relative \<Rightarrow>
          (if CHR ''/'' \<in> set relative then Inl (Bail ''store path contained non-canonical components'')
           else case split_once CHR ''-'' relative of
                  None \<Rightarrow> Inl (Bail ''store path omitted its Nix hash prefix'')
                | Some (hash, name) \<Rightarrow>
                    (if length hash \<noteq> 32 \<or> \<not> list_all (\<lambda>b. b \<in> set cache_base32_alphabet) hash \<or> name = [] \<or>
                        \<not> list_all (\<lambda>b. is_ascii_alphanumeric b \<or> b \<in> set ''._+?=-'') name
                     then Inl (Bail ''store path was not canonical'') else Inr ())))"

definition store_basename_hash :: "str \<Rightarrow> str option" where
  "store_basename_hash basename =
     (let hash = takeWhile (\<lambda>c. c \<noteq> CHR ''-'') basename
      in if length hash = 32 \<and> list_all is_ascii_alphanumeric hash then Some (to_ascii_lowercase hash) else None)"

definition store_path_hash :: "str \<Rightarrow> str option" where
  "store_path_hash store_path = store_basename_hash (last (split_on CHR ''/'' store_path))"

definition path_file_name :: "str \<Rightarrow> str option" where
  "path_file_name p = (case rev (path_components p) of Normal name # _ \<Rightarrow> Some name | _ \<Rightarrow> None)"

definition narinfo_filename_for_store_path :: "str \<Rightarrow> str sync_result" where
  "narinfo_filename_for_store_path store_path =
     (case path_file_name store_path of
        None \<Rightarrow> Inl (Bail ''store path has no safe basename'')
      | Some name \<Rightarrow>
          (case split_once CHR ''-'' name of
             None \<Rightarrow> Inl (Bail ''store path basename did not include a Nix hash prefix'')
           | Some (hash, _) \<Rightarrow>
               (if length hash \<noteq> 32 \<or> \<not> list_all is_ascii_alphanumeric hash
                then Inl (Bail ''store path basename did not include a safe Nix hash prefix'')
                else Inr (hash @ ''.narinfo''))))"

section \<open>Records of the cache\<close>

record parsed_narinfo =
  ni_store_path :: str
  ni_url :: str
  ni_compression :: str
  ni_file_hash :: str
  ni_file_size :: int
  ni_nar_hash :: str
  ni_nar_size :: int
  ni_references :: "str list"
  ni_signatures :: "str list"

definition empty_narinfo :: parsed_narinfo where
  "empty_narinfo =
     \<lparr> ni_store_path = [], ni_url = [], ni_compression = [], ni_file_hash = [], ni_file_size = 0, ni_nar_hash = [],
       ni_nar_size = 0, ni_references = [], ni_signatures = [] \<rparr>"

definition i64_or_zero :: "str \<Rightarrow> int" where
  "i64_or_zero value = (case parse_i64 value of Some i \<Rightarrow> i | None \<Rightarrow> 0)"

definition narinfo_reference :: "str \<Rightarrow> str" where
  "narinfo_reference reference = (if starts_with reference nix_store_dir then reference else nix_store_dir @ reference)"

definition narinfo_line :: "str \<Rightarrow> parsed_narinfo \<Rightarrow> parsed_narinfo" where
  "narinfo_line line n =
     (case split_once CHR '':'' line of
        None \<Rightarrow> n
      | Some (key, value) \<Rightarrow>
          (let value = trim value
           in if key = ''StorePath'' then n \<lparr> ni_store_path := value \<rparr>
              else if key = ''URL'' then n \<lparr> ni_url := value \<rparr>
              else if key = ''Compression'' then n \<lparr> ni_compression := value \<rparr>
              else if key = ''FileHash'' then n \<lparr> ni_file_hash := value \<rparr>
              else if key = ''FileSize'' then n \<lparr> ni_file_size := i64_or_zero value \<rparr>
              else if key = ''NarHash'' then n \<lparr> ni_nar_hash := value \<rparr>
              else if key = ''NarSize'' then n \<lparr> ni_nar_size := i64_or_zero value \<rparr>
              else if key = ''References'' then n \<lparr> ni_references := map narinfo_reference (split_whitespace value) \<rparr>
              else if key = ''Sig'' then n \<lparr> ni_signatures := ni_signatures n @ [value] \<rparr>
              else n))"

definition parse_narinfo :: "str \<Rightarrow> parsed_narinfo sync_result" where
  "parse_narinfo raw =
     (let n = fold narinfo_line (str_lines raw) empty_narinfo
      in if ni_store_path n = [] \<or> \<not> starts_with (ni_store_path n) nix_store_dir \<or> ni_url n = [] \<or>
            ni_file_hash n = [] \<or> ni_nar_hash n = [] \<or> ni_nar_size n \<le> 0 \<or> ni_signatures n = []
         then Inl (Bail ''generated narinfo omitted required signed cache metadata'')
         else Inr n)"

definition singleton_fields :: "str list" where
  "singleton_fields =
     [''StorePath'', ''URL'', ''Compression'', ''FileHash'', ''FileSize'', ''NarHash'', ''NarSize'', ''References'']"

definition split_once_str :: "str \<Rightarrow> str \<Rightarrow> (str \<times> str) option" where
  "split_once_str s p = map_option (\<lambda>i. (take i s, drop (i + length p) s)) (find_str s p)"

text \<open>The fields seen so far, and the number of signatures.\<close>

fun strict_lines :: "str list \<Rightarrow> str list \<Rightarrow> nat \<Rightarrow> (str list \<times> nat) sync_result" where
  "strict_lines [] seen signatures = Inr (seen, signatures)"
| "strict_lines (line # lines) seen signatures =
     (case split_once_str line '': '' of
        None \<Rightarrow> Inl (Bail ''generated NARInfo contained a malformed line'')
      | Some (key, _) \<Rightarrow>
          (if key \<in> set singleton_fields then
             (if key \<in> set seen then Inl (Bail (''generated NARInfo repeated the '' @ key @ '' field''))
              else strict_lines lines (key # seen) signatures)
           else if key = ''Sig'' then strict_lines lines seen (Suc signatures)
           else strict_lines lines seen signatures))"

definition parse_narinfo_strict :: "str \<Rightarrow> parsed_narinfo sync_result" where
  "parse_narinfo_strict raw =
     (if \<not> ends_with raw newline then Inl (Bail ''generated NARInfo did not end with a complete record'')
      else rbind (strict_lines (str_lines raw) [] 0) (\<lambda>(seen, signatures).
           case find (\<lambda>f. f \<notin> set seen) singleton_fields of
             Some f \<Rightarrow> Inl (Bail (''generated NARInfo omitted the '' @ f @ '' field''))
           | None \<Rightarrow> (if signatures = 0 then Inl (Bail ''generated NARInfo omitted a cache signature'')
                      else parse_narinfo raw)))"

section \<open>Digests and signatures\<close>

record nix_env =
  ne_b64_decode :: "str \<Rightarrow> str option"
  ne_hex_decode :: "str \<Rightarrow> str option"
  ne_key_from_bytes :: "str \<Rightarrow> bool"
  ne_key_is_weak :: "str \<Rightarrow> bool"
  ne_verify_strict :: "str \<Rightarrow> str \<Rightarrow> str \<Rightarrow> bool"
  ne_sha256 :: "str \<Rightarrow> u8 list"

definition to_bytes :: "str \<Rightarrow> u8 list" where
  "to_bytes s = map (\<lambda>c. of_nat (code c)) s"

definition parse_strong_sha256 :: "nix_env \<Rightarrow> str \<Rightarrow> str \<Rightarrow> u8 list sync_result" where
  "parse_strong_sha256 ne value field =
     rbind
       (case strip_prefix value ''sha256-'' of
          Some encoded \<Rightarrow>
            map_sum id to_bytes (ok_or (ne_b64_decode ne encoded) (Bail (''NARInfo '' @ field @ '' had invalid SRI base64'')))
        | None \<Rightarrow>
            (case strip_prefix value ''sha256:'' of
               Some encoded \<Rightarrow>
                 (if length encoded = 64 \<and> list_all is_ascii_hexdigit encoded
                  then map_sum id to_bytes (ok_or (ne_hex_decode ne encoded) (Bail (''NARInfo '' @ field @ '' had invalid hex'')))
                  else with_context (''NARInfo '' @ field @ '' had invalid Nix base32'') (decode_nix_base32_sha256 encoded))
             | None \<Rightarrow> Inl (Bail (''NARInfo '' @ field @ '' was not a strong SHA-256 hash''))))
       (\<lambda>bytes. if length bytes = 32 then Inr bytes
                else Inl (Bail (''NARInfo '' @ field @ '' did not contain a 256-bit digest'')))"

definition parse_cache_public_key :: "nix_env \<Rightarrow> str \<Rightarrow> (str \<times> str) sync_result" where
  "parse_cache_public_key ne public_key =
     (case split_once CHR '':'' public_key of
        None \<Rightarrow> Inl (Bail ''Nest cache public key had an invalid shape'')
      | Some (key_name, encoded_key) \<Rightarrow>
          (if key_name = [] \<or> encoded_key = [] then Inl (Bail ''Nest cache public key had an invalid shape'')
           else rbind (ok_or (ne_b64_decode ne encoded_key) (Bail ''decode Nest cache public key'')) (\<lambda>key_bytes.
                if length key_bytes \<noteq> 32 then Inl (Bail ''Nest cache public key was not 256-bit'')
                else if \<not> ne_key_from_bytes ne key_bytes then Inl (Bail ''parse Nest cache public key'')
                else if ne_key_is_weak ne key_bytes then Inl (Bail ''Nest cache public key must not be a weak Ed25519 key'')
                else Inr (key_name, key_bytes))))"

definition narinfo_fingerprint :: "nix_env \<Rightarrow> parsed_narinfo \<Rightarrow> str sync_result" where
  "narinfo_fingerprint ne n =
     rbind (parse_strong_sha256 ne (ni_nar_hash n) ''NarHash'') (\<lambda>digest.
     Inr (''1;'' @ ni_store_path n @ '';sha256:'' @ encode_nix_base32_sha256 digest @ '';'' @ int_to_str (ni_nar_size n) @ '';'' @
          join '','' (ni_references n)))"

definition signature_verifies :: "nix_env \<Rightarrow> str \<Rightarrow> str \<Rightarrow> str \<Rightarrow> str \<Rightarrow> bool" where
  "signature_verifies ne key_name verifying_key fingerprint value =
     (case split_once CHR '':'' value of
        None \<Rightarrow> False
      | Some (signature_name, encoded_signature) \<Rightarrow>
          signature_name = key_name \<and>
          (case ne_b64_decode ne encoded_signature of
             None \<Rightarrow> False
           | Some signature \<Rightarrow> length signature = 64 \<and> ne_verify_strict ne verifying_key fingerprint signature))"

definition verify_narinfo_signature :: "nix_env \<Rightarrow> parsed_narinfo \<Rightarrow> str \<Rightarrow> unit sync_result" where
  "verify_narinfo_signature ne n public_key =
     rbind (parse_cache_public_key ne public_key) (\<lambda>(key_name, verifying_key).
     rbind (narinfo_fingerprint ne n) (\<lambda>fingerprint.
     if list_ex (signature_verifies ne key_name verifying_key fingerprint) (ni_signatures n) then Inr ()
     else Inl (Bail ''NARInfo did not carry a valid signature from the active Nest cache key'')))"

definition public_key_fingerprint :: "nix_env \<Rightarrow> (str \<Rightarrow> str) \<Rightarrow> str \<Rightarrow> str" where
  "public_key_fingerprint ne sha256_hex public_key =
     (case split_once CHR '':'' public_key of
        None \<Rightarrow> []
      | Some (_, material) \<Rightarrow>
          (case ne_b64_decode ne material of
             Some bytes \<Rightarrow> (if length bytes = 32 then sha256_hex bytes else [])
           | None \<Rightarrow> []))"

section \<open>The base32 notation is faithful\<close>

text \<open>A digest as a sequence of bits, from the lowest bit of its first byte on.\<close>

definition gbit :: "u8 list \<Rightarrow> nat \<Rightarrow> bool" where
  "gbit xs i \<longleftrightarrow> i < 8 * length xs \<and> bit (xs ! (i div 8)) (i mod 8)"

lemma gbit_ext:
  assumes "length xs = length ys" and "\<And>i. i < 8 * length xs \<Longrightarrow> gbit xs i = gbit ys i"
  shows "xs = ys"
proof (rule nth_equalityI)
  show "length xs = length ys" by (rule assms(1))
  fix k
  assume k: "k < length xs"
  show "xs ! k = ys ! k"
  proof (rule bit_word_eqI)
    fix n
    assume n: "n < LENGTH(8)"
    then have "8 * k + n < 8 * length xs" "(8 * k + n) div 8 = k" "(8 * k + n) mod 8 = n" using k by auto
    with assms(2) [of "8 * k + n"] assms(1) show "bit (xs ! k) n = bit (ys ! k) n" by (simp add: gbit_def)
  qed
qed

lemma bit_31: "bit (31 :: u16) j \<longleftrightarrow> j < 5"
proof -
  have "bit (mask 5 :: u16) j \<longleftrightarrow> j < 5" unfolding bit_mask_iff by auto
  moreover have "(mask 5 :: u16) = 31" by (simp add: mask_eq_exp_minus_1)
  ultimately show ?thesis by simp
qed

lemma base32_value_bit:
  assumes "length d = 32" "p < 52"
  shows "bit (base32_value d p) j \<longleftrightarrow> j < 5 \<and> gbit d (5 * p + j)"
proof (cases "j < 5")
  case True
  define bi sh where "bi = 5 * p div 8" and "sh = 5 * p mod 8"
  have sh: "sh < 8" "5 * p = 8 * bi + sh" "bi < 32" using assms(2) by (auto simp: bi_def sh_def)
  have m: "bit (31 :: u16) j" using True by (simp only: bit_31)
  have 1: "bit (drop_bit sh (ucast (d ! bi)) :: u16) j \<longleftrightarrow> bit (d ! bi) (sh + j)"
    using True by (auto simp: bit_drop_bit_eq bit_unsigned_iff dest: bit_imp_le_length)
  have 2: "bit (push_bit (8 - sh) (ucast (d ! (bi + 1))) :: u16) j \<longleftrightarrow> 8 \<le> sh + j \<and> bit (d ! (bi + 1)) (sh + j - 8)"
    using True sh(1) by (auto simp: bit_push_bit_iff bit_unsigned_iff add.commute dest: bit_imp_le_length)
  have v: "base32_value d p = (if bi + 1 < length d then drop_bit sh (ucast (d ! bi)) OR push_bit (8 - sh) (ucast (d ! (bi + 1)))
      else drop_bit sh (ucast (d ! bi))) AND 31"
    by (simp add: base32_value_def Let_def bi_def sh_def mult.commute)
  have bits: "bit (base32_value d p) j \<longleftrightarrow> bit (d ! bi) (sh + j) \<or> bi + 1 < 32 \<and> 8 \<le> sh + j \<and> bit (d ! (bi + 1)) (sh + j - 8)"
    unfolding v bit_and_iff using m 1 2 assms(1) by (simp add: bit_or_iff)
  have e: "5 * p + j = 8 * bi + (sh + j)" using sh(2) by simp
  show ?thesis
  proof (cases "sh + j < 8")
    case lt: True
    have "(5 * p + j) div 8 = bi" "(5 * p + j) mod 8 = sh + j" unfolding e using lt by simp_all
    moreover have "5 * p + j < 8 * length d" using sh(3) lt unfolding e assms(1) by simp
    ultimately show ?thesis using True lt by (simp add: bits gbit_def)
  next
    case False
    define r where "r = sh + j - 8"
    have r: "sh + j = 8 + r" "r < 8" using sh(1) True False unfolding r_def by linarith+
    define q where "q = bi + 1"
    have e': "5 * p + j = 8 * q + r" using e r by (simp add: q_def)
    have "(5 * p + j) div 8 = q" "(5 * p + j) mod 8 = sh + j - 8" unfolding e' r(1) using r(2) by simp_all
    moreover have "\<not> bit (d ! bi) (sh + j)" using False by (auto dest: bit_imp_le_length)
    moreover have "5 * p + j < 8 * length d \<longleftrightarrow> q < 32" unfolding e' assms(1) using r by linarith
    ultimately show ?thesis using True False by (simp add: bits [folded q_def] gbit_def)
  qed
next
  case False
  then show ?thesis using bit_31 [of j] by (simp add: base32_value_def Let_def bit_and_iff)
qed

definition put_digit :: "u8 list \<Rightarrow> nat \<Rightarrow> u16 \<Rightarrow> u8 list" where
  "put_digit xs at value =
     (let bi = at div 8; shifted = push_bit (at mod 8) value;
          ys = xs[bi := xs ! bi OR ucast shifted]
      in if bi + 1 < length ys then ys[bi + 1 := ys ! (bi + 1) OR ucast (drop_bit 8 shifted)] else ys)"

lemma put_digit_length [simp]: "length (put_digit xs at value) = length xs"
  by (simp add: put_digit_def Let_def)

lemma put_digit_bit:
  assumes at: "at div 8 < length xs" and v: "\<And>j. bit v j \<Longrightarrow> j < 5" and i: "i < 8 * length xs"
  shows "gbit (put_digit xs at v) i \<longleftrightarrow> gbit xs i \<or> at \<le> i \<and> bit v (i - at)"
proof -
  define bi sh where "bi = at div 8" and "sh = at mod 8"
  have a: "at = 8 * bi + sh" "sh < 8" by (simp_all add: bi_def sh_def)
  define k n where "k = i div 8" and "n = i mod 8"
  have k: "i = 8 * k + n" "n < 8" "k < length xs" using i by (auto simp: k_def n_def)
  have lo: "bit (ucast (push_bit sh v) :: u8) n \<longleftrightarrow> sh \<le> n \<and> bit v (n - sh)"
    using k(2) by (auto simp: bit_unsigned_iff bit_push_bit_iff dest: bit_imp_le_length)
  have hi: "bit (ucast (drop_bit 8 (push_bit sh v)) :: u8) n \<longleftrightarrow> bit v (8 + n - sh)"
    using k(2) a(2) by (simp add: bit_unsigned_iff bit_push_bit_iff bit_drop_bit_eq)
  have g: "gbit ys i \<longleftrightarrow> bit (ys ! k) n" if "length ys = length xs" for ys
    using that i by (simp add: gbit_def k_def n_def)
  have p: "put_digit xs at v ! k =
      (if k = bi then xs ! k OR ucast (push_bit sh v) else if k = bi + 1 then xs ! k OR ucast (drop_bit 8 (push_bit sh v)) else xs ! k)"
    using k(3) at by (auto simp: put_digit_def Let_def bi_def sh_def nth_list_update)
  have far: "\<not> bit v (i - at)" if "bi + 2 \<le> k"
  proof
    assume "bit v (i - at)"
    from v [OF this] that a k show False by linarith
  qed
  consider "k = bi" | "k = bi + 1" | "k < bi" | "bi + 2 \<le> k" by linarith
  then show ?thesis
  proof cases
    case 1
    then have "at \<le> i \<longleftrightarrow> sh \<le> n" "i - at = n - sh" using a k by auto
    with g [of "put_digit xs at v"] g [of xs] p 1 lo show ?thesis by (simp add: bit_or_iff)
  next
    case 2
    then have "at \<le> i" "i - at = 8 + n - sh" using a k by auto
    with g [of "put_digit xs at v"] g [of xs] p 2 hi show ?thesis by (simp add: bit_or_iff)
  next
    case 3
    then have "\<not> at \<le> i" using a k by auto
    with g [of "put_digit xs at v"] g [of xs] p 3 show ?thesis by simp
  next
    case 4
    with g [of "put_digit xs at v"] g [of xs] p far show ?thesis by simp
  qed
qed

lemma index_ofD: "index_of x xs = Some n \<Longrightarrow> n < length xs \<and> xs ! n = x"
  by (induction xs arbitrary: n) (auto split: if_splits)

lemma index_of_nth: "distinct xs \<Longrightarrow> n < length xs \<Longrightarrow> index_of (xs ! n) xs = Some n"
  by (induction xs arbitrary: n) (auto simp: nth_Cons' nth_mem split: if_splits)

lemma alphabet: "length cache_base32_alphabet = 32" "distinct cache_base32_alphabet"
  by code_simp+

lemma digit_small:
  assumes "index_of c cache_base32_alphabet = Some n"
  shows "n < 32" and "bit (of_nat n :: u16) j \<Longrightarrow> j < 5" and "unat (of_nat n :: u16) = n"
proof -
  show n: "n < 32" using index_ofD [OF assms] alphabet by simp
  then show "unat (of_nat n :: u16) = n" by (intro unat_of_nat_small) simp
  show "j < 5" if b: "bit (of_nat n :: u16) j"
  proof (rule ccontr)
    assume "\<not> j < 5"
    then have "(2 :: nat) ^ 5 \<le> 2 ^ j" by (intro power_increasing) auto
    then have "n div 2 ^ j = 0" using n by simp
    then have "\<not> bit n j" by (simp add: bit_iff_odd)
    with b show False by (simp add: bit_of_nat_iff)
  qed
qed

lemma decode_digits_Cons:
  assumes "position + Suc (length bs) = 52"
  shows "decode_digits 52 position (b # bs) xs =
    (case index_of b cache_base32_alphabet of
       None \<Rightarrow> Inl (Bail ''Nix base32 digest contained an invalid character'')
     | Some n \<Rightarrow>
         if length xs \<le> 5 * length bs div 8 + 1 \<and> 255 < push_bit (5 * length bs mod 8) (of_nat n :: u16)
         then Inl (Bail ''Nix base32 digest had non-canonical high bits'')
         else decode_digits 52 (Suc position) bs (put_digit xs (5 * length bs) (of_nat n)))"
proof -
  have "52 - 1 - position = length bs" using assms by simp
  then show ?thesis
    by (auto simp: put_digit_def Let_def mult.commute not_less split: option.split)
qed

declare decode_digits.simps(2) [simp del]

definition digit_bit :: "str \<Rightarrow> nat \<Rightarrow> bool" where
  "digit_bit cs i \<longleftrightarrow> i div 5 < length cs \<and>
     (\<exists>n. index_of (rev cs ! (i div 5)) cache_base32_alphabet = Some n \<and> bit (of_nat n :: u16) (i mod 5))"

lemma decode_digits_bits:
  assumes "position + length cs = 52" "length xs = 32" "decode_digits 52 position cs xs = Inr d"
  shows "length d = 32 \<and> (\<forall>c \<in> set cs. index_of c cache_base32_alphabet \<noteq> None) \<and>
    (\<forall>i < 256. gbit d i \<longleftrightarrow> gbit xs i \<or> digit_bit cs i)"
  using assms
proof (induction cs arbitrary: position xs)
  case Nil
  then show ?case by (simp add: digit_bit_def)
next
  case (Cons b bs)
  from Cons.prems(1) have pos: "position + Suc (length bs) = 52" by simp
  from Cons.prems(3) obtain n where n: "index_of b cache_base32_alphabet = Some n"
    "decode_digits 52 (Suc position) bs (put_digit xs (5 * length bs) (of_nat n)) = Inr d"
    by (auto simp: decode_digits_Cons [OF pos] split: option.splits if_splits)
  have IH: "length d = 32" "\<forall>c \<in> set bs. index_of c cache_base32_alphabet \<noteq> None"
    "\<forall>i < 256. gbit d i \<longleftrightarrow> gbit (put_digit xs (5 * length bs) (of_nat n)) i \<or> digit_bit bs i"
    using Cons.IH [OF _ _ n(2)] Cons.prems(2) pos by auto
  have digit: "digit_bit (b # bs) i \<longleftrightarrow> digit_bit bs i \<or> 5 * length bs \<le> i \<and> bit (of_nat n :: u16) (i - 5 * length bs)" for i
  proof (cases "i div 5" "length bs" rule: linorder_cases)
    case less
    then have "\<not> 5 * length bs \<le> i" by auto
    with less show ?thesis by (simp add: digit_bit_def nth_append)
  next
    case equal
    then have "5 * length bs \<le> i" "i - 5 * length bs = i mod 5" by (auto simp: minus_mult_div_eq_mod [symmetric])
    with equal n(1) show ?thesis by (simp add: digit_bit_def nth_append)
  next
    case greater
    then have "5 \<le> i - 5 * length bs" by auto
    with digit_small(2) [OF n(1), of "i - 5 * length bs"] greater show ?thesis by (auto simp: digit_bit_def)
  qed
  have "gbit (put_digit xs (5 * length bs) (of_nat n)) i \<longleftrightarrow>
      gbit xs i \<or> 5 * length bs \<le> i \<and> bit (of_nat n :: u16) (i - 5 * length bs)" if "i < 256" for i
    by (rule put_digit_bit) (use that pos Cons.prems(2) digit_small(2) [OF n(1)] in auto)
  with IH digit n(1) show ?case by auto
qed

lemma decode_digits_ok:
  assumes "position + length cs = 52" "length xs = 32" "\<forall>c \<in> set cs. index_of c cache_base32_alphabet \<noteq> None"
    and "\<And>n. position = 0 \<Longrightarrow> index_of (hd cs) cache_base32_alphabet = Some n \<Longrightarrow> n \<le> 1"
  shows "\<exists>d. decode_digits 52 position cs xs = Inr d"
  using assms
proof (induction cs arbitrary: position xs)
  case (Cons b bs)
  from Cons.prems(1) have pos: "position + Suc (length bs) = 52" by simp
  from Cons.prems(3) obtain n where n: "index_of b cache_base32_alphabet = Some n" by auto
  let ?w = "push_bit (5 * length bs mod 8) (of_nat n) :: u16"
  have "\<not> (length xs \<le> 5 * length bs div 8 + 1 \<and> 255 < ?w)"
  proof (cases "length bs \<le> 49")
    case True
    then have "5 * length bs div 8 + 1 < 32" by auto
    with Cons.prems(2) show ?thesis by simp
  next
    case False
    then have "length bs = 50 \<or> length bs = 51" using pos by auto
    then have "5 * length bs mod 8 = 2 \<or> 5 * length bs mod 8 = 7 \<and> n \<le> 1"
      using Cons.prems(4) [of n] n pos by auto
    moreover have "unat ?w = n * 2 ^ (5 * length bs mod 8)"
    proof -
      have "n * 2 ^ (5 * length bs mod 8) < 32 * 2 ^ 8"
        using digit_small(1) [OF n] by (intro mult_less_le_imp_less power_increasing) (auto simp: less_imp_le)
      moreover have "?w = of_nat (n * 2 ^ (5 * length bs mod 8))" by (simp add: push_bit_eq_mult)
      ultimately show ?thesis using unat_of_nat_small [where 'a = 16, of "n * 2 ^ (5 * length bs mod 8)"] by simp
    qed
    ultimately have "unat ?w \<le> 255" using digit_small(1) [OF n] by auto
    then show ?thesis by (simp add: word_less_nat_alt)
  qed
  moreover have "\<exists>d. decode_digits 52 (Suc position) bs (put_digit xs (5 * length bs) (of_nat n)) = Inr d"
    using Cons.prems pos by (intro Cons.IH) auto
  ultimately show ?case by (simp add: decode_digits_Cons [OF pos] n del: not_less)
qed simp

lemma encode_digit:
  assumes "length d = 32" "p < 52"
  shows "unat (base32_value d p) < 32" and "base32_value d p = of_nat (unat (base32_value d p))"
    and "rev (encode_nix_base32_sha256 d) ! p = cache_base32_alphabet ! unat (base32_value d p)"
proof -
  have "base32_value d p = base32_value d p AND mask 5"
    by (rule bit_word_eqI) (auto simp: bit_and_iff bit_mask_iff base32_value_bit [OF assms])
  then have "base32_value d p \<le> mask 5" by (metis word_and_le1)
  then show "unat (base32_value d p) < 32" by (simp add: word_le_nat_alt mask_eq_exp_minus_1)
  show "base32_value d p = of_nat (unat (base32_value d p))" by simp
  show "rev (encode_nix_base32_sha256 d) ! p = cache_base32_alphabet ! unat (base32_value d p)"
    using assms(2) by (simp add: encode_nix_base32_sha256_def)
qed

lemma encode_digit_bit:
  assumes "length d = 32" "i < 256"
  shows "digit_bit (encode_nix_base32_sha256 d) i \<longleftrightarrow> gbit d i"
proof -
  have p: "i div 5 < 52" using assms(2) by auto
  note v = encode_digit [OF assms(1) p]
  have "index_of (rev (encode_nix_base32_sha256 d) ! (i div 5)) cache_base32_alphabet = Some (unat (base32_value d (i div 5)))"
    unfolding v(3) using v(1) alphabet by (intro index_of_nth) simp_all
  moreover have "length (encode_nix_base32_sha256 d) = 52" by (simp add: encode_nix_base32_sha256_def)
  ultimately show ?thesis
    using p base32_value_bit [OF assms(1) p, of "i mod 5"] by (simp add: digit_bit_def)
qed

lemma first_digit:
  assumes "length cs = 52" "decode_digits 52 0 cs (replicate 32 0) = Inr d" "index_of (hd cs) cache_base32_alphabet = Some n"
  shows "n \<le> 1"
proof -
  obtain b bs where cs: "cs = b # bs" "length bs = 51" using assms(1) by (cases cs) auto
  have "\<not> 255 < push_bit 7 (of_nat n :: u16)"
    using assms(2,3) by (auto simp: cs decode_digits_Cons [of 0 bs] split: if_splits)
  moreover have "unat (push_bit 7 (of_nat n) :: u16) = n * 128"
    using unat_of_nat_small [where 'a = 16, of "n * 128"] digit_small(1) [OF assms(3)] by (simp add: push_bit_eq_mult)
  ultimately show ?thesis by (simp add: word_less_nat_alt)
qed

lemma encode_decoded:
  assumes "length cs = 52" "decode_digits 52 0 cs (replicate 32 0) = Inr d"
  shows "encode_nix_base32_sha256 d = cs"
proof -
  have bits: "length d = 32" "\<forall>c \<in> set cs. index_of c cache_base32_alphabet \<noteq> None"
    "\<forall>i < 256. gbit d i \<longleftrightarrow> gbit (replicate 32 0) i \<or> digit_bit cs i"
    using decode_digits_bits [OF _ _ assms(2)] assms(1) by auto
  have "rev (encode_nix_base32_sha256 d) ! p = rev cs ! p" if p: "p < 52" for p
  proof -
    have "rev cs ! p \<in> set cs" using p assms(1) by (metis length_rev nth_mem set_rev)
    with bits(2) obtain n where n: "index_of (rev cs ! p) cache_base32_alphabet = Some n" by blast
    have "bit (base32_value d p) j \<longleftrightarrow> bit (of_nat n :: u16) j" for j
    proof (cases "j < 5 \<and> 5 * p + j < 256")
      case True
      then have "(5 * p + j) div 5 = p" "(5 * p + j) mod 5 = j" by auto
      with True bits(3) n p assms(1) show ?thesis
        by (simp add: base32_value_bit [OF bits(1) p] digit_bit_def gbit_def [of "replicate 32 0"])
    next
      case False
      have "\<not> bit (of_nat n :: u16) j"
      proof
        assume b: "bit (of_nat n :: u16) j"
        with False digit_small(2) [OF n b] p have j: "p = 51" "1 \<le> j" by auto
        have "hd cs = rev cs ! p" using assms(1) j(1) by (cases cs) (simp_all add: nth_append)
        then have "n \<le> 1" using first_digit [OF assms] n by simp
        with b j(2) show False by (cases n) (auto simp: bit_1_iff)
      qed
      with False bits(1) show ?thesis by (auto simp: base32_value_bit [OF bits(1) p] gbit_def)
    qed
    then have "base32_value d p = of_nat n" by (intro bit_word_eqI)
    then show ?thesis
      using encode_digit(3) [OF bits(1) p] digit_small(3) [OF n] index_ofD [OF n] by simp
  qed
  then have "rev (encode_nix_base32_sha256 d) = rev cs"
    using assms(1) by (intro nth_equalityI) (simp_all add: encode_nix_base32_sha256_def)
  then show ?thesis by simp
qed

text \<open>C0: the base32 notation is faithful: a digest is decoded from its own encoding, and a text that
  decodes is the encoding of the digest it gives, so that no two texts stand for the same digest.\<close>

theorem nix_base32_roundtrip:
  "(length digest = 32 \<longrightarrow> decode_nix_base32_sha256 (encode_nix_base32_sha256 digest) = Inr digest) \<and>
   (decode_nix_base32_sha256 encoded = Inr digest \<longrightarrow> length digest = 32 \<and> encode_nix_base32_sha256 digest = encoded)"
proof (intro conjI impI)
  assume d: "length digest = 32"
  let ?e = "encode_nix_base32_sha256 digest"
  have len: "length ?e = 52" by (simp add: encode_nix_base32_sha256_def)
  have digits: "\<forall>c \<in> set ?e. index_of c cache_base32_alphabet \<noteq> None"
    using encode_digit(1) [OF d] alphabet by (auto simp: encode_nix_base32_sha256_def index_of_nth)
  have hd: "hd ?e = cache_base32_alphabet ! unat (base32_value digest 51)"
    by (simp add: encode_nix_base32_sha256_def upt_rec [of 51] hd_rev last_map)
  have "unat (base32_value digest 51) \<le> 1"
  proof -
    have "base32_value digest 51 = base32_value digest 51 AND mask 1"
      by (rule bit_word_eqI) (auto simp: bit_and_iff bit_mask_iff base32_value_bit d gbit_def)
    then have "base32_value digest 51 \<le> mask 1" by (metis word_and_le1)
    then show ?thesis by (simp add: word_le_nat_alt mask_eq_exp_minus_1)
  qed
  with hd have one: "n \<le> 1" if "index_of (hd ?e) cache_base32_alphabet = Some n" for n
    using that alphabet index_of_nth [of cache_base32_alphabet "unat (base32_value digest 51)"] encode_digit(1) [OF d, of 51] by simp
  obtain d' where d': "decode_digits 52 0 ?e (replicate 32 0) = Inr d'"
    using decode_digits_ok [of 0 ?e "replicate 32 0"] len digits one by auto
  then have bits: "length d' = 32" "\<forall>i < 256. gbit d' i \<longleftrightarrow> gbit (replicate 32 0) i \<or> digit_bit ?e i"
    using decode_digits_bits [OF _ _ d'] len by auto
  have "d' = digest" by (rule gbit_ext) (use bits d encode_digit_bit [OF d] in \<open>auto simp: gbit_def\<close>)
  with d' len show "decode_nix_base32_sha256 ?e = Inr digest" by (simp add: decode_nix_base32_sha256_def)
next
  assume a: "decode_nix_base32_sha256 encoded = Inr digest"
  then have e: "length encoded = 52" "decode_digits 52 0 encoded (replicate 32 0) = Inr digest"
    by (auto simp: decode_nix_base32_sha256_def split: if_splits)
  show "length digest = 32" using decode_digits_bits [OF _ _ e(2)] e(1) by auto
  show "encode_nix_base32_sha256 digest = encoded" by (rule encode_decoded [OF e])
qed

theorem nix_base32_roundtrip_witness:
  "decode_nix_base32_sha256 (encode_nix_base32_sha256 (map of_nat [0..<32])) = Inr (map of_nat [0..<32])"
proof -
  have "length (map of_nat [0..<32] :: u8 list) = 32" by simp
  with nix_base32_roundtrip [of "map of_nat [0..<32]" "[]"] show ?thesis by blast
qed

end
