(* ===== verification/Nest_Cache.thy ===== *)
theory Nest_Cache
  imports Nest_Nix Nest_Artifacts
begin

text \<open>
  The binary cache on disk (\<^verbatim>\<open>src/src/cache.rs\<close>): the walk over the records of a closure that verifies
  it, the mark-and-sweep that removes what no artifact needs, retention, removal on request, and the
  withdrawal of artifacts of quarantined builds. The directory is a list of named nodes, the names
  being UTF-8; \<open>cache_faults\<close> says which of the file operations fail. The cache mutation lock is held,
  so that nothing else changes the directory or the rows meanwhile.
\<close>

section \<open>The cache directory\<close>

text \<open>What a symbolic link reads as is part of its node; directories and the like are \<open>OtherNode\<close>.\<close>

datatype cache_node = Regular str | Symlink "str option" | OtherNode

type_synonym dir_nodes = "(str \<times> cache_node) list"

text \<open>The entries of the root, and of \<open>nar/\<close> below it if that is a directory.\<close>

record cache_dir =
  cd_root :: dir_nodes
  cd_nar :: "dir_nodes option"

record cache_faults =
  cf_remove :: "str \<Rightarrow> sync_error option"
  cf_prepare :: "sync_error option"
  cf_unpublish :: "str \<Rightarrow> sync_error option"
  cf_archive :: "str \<Rightarrow> sync_error option"

definition read_to_string :: "cache_node option \<Rightarrow> str option" where
  "read_to_string node =
     (case node of
        Some (Regular b) \<Rightarrow> (if utf8_ok b then Some b else None)
      | Some (Symlink (Some b)) \<Rightarrow> (if utf8_ok b then Some b else None)
      | _ \<Rightarrow> None)"

definition node_size :: "cache_node \<Rightarrow> u64" where
  "node_size node = (case node of Regular b \<Rightarrow> of_nat (length b) | _ \<Rightarrow> 0)"

definition is_regular :: "cache_node \<Rightarrow> bool" where
  "is_regular node = (case node of Regular _ \<Rightarrow> True | _ \<Rightarrow> False)"

text \<open>The name of a path that denotes an entry of the directory; paths are compared by components.\<close>

definition member_name :: "str \<Rightarrow> str list \<Rightarrow> str \<Rightarrow> str option" where
  "member_name cache_root below path =
     (case rev (path_components path) of
        Normal name # front \<Rightarrow>
          (if rev front = path_components cache_root @ map Normal below then Some name else None)
      | _ \<Rightarrow> None)"

section \<open>Mark and sweep\<close>

record retained_files =
  rf_store_path :: str
  rf_nar_path :: str
  rf_narinfo_path :: str
  rf_nar_url :: str

definition retained_of_root :: "cache_artifact_root \<Rightarrow> retained_files" where
  "retained_of_root a =
     \<lparr> rf_store_path = root_store_path a, rf_nar_path = root_path a, rf_narinfo_path = root_narinfo_path a,
       rf_nar_url = trim_start_matches CHR ''/'' (root_nar_url a) \<rparr>"

definition narinfo_urls :: "str \<Rightarrow> str list" where
  "narinfo_urls contents =
     List.map_filter (\<lambda>line. map_option (\<lambda>url. trim_start_matches CHR ''/'' (trim url)) (strip_prefix line ''URL:''))
       (str_lines contents)"

definition reference_hashes :: "str \<Rightarrow> str list" where
  "reference_hashes contents =
     concat (map (\<lambda>line.
       if strip_prefix line ''URL:'' \<noteq> None then []
       else case strip_prefix line ''References:'' of
              Some refs \<Rightarrow> List.map_filter store_basename_hash (split_whitespace refs)
            | None \<Rightarrow> []) (str_lines contents))"

definition narinfo_text :: "cache_dir \<Rightarrow> str \<Rightarrow> str option" where
  "narinfo_text dir hash = read_to_string (map_of (cd_root dir) (hash @ ''.narinfo''))"

text \<open>Every hash that some record of the directory refers to: what the marking can reach.\<close>

definition all_references :: "cache_dir \<Rightarrow> str list" where
  "all_references dir =
     concat (map (\<lambda>(_, node). case read_to_string (Some node) of Some contents \<Rightarrow> reference_hashes contents | None \<Rightarrow> [])
       (cd_root dir))"

lemma narinfo_text_references:
  assumes "narinfo_text dir hash = Some contents"
  shows "set (reference_hashes contents) \<subseteq> set (all_references dir)"
proof -
  obtain node where node: "map_of (cd_root dir) (hash @ ''.narinfo'') = Some node" "read_to_string (Some node) = Some contents"
    using assms by (cases "map_of (cd_root dir) (hash @ ''.narinfo'')") (simp_all add: narinfo_text_def read_to_string_def)
  from map_of_SomeD [OF node(1)] node(2) show ?thesis by (auto simp: all_references_def intro!: bexI [rotated])
qed

text \<open>The loop over the queue, whose end is the head of the list.\<close>

function mark :: "cache_dir \<Rightarrow> str list \<Rightarrow> str list \<Rightarrow> str list \<Rightarrow> str list \<times> str list" where
  "mark dir [] hashes urls = (hashes, urls)"
| "mark dir (hash # queue) hashes urls =
     (if hash \<in> set hashes then mark dir queue hashes urls
      else case narinfo_text dir hash of
             None \<Rightarrow> mark dir queue (hash # hashes) urls
           | Some contents \<Rightarrow>
               mark dir (rev (filter (\<lambda>h. h \<notin> set (hash # hashes)) (reference_hashes contents)) @ queue)
                 (hash # hashes) (narinfo_urls contents @ urls))"
  by pat_completeness auto
termination
proof (relation "measures [\<lambda>(dir, queue, hashes, urls). card ((set queue \<union> set (all_references dir)) - set hashes),
    \<lambda>(dir, queue, hashes, urls). length queue]", goal_cases)
  case (2 dir hash queue hashes urls)
  have "card ((set queue \<union> set (all_references dir)) - set hashes)
      \<le> card ((set (hash # queue) \<union> set (all_references dir)) - set hashes)" by (intro card_mono) auto
  then show ?case by (simp del: list.set add: less_le)
next
  case (3 dir hash queue hashes urls)
  then have "card ((set queue \<union> set (all_references dir)) - set (hash # hashes))
      < card ((set (hash # queue) \<union> set (all_references dir)) - set hashes)" by (intro psubset_card_mono) auto
  then show ?case by (simp del: list.set)
next
  case (4 dir hash queue hashes urls contents)
  then have "card ((set (rev (filter (\<lambda>h. h \<notin> set (hash # hashes)) (reference_hashes contents)) @ queue) \<union> set (all_references dir))
        - set (hash # hashes)) < card ((set (hash # queue) \<union> set (all_references dir)) - set hashes)"
    using narinfo_text_references [of dir hash contents] by (intro psubset_card_mono) auto
  then show ?case by (simp del: list.set set_append set_rev set_filter)
qed simp

text \<open>Removing the doomed entries one by one; the first failure ends the pass.\<close>

fun sweep_entries :: "(str \<Rightarrow> sync_error option) \<Rightarrow> (str \<times> cache_node \<Rightarrow> bool) \<Rightarrow> u64 \<Rightarrow> dir_nodes \<Rightarrow> u64 sync_result \<times> dir_nodes" where
  "sweep_entries fault doomed freed [] = (Inr freed, [])"
| "sweep_entries fault doomed freed (e # es) =
     (if doomed e then
        (case fault (fst e) of
           Some err \<Rightarrow> (Inl err, e # es)
         | None \<Rightarrow> sweep_entries fault doomed (sat_add freed (node_size (snd e))) es)
      else (case sweep_entries fault doomed freed es of (r, es') \<Rightarrow> (r, e # es')))"

definition doomed_narinfo :: "str list \<Rightarrow> str list \<Rightarrow> str \<Rightarrow> str \<times> cache_node \<Rightarrow> bool" where
  "doomed_narinfo live_files hashes cache_root = (\<lambda>(name, node).
     is_regular node \<and>
     (case strip_suffix name ''.narinfo'' of
        None \<Rightarrow> False
      | Some stem \<Rightarrow> to_ascii_lowercase stem \<notin> set hashes \<and> Some name \<notin> set (map (member_name cache_root []) live_files)))"

definition doomed_nar :: "str list \<Rightarrow> str list \<Rightarrow> str \<Rightarrow> str \<times> cache_node \<Rightarrow> bool" where
  "doomed_nar live_files urls cache_root = (\<lambda>(name, node).
     is_regular node \<and> (''nar/'' @ name) \<notin> set urls \<and> Some name \<notin> set (map (member_name cache_root [''nar'']) live_files))"

definition sweep_unreachable_blocking ::
  "cache_faults \<Rightarrow> str \<Rightarrow> retained_files list \<Rightarrow> str list \<Rightarrow> (cache_dir, sync_error, u64) edb" where
  "sweep_unreachable_blocking faults cache_root retained extra_roots dir =
     (let live_files = concat (map (\<lambda>a. [rf_nar_path a, rf_narinfo_path a]) retained);
          live_urls = filter (\<lambda>u. u \<noteq> []) (map rf_nar_url retained);
          queue = List.map_filter (\<lambda>a. store_path_hash (rf_store_path a)) retained @ List.map_filter store_path_hash extra_roots;
          (hashes, urls) = mark dir (rev queue) [] live_urls
      in case sweep_entries (cf_remove faults) (doomed_narinfo live_files hashes cache_root) 0 (cd_root dir) of
           (Inl err, root) \<Rightarrow> (Inl err, dir \<lparr> cd_root := root \<rparr>)
         | (Inr freed, root) \<Rightarrow>
             (let dir = dir \<lparr> cd_root := root \<rparr>
              in case cd_nar dir of
                   None \<Rightarrow> (Inr freed, dir)
                 | Some entries \<Rightarrow>
                     (case sweep_entries (cf_remove faults) (doomed_nar live_files urls cache_root) freed entries of
                        (r, entries) \<Rightarrow> (r, dir \<lparr> cd_nar := Some entries \<rparr>))))"

section \<open>Verifying a closure\<close>

definition max_narinfo_bytes :: nat where "max_narinfo_bytes = 1024 * 1024"

definition path_join :: "str \<Rightarrow> str \<Rightarrow> str" where
  "path_join dir name = (if dir = [] \<or> last dir = CHR ''/'' then dir @ name else dir @ ''/'' @ name)"

definition read_safe_narinfo :: "cache_dir \<Rightarrow> str \<Rightarrow> str \<Rightarrow> str sync_result" where
  "read_safe_narinfo dir cache_root filename =
     (if CHR ''/'' \<in> set filename \<or> CHR 0x5C \<in> set filename \<or> \<not> ends_with filename ''.narinfo''
      then Inl (Bail ''NARInfo filename was not a safe cache-root member'')
      else case map_of (cd_root dir) filename of
             Some (Regular raw) \<Rightarrow>
               (if max_narinfo_bytes < length raw then Inl (Bail ''generated NARInfo was not a bounded regular file'')
                else if utf8_ok raw then Inr raw else Inl (Bail ''generated NARInfo was not UTF-8''))
           | Some OtherNode \<Rightarrow> Inl (Bail ''generated NARInfo was not a bounded regular file'')
           | _ \<Rightarrow> Inl (Bail (''open generated NARInfo '' @ path_join cache_root filename)))"

definition validate_nar_url :: "str \<Rightarrow> str sync_result" where
  "validate_nar_url relative =
     (case strip_prefix relative ''nar/'' of
        None \<Rightarrow> Inl (Bail ''NARInfo URL was outside the nar directory'')
      | Some filename \<Rightarrow>
          (if filename = [] \<or> 255 < length filename \<or> CHR ''/'' \<in> set filename \<or>
              \<not> list_all (\<lambda>b. is_ascii_alphanumeric b \<or> b \<in> set ''._+-'') filename
           then Inl (Bail ''NARInfo URL was not a canonical relative cache URI'') else Inr filename))"

definition hash_safe_cache_member :: "nix_env \<Rightarrow> cache_dir \<Rightarrow> str \<Rightarrow> str \<Rightarrow> (str \<times> nat \<times> u8 list) sync_result" where
  "hash_safe_cache_member ne dir cache_root relative =
     rbind (validate_nar_url relative) (\<lambda>filename.
     let path = path_join (path_join cache_root ''nar'') filename
     in case Option.bind (cd_nar dir) (\<lambda>entries. map_of entries filename) of
          Some (Regular bytes) \<Rightarrow>
            (if 2 ^ 64 \<le> length bytes then Inl (Bail ''generated NAR size overflowed'')
             else Inr (path, length bytes, ne_sha256 ne bytes))
        | Some OtherNode \<Rightarrow> Inl (Bail ''generated NAR was not a regular file'')
        | _ \<Rightarrow> Inl (Bail (''open generated NAR '' @ path)))"

text \<open>\<open>InvalidCachedNar\<close> is the error of a payload that does not have the digest its record states; it names
  the payload when the name of the file is that digest.\<close>

datatype closure_error = ClosureError sync_error | InvalidCachedNar str "str option"

definition closure_err :: "'a sync_result \<Rightarrow> closure_error + 'a" where
  "closure_err r = map_sum ClosureError id r"

record closure_member =
  cm_narinfo :: parsed_narinfo
  cm_narinfo_filename :: str
  cm_file_size :: nat
  cm_nar_size :: nat
  cm_nar_path :: str

definition positive_size :: "int \<Rightarrow> str \<Rightarrow> nat sync_result" where
  "positive_size i field =
     (if 0 < i then Inr (nat i) else Inl (Bail (''NARInfo '' @ field @ '' was missing or invalid'')))"

definition content_named :: "str \<Rightarrow> u8 list \<Rightarrow> bool" where
  "content_named filename expected_file_hash =
     (case split_once_str filename ''.nar'' of
        Some (hash, _) \<Rightarrow> decode_nix_base32_sha256 hash = Inr expected_file_hash
      | None \<Rightarrow> False)"

definition closure_record :: "nix_env \<Rightarrow> cache_dir \<Rightarrow> str \<Rightarrow> str \<Rightarrow> str \<Rightarrow> str \<Rightarrow> (parsed_narinfo \<times> nat \<times> nat \<times> u8 list) sync_result" where
  "closure_record ne dir cache_root trusted_public_key expected_store_path filename =
     rbind (read_safe_narinfo dir cache_root filename) (\<lambda>raw.
     rbind (parse_narinfo_strict raw) (\<lambda>n.
     if ni_store_path n \<noteq> expected_store_path then Inl (Bail ''referenced NARInfo StorePath did not match its cache filename'')
     else
     rbind (with_context ''validate NARInfo StorePath'' (validate_store_path (ni_store_path n))) (\<lambda>_.
     if ni_compression n = [] \<or> \<not> list_all (\<lambda>b. is_ascii_alphanumeric b \<or> b \<in> set ''_-'') (ni_compression n)
     then Inl (Bail ''NARInfo Compression was missing or invalid'')
     else
     rbind (positive_size (ni_file_size n) ''FileSize'') (\<lambda>file_size.
     rbind (positive_size (ni_nar_size n) ''NarSize'') (\<lambda>nar_size.
     rbind (parse_strong_sha256 ne (ni_file_hash n) ''FileHash'') (\<lambda>file_hash.
     rbind (parse_strong_sha256 ne (ni_nar_hash n) ''NarHash'') (\<lambda>_.
     rbind (rcollect (map (\<lambda>r. with_context ''validate NARInfo reference'' (validate_store_path r)) (ni_references n))) (\<lambda>_.
     let n = n \<lparr> ni_references := sort (remdups (ni_references n)) \<rparr> in
     rbind (verify_narinfo_signature ne n trusted_public_key) (\<lambda>_. Inr (n, file_size, nar_size, file_hash))))))))))"

definition closure_payload :: "nix_env \<Rightarrow> cache_dir \<Rightarrow> str \<Rightarrow> parsed_narinfo \<Rightarrow> nat \<Rightarrow> u8 list \<Rightarrow> closure_error + str" where
  "closure_payload ne dir cache_root n file_size expected_file_hash =
     rbind (closure_err (hash_safe_cache_member ne dir cache_root (ni_url n))) (\<lambda>(nar_path, actual_file_size, actual_file_hash).
     if actual_file_size \<noteq> file_size \<or> actual_file_hash \<noteq> expected_file_hash
     then rbind (closure_err (validate_nar_url (ni_url n))) (\<lambda>filename.
       Inl (InvalidCachedNar
         (if actual_file_size \<noteq> file_size then ''compressed NAR size did not match NARInfo FileSize''
          else ''compressed NAR SHA-256 did not match NARInfo FileHash'')
         (if actual_file_hash \<noteq> expected_file_hash \<and> content_named filename expected_file_hash then Some filename else None)))
     else Inr nar_path)"

text \<open>One turn of the loop for a path that was not visited: the member, if the record and its payload are good.\<close>

definition closure_visit :: "nix_env \<Rightarrow> cache_dir \<Rightarrow> str \<Rightarrow> str \<Rightarrow> str \<Rightarrow> str \<Rightarrow> closure_error + closure_member" where
  "closure_visit ne dir cache_root trusted_public_key store_path filename =
     rbind (closure_err (closure_record ne dir cache_root trusted_public_key store_path filename)) (\<lambda>(n, file_size, nar_size, file_hash).
     rbind (closure_payload ne dir cache_root n file_size file_hash) (\<lambda>nar_path.
     Inr \<lparr> cm_narinfo = n, cm_narinfo_filename = filename, cm_file_size = file_size, cm_nar_size = nar_size,
           cm_nar_path = nar_path \<rparr>))"

definition all_store_references :: "cache_dir \<Rightarrow> str list" where
  "all_store_references dir =
     concat (map (\<lambda>(_, node). case node of
         Regular raw \<Rightarrow> (case parse_narinfo_strict raw of Inr n \<Rightarrow> ni_references n | Inl _ \<Rightarrow> [])
       | _ \<Rightarrow> []) (cd_root dir))"

lemma read_safe_narinfo_ok:
  "read_safe_narinfo dir cache_root filename = Inr raw \<longleftrightarrow>
     CHR ''/'' \<notin> set filename \<and> CHR 0x5C \<notin> set filename \<and> ends_with filename ''.narinfo'' \<and>
     map_of (cd_root dir) filename = Some (Regular raw) \<and> length raw \<le> max_narinfo_bytes \<and> utf8_ok raw"
  by (auto simp: read_safe_narinfo_def split: option.splits cache_node.splits if_splits)

lemma closure_err_ok [simp]: "closure_err r = Inr x \<longleftrightarrow> r = Inr x"
  by (cases r) (simp_all add: closure_err_def)

lemma closure_recordD:
  assumes "closure_record ne dir cache_root key store_path filename = Inr (n, file_size, nar_size, file_hash)"
  obtains raw n0 where "read_safe_narinfo dir cache_root filename = Inr raw" "parse_narinfo_strict raw = Inr n0"
    "n = n0 \<lparr> ni_references := sort (remdups (ni_references n0)) \<rparr>" "ni_store_path n = store_path"
    "validate_store_path store_path = Inr ()" "\<forall>r \<in> set (ni_references n). validate_store_path r = Inr ()"
    "file_size = nat (ni_file_size n)" "0 < file_size" "nar_size = nat (ni_nar_size n)" "0 < nar_size"
    "parse_strong_sha256 ne (ni_file_hash n) ''FileHash'' = Inr file_hash" "verify_narinfo_signature ne n key = Inr ()"
proof -
  have ctx: "with_context c r = Inr x \<longleftrightarrow> r = Inr x" for c and r :: "unit sync_result" and x
    by (cases r) (simp_all add: with_context_def)
  have collect: "rcollect (map (\<lambda>r. with_context c (validate_store_path r)) rs) = Inr us \<Longrightarrow> \<forall>r \<in> set rs. validate_store_path r = Inr ()"
    for c rs us by (induction rs arbitrary: us) (auto simp: result_simps ctx)
  from assms show thesis
    unfolding closure_record_def
    by (auto simp: result_simps ctx positive_size_def Let_def split: if_splits dest!: collect intro!: that)
qed

lemma closure_visit_references:
  assumes "closure_visit ne dir cache_root key store_path filename = Inr m"
  shows "set (ni_references (cm_narinfo m)) \<subseteq> set (all_store_references dir)"
proof -
  from assms obtain n fs ns fh where "closure_record ne dir cache_root key store_path filename = Inr (n, fs, ns, fh)" "cm_narinfo m = n"
    by (auto simp: closure_visit_def result_simps)
  then obtain raw n0 where raw: "read_safe_narinfo dir cache_root filename = Inr raw" "parse_narinfo_strict raw = Inr n0"
    "cm_narinfo m = n0 \<lparr> ni_references := sort (remdups (ni_references n0)) \<rparr>" by (elim closure_recordD) auto
  from raw(1) have "(filename, Regular raw) \<in> set (cd_root dir)"
    by (auto simp: read_safe_narinfo_ok dest: map_of_SomeD)
  with raw(2,3) show ?thesis by (force simp: all_store_references_def)
qed

text \<open>
  The loop, with the visited paths, the members in order, the totals and the records inspected so far.
\<close>

function closure_walk ::
  "nix_env \<Rightarrow> cache_dir \<Rightarrow> str \<Rightarrow> str \<Rightarrow> str list \<Rightarrow> str list \<Rightarrow> closure_member list \<Rightarrow> nat \<Rightarrow> nat \<Rightarrow> str list \<Rightarrow>
     (closure_error + closure_member list \<times> nat \<times> nat) \<times> str list" where
  "closure_walk ne dir cache_root key [] visited members total_file total_nar inspected =
     (Inr (members, total_file, total_nar), inspected)"
| "closure_walk ne dir cache_root key (store_path # queue) visited members total_file total_nar inspected =
     (case with_context ''validate referenced store path'' (validate_store_path store_path) of
        Inl err \<Rightarrow> (Inl (ClosureError err), inspected)
      | Inr _ \<Rightarrow>
          (if store_path \<in> set visited then closure_walk ne dir cache_root key queue visited members total_file total_nar inspected
           else case narinfo_filename_for_store_path store_path of
                  Inl err \<Rightarrow> (Inl (ClosureError err), inspected)
                | Inr filename \<Rightarrow>
                    (let inspected = inspected @ [path_join cache_root filename]
                     in case closure_visit ne dir cache_root key store_path filename of
                          Inl err \<Rightarrow> (Inl err, inspected)
                        | Inr m \<Rightarrow>
                            (if 2 ^ 64 \<le> total_file + cm_file_size m
                             then (Inl (ClosureError (Bail ''closure FileSize total overflowed'')), inspected)
                             else if 2 ^ 64 \<le> total_nar + cm_nar_size m
                             then (Inl (ClosureError (Bail ''closure NarSize total overflowed'')), inspected)
                             else closure_walk ne dir cache_root key
                                    (queue @ filter (\<lambda>r. r \<notin> set (store_path # visited)) (ni_references (cm_narinfo m)))
                                    (store_path # visited) (members @ [m]) (total_file + cm_file_size m)
                                    (total_nar + cm_nar_size m) inspected))))"
  by pat_completeness auto
termination
proof (relation "measures [\<lambda>(ne, dir, cache_root, key, queue, visited, _). card ((set queue \<union> set (all_store_references dir)) - set visited),
    \<lambda>(ne, dir, cache_root, key, queue, _). length queue]", goal_cases)
  case (2 ne dir cache_root key store_path queue visited)
  have "card ((set queue \<union> set (all_store_references dir)) - set visited)
      \<le> card ((set (store_path # queue) \<union> set (all_store_references dir)) - set visited)" by (intro card_mono) auto
  then show ?case by (simp del: list.set add: less_le)
next
  case (3 ne dir cache_root key store_path queue visited members total_file total_nar inspected u filename x m)
  then have "card ((set (queue @ filter (\<lambda>r. r \<notin> set (store_path # visited)) (ni_references (cm_narinfo m))) \<union> set (all_store_references dir))
        - set (store_path # visited)) < card ((set (store_path # queue) \<union> set (all_store_references dir)) - set visited)"
    using closure_visit_references [of ne dir cache_root key store_path filename m] by (intro psubset_card_mono) auto
  then show ?case by (simp del: list.set set_append set_filter)
qed simp

definition json_member :: "json \<Rightarrow> str \<Rightarrow> json option" where
  "json_member v k = (case v of JObj ms \<Rightarrow> map_of ms k | _ \<Rightarrow> None)"

definition json_of_option :: "('a \<Rightarrow> json) \<Rightarrow> 'a option \<Rightarrow> json" where
  "json_of_option f x = (case x of Some v \<Rightarrow> f v | None \<Rightarrow> JNull)"

definition manifest_artifact :: "closure_member \<Rightarrow> json" where
  "manifest_artifact m =
     (let n = cm_narinfo m
      in obj_of [(''store_path'', JStr (ni_store_path n)), (''narinfo_path'', JStr (cm_narinfo_filename m)),
           (''nar_url'', JStr (ni_url n)), (''file_hash'', JStr (ni_file_hash n)),
           (''file_size_bytes'', JNum (int (cm_file_size m))), (''nar_hash'', JStr (ni_nar_hash n)),
           (''nar_size_bytes'', JNum (int (cm_nar_size m))), (''compression'', JStr (ni_compression n)),
           (''references'', JArr (map JStr (ni_references n))), (''provenance'', JStr ''unknown'')])"

definition closure_manifest_json :: "str \<Rightarrow> str option \<Rightarrow> closure_member list \<Rightarrow> nat \<Rightarrow> nat \<Rightarrow> (str \<times> json) list" where
  "closure_manifest_json root evaluated_derivation members total_file total_nar =
     [(''schema'', JStr ''tiaris.nest.closure-manifest.v1''), (''root_store_path'', JStr root),
      (''evaluated_derivation'', json_of_option JStr evaluated_derivation),
      (''artifacts'', JArr (map manifest_artifact members)), (''artifact_count'', JNum (int (length members))),
      (''total_file_size_bytes'', JNum (int total_file)), (''total_nar_size_bytes'', JNum (int total_nar)),
      (''validation_level'', JStr ''compressed_file_hash'')]"

text \<open>\<open>write_scalar\<close> is how \<^verbatim>\<open>serde_json\<close> writes a value that is neither an array nor an object.\<close>

fun canonical_json :: "(json \<Rightarrow> str) \<Rightarrow> json \<Rightarrow> str" where
  "canonical_json write_scalar (JArr vs) = ''['' @ join '','' (map (canonical_json write_scalar) vs) @ '']''"
| "canonical_json write_scalar (JObj ms) =
     ''{'' @ join '','' (map (\<lambda>(k, v). write_scalar (JStr k) @ '':'' @ v)
               (sort_key fst (map (\<lambda>(k, v). (k, canonical_json write_scalar v)) ms))) @ ''}''"
| "canonical_json write_scalar v = write_scalar v"

record verified_closure =
  vc_manifest :: json
  vc_manifest_sha256 :: str
  vc_members :: "closure_member list"
  vc_root :: closure_member
  vc_root_narinfo_path :: str
  vc_total_file_size_bytes :: nat

definition validate_derivation :: "str option \<Rightarrow> unit sync_result" where
  "validate_derivation evaluated_derivation =
     (case evaluated_derivation of
        None \<Rightarrow> Inr ()
      | Some path \<Rightarrow>
          rbind (with_context ''validate evaluated derivation store path'' (validate_store_path path)) (\<lambda>_.
          if ends_with path ''.drv'' then Inr () else Inl (Bail ''evaluated derivation was not a .drv store path'')))"

definition closure_manifest_of ::
  "json_env \<Rightarrow> (str \<Rightarrow> str) \<Rightarrow> str \<Rightarrow> str \<Rightarrow> str option \<Rightarrow> closure_member list \<Rightarrow> nat \<Rightarrow> nat \<Rightarrow> verified_closure sync_result" where
  "closure_manifest_of env sha256_hex cache_root root evaluated_derivation members total_file total_nar =
     (let artifacts = sort_key (\<lambda>m. ni_store_path (cm_narinfo m)) members;
          fields = closure_manifest_json root evaluated_derivation artifacts total_file total_nar;
          manifest = obj_of fields
      in case je_validate_cache_metadata env manifest of
           Some reason \<Rightarrow> Inl (Context ''validate closure manifest protected-material boundary'' (Bail reason))
         | None \<Rightarrow>
             (let manifest_sha256 = sha256_hex (canonical_json (je_to_string env) manifest)
              in case find (\<lambda>m. ni_store_path (cm_narinfo m) = root) members of
                   None \<Rightarrow> Inl (Bail ''closure omitted its root NARInfo'')
                 | Some m \<Rightarrow>
                     Inr \<lparr> vc_manifest = obj_of (fields @ [(''manifest_sha256'', JStr manifest_sha256)]),
                           vc_manifest_sha256 = manifest_sha256, vc_members = artifacts, vc_root = m,
                           vc_root_narinfo_path = path_join cache_root (cm_narinfo_filename m),
                           vc_total_file_size_bytes = total_file \<rparr>))"

text \<open>The result, and the paths of the records that were inspected.\<close>

definition build_closure_manifest ::
  "nix_env \<Rightarrow> json_env \<Rightarrow> (str \<Rightarrow> str) \<Rightarrow> cache_dir \<Rightarrow> str \<Rightarrow> str \<Rightarrow> str option \<Rightarrow> str \<Rightarrow>
     (closure_error + verified_closure) \<times> str list" where
  "build_closure_manifest ne env sha256_hex dir cache_root root evaluated_derivation key =
     (case rbind (with_context ''validate closure root store path'' (validate_store_path root)) (\<lambda>_.
             validate_derivation evaluated_derivation) of
        Inl err \<Rightarrow> (Inl (ClosureError err), [])
      | Inr _ \<Rightarrow>
          (case closure_walk ne dir cache_root key [root] [] [] 0 0 [] of
             (Inl err, inspected) \<Rightarrow> (Inl err, inspected)
           | (Inr (members, total_file, total_nar), inspected) \<Rightarrow>
               (closure_err (closure_manifest_of env sha256_hex cache_root root evaluated_derivation members total_file total_nar),
                inspected)))"

section \<open>Quarantine\<close>

text \<open>The names of the root that the paths denote, each once, in order.\<close>

fun quarantine_names :: "cache_dir \<Rightarrow> str \<Rightarrow> str list \<Rightarrow> str list \<Rightarrow> str list" where
  "quarantine_names dir cache_root seen [] = []"
| "quarantine_names dir cache_root seen (path # paths) =
     (case member_name cache_root [] path of
        Some name \<Rightarrow>
          (if ends_with name ''.narinfo'' \<and> map_of (cd_root dir) name \<noteq> None \<and> name \<notin> set seen
           then name # quarantine_names dir cache_root (name # seen) paths
           else quarantine_names dir cache_root seen paths)
      | None \<Rightarrow> quarantine_names dir cache_root seen paths)"

definition drop_entry :: "str \<Rightarrow> dir_nodes \<Rightarrow> dir_nodes" where
  "drop_entry name entries = filter (\<lambda>e. fst e \<noteq> name) entries"

text \<open>A record whose archiving fails stays in the root under a hidden name.\<close>

fun quarantine_move :: "cache_faults \<Rightarrow> str \<Rightarrow> nat \<Rightarrow> str list \<Rightarrow> (cache_dir, sync_error, nat) edb" where
  "quarantine_move faults nonce index [] dir = (Inr index, dir)"
| "quarantine_move faults nonce index (name # names) dir =
     (case cf_unpublish faults name of
        Some err \<Rightarrow> (Inl err, dir)
      | None \<Rightarrow>
          (let unpublished = dir \<lparr> cd_root := drop_entry name (cd_root dir) \<rparr>
           in case (cf_archive faults name, map_of (cd_root dir) name) of
                (Some err, Some node) \<Rightarrow>
                  (Inl err, unpublished \<lparr> cd_root := (''.tiaris-quarantine-'' @ nonce @ ''-'' @ nat_to_str index, node) #
                                           cd_root unpublished \<rparr>)
              | _ \<Rightarrow> quarantine_move faults nonce (Suc index) names unpublished))"

definition quarantine_narinfo_records :: "cache_faults \<Rightarrow> str \<Rightarrow> str \<Rightarrow> str list \<Rightarrow> (cache_dir, sync_error, nat) edb" where
  "quarantine_narinfo_records faults nonce cache_root paths dir =
     (let names = quarantine_names dir cache_root [] paths
      in if names = [] then (Inr 0, dir)
         else case cf_prepare faults of
                Some err \<Rightarrow> (Inl err, dir)
              | None \<Rightarrow> quarantine_move faults nonce 0 names dir)"

fun closure_error_text :: "closure_error \<Rightarrow> sync_error" where
  "closure_error_text (ClosureError err) = err"
| "closure_error_text (InvalidCachedNar reason _) = Bail reason"

definition build_or_quarantine_closure_manifest ::
  "nix_env \<Rightarrow> json_env \<Rightarrow> (str \<Rightarrow> str) \<Rightarrow> cache_faults \<Rightarrow> str \<Rightarrow> str \<Rightarrow> str \<Rightarrow> str option \<Rightarrow> str \<Rightarrow>
     (cache_dir, sync_error, verified_closure) edb" where
  "build_or_quarantine_closure_manifest ne env sha256_hex faults nonce cache_root root evaluated_derivation key dir =
     (case build_closure_manifest ne env sha256_hex dir cache_root root evaluated_derivation key of
        (Inr manifest, _) \<Rightarrow> (Inr manifest, dir)
      | (Inl err, inspected) \<Rightarrow>
          (let candidates = (if inspected = [] then [] else remdups [hd inspected, last inspected])
           in case quarantine_narinfo_records faults nonce cache_root candidates dir of
                (Inl e, dir) \<Rightarrow> (Inl (Context ''quarantine invalid closure NARInfo records'' e), dir)
              | (Inr quarantined, dir) \<Rightarrow>
                  (case err of
                     InvalidCachedNar _ (Some filename) \<Rightarrow>
                       (case cf_remove faults filename of
                          Some e \<Rightarrow> (Inl (Context ''remove corrupt cached NAR for re-export'' e), dir)
                        | None \<Rightarrow>
                            (Inl (Context (''closure manifest validation failed; quarantined '' @ nat_to_str quarantined @ '' NARInfo record(s)'')
                               (closure_error_text err)),
                             dir \<lparr> cd_nar := map_option (drop_entry filename) (cd_nar dir) \<rparr>))
                   | _ \<Rightarrow>
                       (Inl (Context (''closure manifest validation failed; quarantined '' @ nat_to_str quarantined @ '' NARInfo record(s)'')
                          (closure_error_text err)), dir))))"

section \<open>What the marking reaches\<close>

inductive reaches :: "cache_dir \<Rightarrow> str set \<Rightarrow> str \<Rightarrow> bool" for dir roots where
  reaches_root: "h \<in> roots \<Longrightarrow> reaches dir roots h"
| reaches_ref: "reaches dir roots h \<Longrightarrow> narinfo_text dir h = Some contents \<Longrightarrow> h' \<in> set (reference_hashes contents) \<Longrightarrow>
    reaches dir roots h'"

definition marked :: "cache_dir \<Rightarrow> str set \<Rightarrow> str set \<Rightarrow> bool" where
  "marked dir pending hashes \<longleftrightarrow>
     (\<forall>h \<in> hashes. \<forall>contents. narinfo_text dir h = Some contents \<longrightarrow> set (reference_hashes contents) \<subseteq> hashes \<union> pending)"

lemma mark_complete:
  assumes "marked dir (set queue) (set hashes)"
  shows "set hashes \<union> set queue \<subseteq> set (fst (mark dir queue hashes urls)) \<and> marked dir {} (set (fst (mark dir queue hashes urls)))"
  using assms
proof (induction dir queue hashes urls rule: mark.induct)
  case (2 dir hash queue hashes urls)
  show ?case
  proof (cases "hash \<in> set hashes")
    case True
    then have "marked dir (set queue) (set hashes)" using 2(4) by (auto simp: marked_def)
    from 2(1) [OF True this] True show ?thesis by auto
  next
    case False
    show ?thesis
    proof (cases "narinfo_text dir hash")
      case None
      then have "marked dir (set queue) (set (hash # hashes))" using 2(4) by (auto simp: marked_def)
      from 2(2) [OF False None this] False None show ?thesis by simp
    next
      case (Some contents)
      let ?q = "rev (filter (\<lambda>h. h \<notin> set (hash # hashes)) (reference_hashes contents)) @ queue"
      have "marked dir (set ?q) (set (hash # hashes))" using 2(4) Some by (auto simp: marked_def)
      from 2(3) [OF False Some this] False Some show ?thesis by simp
    qed
  qed
qed simp

lemma mark_sound:
  assumes "\<forall>h \<in> set queue. reaches dir roots h" "\<forall>h \<in> set hashes. reaches dir roots h"
  shows "\<forall>h \<in> set (fst (mark dir queue hashes urls)). reaches dir roots h"
  using assms
proof (induction dir queue hashes urls rule: mark.induct)
  case (2 dir hash queue hashes urls)
  from 2(4) have h: "reaches dir roots hash" and q: "\<forall>h \<in> set queue. reaches dir roots h" by simp_all
  with 2(5) have hs: "\<forall>h \<in> set (hash # hashes). reaches dir roots h" by simp
  show ?case
  proof (cases "hash \<in> set hashes")
    case True
    from 2(1) [OF True q 2(5)] True show ?thesis by simp
  next
    case False
    show ?thesis
    proof (cases "narinfo_text dir hash")
      case None
      from 2(2) [OF False None q hs] False None show ?thesis by simp
    next
      case (Some contents)
      have "\<forall>h \<in> set (rev (filter (\<lambda>h. h \<notin> set (hash # hashes)) (reference_hashes contents)) @ queue). reaches dir roots h"
        using q reaches_ref [OF h Some] by auto
      from 2(3) [OF False Some this hs] False Some show ?thesis by simp
    qed
  qed
qed simp

lemma mark_grows: "set hashes \<subseteq> set (fst (mark dir queue hashes urls))"
proof (induction dir queue hashes urls rule: mark.induct)
  case (2 dir hash queue hashes urls)
  then show ?case by (cases "narinfo_text dir hash") auto
qed simp

lemma mark_urls:
  "set (snd (mark dir queue hashes urls)) =
     set urls \<union> (\<Union>h \<in> set (fst (mark dir queue hashes urls)) - set hashes. case narinfo_text dir h of Some c \<Rightarrow> set (narinfo_urls c) | None \<Rightarrow> {})"
proof (induction dir queue hashes urls rule: mark.induct)
  case (2 dir hash queue hashes urls)
  let ?U = "\<lambda>h. case narinfo_text dir h of Some c \<Rightarrow> set (narinfo_urls c) | None \<Rightarrow> {}"
  show ?case
  proof (cases "hash \<in> set hashes")
    case False
    show ?thesis
    proof (cases "narinfo_text dir hash")
      case None
      let ?m = "mark dir queue (hash # hashes) urls"
      have "hash \<in> set (fst ?m)" using mark_grows [of "hash # hashes" dir queue urls] by auto
      then have "set (fst ?m) - set hashes = insert hash (set (fst ?m) - set (hash # hashes))" using False by auto
      then have "(\<Union>h \<in> set (fst ?m) - set hashes. ?U h) = (\<Union>h \<in> set (fst ?m) - set (hash # hashes). ?U h)" using None by simp
      with 2(2) [OF False None] False None show ?thesis by simp
    next
      case (Some c)
      let ?m = "mark dir (rev (filter (\<lambda>h. h \<notin> set (hash # hashes)) (reference_hashes c)) @ queue) (hash # hashes) (narinfo_urls c @ urls)"
      have "hash \<in> set (fst ?m)" using mark_grows [of "hash # hashes" dir _ "narinfo_urls c @ urls"] by auto
      then have "set (fst ?m) - set hashes = insert hash (set (fst ?m) - set (hash # hashes))" using False by auto
      then have "(\<Union>h \<in> set (fst ?m) - set hashes. ?U h) = set (narinfo_urls c) \<union> (\<Union>h \<in> set (fst ?m) - set (hash # hashes). ?U h)"
        using Some by simp
      with 2(3) [OF False Some] False Some show ?thesis by (simp add: Un_assoc Un_left_commute)
    qed
  qed (use 2(1) in simp)
qed simp

text \<open>C0: the marking reaches exactly the records that the references of the directory lead to from the
  roots, and the payloads it keeps are those given and those of the reached records.\<close>

theorem mark_exact:
  "set (fst (mark dir queue [] urls)) = {h. reaches dir (set queue) h} \<and>
   set (snd (mark dir queue [] urls)) =
     set urls \<union> {u. \<exists>h contents. reaches dir (set queue) h \<and> narinfo_text dir h = Some contents \<and> u \<in> set (narinfo_urls contents)}"
proof -
  let ?H = "set (fst (mark dir queue [] urls))"
  have "marked dir (set queue) (set [])" by (simp add: marked_def)
  note complete = mark_complete [OF this, of urls]
  have "h \<in> ?H" if "reaches dir (set queue) h" for h
    using that by (induction rule: reaches.induct) (use complete in \<open>auto simp: marked_def\<close>)
  moreover have "\<forall>h \<in> ?H. reaches dir (set queue) h" by (rule mark_sound) (auto intro: reaches_root)
  ultimately have H: "?H = {h. reaches dir (set queue) h}" by blast
  then show ?thesis using mark_urls [of dir queue "[]" urls] by (auto split: option.splits)
qed

section \<open>A sweep keeps verified closures\<close>

lemma sweep_entries_map_of:
  assumes "sweep_entries fault doomed freed es = (r, es')" and "\<And>node. (name, node) \<in> set es \<Longrightarrow> \<not> doomed (name, node)"
  shows "map_of es' name = map_of es name"
  using assms
proof (induction es arbitrary: freed r es')
  case (Cons e es)
  show ?case
  proof (cases "doomed e")
    case True
    with Cons.prems(2) have n: "fst e \<noteq> name" by (cases e) auto
    show ?thesis
    proof (cases "fault (fst e)")
      case None
      with True Cons.prems(1) have "sweep_entries fault doomed (sat_add freed (node_size (snd e))) es = (r, es')" by simp
      from Cons.IH [OF this] Cons.prems(2) n show ?thesis by simp
    qed (use True Cons.prems(1) in simp)
  next
    case False
    with Cons.prems(1) obtain es2 where "sweep_entries fault doomed freed es = (r, es2)" "es' = e # es2"
      by (auto split: prod.splits)
    with Cons.IH [OF this(1)] Cons.prems(2) show ?thesis by simp
  qed
qed simp

lemma alphabet_chars:
  "c \<in> set cache_base32_alphabet \<Longrightarrow>
     is_ascii_alphanumeric c \<and> to_ascii_lower c = c \<and> c \<noteq> CHR ''/'' \<and> c \<noteq> CHR 0x5C \<and> c \<noteq> CHR ''-''"
proof -
  have "list_all (\<lambda>c. is_ascii_alphanumeric c \<and> to_ascii_lower c = c \<and> c \<noteq> CHR ''/'' \<and> c \<noteq> CHR 0x5C \<and> c \<noteq> CHR ''-'') cache_base32_alphabet"
    by code_simp
  then show "c \<in> set cache_base32_alphabet \<Longrightarrow> ?thesis" by (simp add: list_all_iff)
qed

definition store_hash :: "str \<Rightarrow> str" where
  "store_hash p = takeWhile (\<lambda>c. c \<noteq> CHR ''-'') (drop (length nix_store_dir) p)"

lemma strip_prefix_Some: "strip_prefix s p = Some r \<longleftrightarrow> s = p @ r"
proof
  assume "strip_prefix s p = Some r"
  then have "take (length p) s = p" "r = drop (length p) s" by (auto simp: strip_prefix_def starts_with_def split: if_splits)
  then show "s = p @ r" using append_take_drop_id [of "length p" s] by simp
qed (simp add: strip_prefix_def starts_with_def)

lemma split_once_Some: "split_once c s = Some (a, b) \<longleftrightarrow> s = a @ c # b \<and> c \<notin> set a"
proof
  assume l: "split_once c s = Some (a, b)"
  then have c: "c \<in> set s" "a = takeWhile (\<lambda>x. x \<noteq> c) s" "b = tl (dropWhile (\<lambda>x. x \<noteq> c) s)"
    by (auto simp: split_once_def split: if_splits)
  then have "dropWhile (\<lambda>x. x \<noteq> c) s \<noteq> []" by (auto simp: dropWhile_eq_Nil_conv)
  then have "dropWhile (\<lambda>x. x \<noteq> c) s = c # b" using hd_dropWhile [of "\<lambda>x. x \<noteq> c" s] c(3) by (cases "dropWhile (\<lambda>x. x \<noteq> c) s") auto
  then show "s = a @ c # b \<and> c \<notin> set a"
    using takeWhile_dropWhile_id [of "\<lambda>x. x \<noteq> c" s] c(2) by (auto dest: set_takeWhileD)
next
  assume "s = a @ c # b \<and> c \<notin> set a"
  moreover from this have "takeWhile (\<lambda>x. x \<noteq> c) a = a" "dropWhile (\<lambda>x. x \<noteq> c) a = []" by (auto simp: takeWhile_eq_all_conv)
  ultimately show "split_once c s = Some (a, b)" by (auto simp: split_once_def takeWhile_append dropWhile_append)
qed

lemma store_pathE:
  assumes "validate_store_path p = Inr ()"
  obtains name where "p = nix_store_dir @ store_hash p @ ''-'' @ name" "name \<noteq> []" "length (store_hash p) = 32"
    "set (store_hash p) \<subseteq> set cache_base32_alphabet" "CHR ''/'' \<notin> set name"
proof -
  from assms obtain rel where rel: "p = nix_store_dir @ rel" "CHR ''/'' \<notin> set rel" "\<exists>hash name. split_once CHR ''-'' rel = Some (hash, name) \<and>
      length hash = 32 \<and> set hash \<subseteq> set cache_base32_alphabet \<and> name \<noteq> []"
    by (auto simp: validate_store_path_def list_all_iff subset_iff strip_prefix_Some split: option.splits if_splits)
  then obtain hash name where h: "split_once CHR ''-'' rel = Some (hash, name)" "length hash = 32"
    "set hash \<subseteq> set cache_base32_alphabet" "name \<noteq> []" by blast
  from h(1) have r: "rel = hash @ CHR ''-'' # name" "CHR ''-'' \<notin> set hash" by (simp_all add: split_once_Some)
  have "store_hash p = hash" using r(2) by (simp add: store_hash_def rel(1) r(1) takeWhile_append)
  with rel h r show thesis by (intro that [of name]) auto
qed

lemma split_on_single: "c \<notin> set s \<Longrightarrow> split_on c s = [s]"
  by (induction s) auto

lemma store_path_names:
  assumes "validate_store_path p = Inr ()"
  shows "narinfo_filename_for_store_path p = Inr (store_hash p @ ''.narinfo'')"
    and "store_path_hash p = Some (store_hash p)"
    and "store_basename_hash (drop (length nix_store_dir) p) = Some (store_hash p)"
    and "to_ascii_lowercase (store_hash p) = store_hash p"
    and "CHR ''/'' \<notin> set (store_hash p)" and "CHR 0x5C \<notin> set (store_hash p)"
proof -
  obtain name where n: "p = nix_store_dir @ store_hash p @ ''-'' @ name" "length (store_hash p) = 32"
    "set (store_hash p) \<subseteq> set cache_base32_alphabet" "CHR ''/'' \<notin> set name"
    by (rule store_pathE [OF assms])
  let ?h = "store_hash p" let ?rel = "?h @ CHR ''-'' # name"
  have h: "CHR ''/'' \<notin> set ?h" "CHR 0x5C \<notin> set ?h" "CHR ''-'' \<notin> set ?h" "list_all is_ascii_alphanumeric ?h"
    and lower: "to_ascii_lowercase ?h = ?h"
    using n(3) alphabet_chars by (auto simp: list_all_iff to_ascii_lowercase_def intro!: map_idI)
  have tw: "takeWhile (\<lambda>c. c \<noteq> CHR ''-'') ?rel = ?h" using h(3) by (simp add: takeWhile_append)
  have sp: "split_on CHR ''/'' p = [[], ''nix'', ''store'', ?rel]"
    using split_on_single [of "CHR ''/''" ?rel] h(1) n(4) by (subst n(1)) (simp add: nix_store_dir_def)
  have ne: "?rel \<noteq> w" if "length w \<le> 2" for w
  proof
    assume "?rel = w"
    then have "length ?rel = length w" by (rule arg_cong)
    with that n(2) show False by simp
  qed
  have rel: "?rel \<noteq> []" "?rel \<noteq> ''.''" "?rel \<noteq> ''..''" using ne by simp_all
  have "path_components p = [RootDir, Normal ''nix'', Normal ''store'', Normal ?rel]"
    unfolding path_components_def sp using rel by (subst n(1)) (simp add: nix_store_dir_def starts_with_def)
  then have "path_file_name p = Some ?rel" by (simp add: path_file_name_def)
  then show "narinfo_filename_for_store_path p = Inr (?h @ ''.narinfo'')"
    using n(2) h(3,4) split_once_Some [of "CHR ''-''" ?rel ?h name] by (simp add: narinfo_filename_for_store_path_def)
  show "store_path_hash p = Some ?h"
    unfolding store_path_hash_def sp store_basename_hash_def using tw n(2) h(4) lower by (simp add: Let_def)
  have "drop (length nix_store_dir) p = ?rel" by (subst n(1)) simp
  then show "store_basename_hash (drop (length nix_store_dir) p) = Some ?h"
    unfolding store_basename_hash_def using tw n(2) h(4) lower by (simp add: Let_def)
  show "to_ascii_lowercase ?h = ?h" "CHR ''/'' \<notin> set ?h" "CHR 0x5C \<notin> set ?h" by (fact lower h)+
qed

text \<open>Leading and trailing white space does not matter to the words of a text.\<close>

lemma words_of_dropWhile: "words_of (dropWhile is_whitespace cs) [] = words_of cs []"
  by (induction cs) auto

lemma words_of_trailing: "\<forall>c \<in> set ws. is_whitespace c \<Longrightarrow> words_of (cs @ ws) acc = words_of cs acc"
proof (induction cs arbitrary: acc)
  case Nil
  then show ?case by (induction ws arbitrary: acc) auto
qed auto

lemma split_whitespace_trim [simp]: "split_whitespace (trim s) = split_whitespace s"
proof -
  let ?cs = "dropWhile is_whitespace (utf8_chars s)"
  have "?cs = rev (dropWhile is_whitespace (rev ?cs)) @ rev (takeWhile is_whitespace (rev ?cs))"
    by (metis rev_append rev_rev_ident takeWhile_dropWhile_id)
  moreover have "\<forall>c \<in> set (rev (takeWhile is_whitespace (rev ?cs))). is_whitespace c" by (auto dest: set_takeWhileD)
  ultimately have "words_of (rev (dropWhile is_whitespace (rev ?cs))) [] = words_of ?cs []" by (metis words_of_trailing)
  then show ?thesis by (simp add: split_whitespace_def utf8_chars_trim words_of_dropWhile)
qed

text \<open>The records name their references by base name, as Nix writes them.\<close>

definition plain_record :: "str \<Rightarrow> bool" where
  "plain_record raw =
     list_all (\<lambda>line. case strip_prefix line ''References:'' of
         Some refs \<Rightarrow> list_all (\<lambda>w. \<not> starts_with w nix_store_dir) (split_whitespace refs)
       | None \<Rightarrow> True) (str_lines raw)"

definition plain_references :: "cache_dir \<Rightarrow> bool" where
  "plain_references dir = list_all (\<lambda>(_, node). case node of Regular raw \<Rightarrow> plain_record raw | _ \<Rightarrow> True) (cd_root dir)"

lemma narinfo_line_references:
  "ni_references (narinfo_line line n) = ni_references n \<or>
   (\<exists>v. strip_prefix line ''References:'' = Some v \<and> ni_references (narinfo_line line n) = map narinfo_reference (split_whitespace v))"
  by (auto simp: narinfo_line_def Let_def strip_prefix_Some split_once_Some split: option.splits)

lemma narinfo_line_url:
  "ni_url (narinfo_line line n) = ni_url n \<or>
   (\<exists>v. strip_prefix line ''URL:'' = Some v \<and> ni_url (narinfo_line line n) = trim v)"
  by (auto simp: narinfo_line_def Let_def strip_prefix_Some split_once_Some split: option.splits)

lemma parsed_references:
  assumes "r \<in> set (ni_references (fold narinfo_line lines n))" "r \<notin> set (ni_references n)"
  shows "\<exists>line \<in> set lines. \<exists>v. strip_prefix line ''References:'' = Some v \<and> r \<in> narinfo_reference ` set (split_whitespace v)"
  using assms
proof (induction lines arbitrary: n)
  case (Cons line lines)
  show ?case
  proof (cases "r \<in> set (ni_references (narinfo_line line n))")
    case True
    with narinfo_line_references [of line n] Cons.prems(2) show ?thesis by auto
  next
    case False
    from Cons.IH [OF _ False] Cons.prems(1) show ?thesis by auto
  qed
qed simp

lemma parsed_url:
  assumes "ni_url (fold narinfo_line lines n) \<noteq> ni_url n"
  shows "\<exists>line \<in> set lines. \<exists>v. strip_prefix line ''URL:'' = Some v \<and> ni_url (fold narinfo_line lines n) = trim v"
  using assms
proof (induction lines arbitrary: n)
  case (Cons line lines)
  show ?case
  proof (cases "ni_url (fold narinfo_line (line # lines) n) = ni_url (narinfo_line line n)")
    case True
    with narinfo_line_url [of line n] Cons.prems show ?thesis by auto
  next
    case False
    with Cons.IH [of "narinfo_line line n"] show ?thesis by auto
  qed
qed simp

lemma parse_narinfo_strictD:
  "parse_narinfo_strict raw = Inr n \<Longrightarrow> n = fold narinfo_line (str_lines raw) empty_narinfo \<and> ni_url n \<noteq> []"
  by (auto simp: parse_narinfo_strict_def parse_narinfo_def Let_def result_simps split: if_splits option.splits)

lemma set_map_filter: "x \<in> set (List.map_filter f xs) \<longleftrightarrow> (\<exists>y \<in> set xs. f y = Some x)"
  by (induction xs) (auto simp: List.map_filter_simps split: option.splits)

lemma record_reference_marked:
  assumes "parse_narinfo_strict raw = Inr n" "plain_record raw" "r \<in> set (ni_references n)" "validate_store_path r = Inr ()"
  shows "store_hash r \<in> set (reference_hashes raw)"
proof -
  from parse_narinfo_strictD [OF assms(1)] assms(3) parsed_references [of r "str_lines raw" empty_narinfo]
  obtain line v w where l: "line \<in> set (str_lines raw)" "strip_prefix line ''References:'' = Some v" "w \<in> set (split_whitespace v)"
    "r = narinfo_reference w" by (auto simp: empty_narinfo_def)
  from assms(2) l(1-3) have "\<not> starts_with w nix_store_dir" by (force simp: plain_record_def list_all_iff)
  then have "drop (length nix_store_dir) r = w" by (simp add: l(4) narinfo_reference_def)
  with store_path_names(3) [OF assms(4)] have "store_basename_hash w = Some (store_hash r)" by simp
  with l(3) have "store_hash r \<in> set (List.map_filter store_basename_hash (split_whitespace v))"
    by (auto simp: set_map_filter)
  moreover have "line = ''References:'' @ v" using l(2) by (simp only: strip_prefix_Some)
  then have "strip_prefix line ''URL:'' = None" by (simp add: strip_prefix_def starts_with_def)
  ultimately show ?thesis unfolding reference_hashes_def using l(1,2) by force
qed

lemma record_url_marked:
  assumes "parse_narinfo_strict raw = Inr n" "validate_nar_url (ni_url n) = Inr f"
  shows "''nar/'' @ f \<in> set (narinfo_urls raw)"
proof -
  from assms(2) have u: "ni_url n = ''nar/'' @ f" by (auto simp: validate_nar_url_def strip_prefix_Some split: option.splits if_splits)
  from parse_narinfo_strictD [OF assms(1)] parsed_url [of "str_lines raw" empty_narinfo]
  obtain line v where l: "line \<in> set (str_lines raw)" "strip_prefix line ''URL:'' = Some v" "ni_url n = trim v"
    by (auto simp: empty_narinfo_def)
  have "trim v = ''nar/'' @ f" using l(3) u by simp
  then have "map_option (\<lambda>url. trim_start_matches CHR ''/'' (trim url)) (strip_prefix line ''URL:'') = Some (''nar/'' @ f)"
    by (simp add: l(2) trim_start_matches_def)
  with l(1) show ?thesis unfolding narinfo_urls_def set_map_filter by blast
qed

text \<open>What a sweep leaves of the directory, whether it ends or fails.\<close>

lemma sweep_keeps_entries:
  assumes "sweep_unreachable_blocking faults cache_root retained extra_roots dir = (r, dir')"
    and "roots = set (List.map_filter (\<lambda>a. store_path_hash (rf_store_path a)) retained @ List.map_filter store_path_hash extra_roots)"
  shows "reaches dir roots h \<Longrightarrow> to_ascii_lowercase h = h \<Longrightarrow>
      map_of (cd_root dir') (h @ ''.narinfo'') = map_of (cd_root dir) (h @ ''.narinfo'')"
    and "reaches dir roots h \<Longrightarrow> narinfo_text dir h = Some contents \<Longrightarrow> ''nar/'' @ f \<in> set (narinfo_urls contents) \<Longrightarrow>
      Option.bind (cd_nar dir') (\<lambda>es. map_of es f) = Option.bind (cd_nar dir) (\<lambda>es. map_of es f)"
proof -
  define live where "live = concat (map (\<lambda>a. [rf_nar_path a, rf_narinfo_path a]) retained)"
  define queue where "queue = rev (List.map_filter (\<lambda>a. store_path_hash (rf_store_path a)) retained @ List.map_filter store_path_hash extra_roots)"
  define urls where "urls = filter (\<lambda>u. u \<noteq> []) (map rf_nar_url retained)"
  obtain H U where m: "mark dir queue [] urls = (H, U)" by (rule prod.exhaust)
  have roots: "roots = set queue" by (auto simp: assms(2) queue_def)
  have H: "h \<in> set H" if "reaches dir roots h" for h using mark_exact [of dir queue urls] that by (simp add: m roots)
  have U: "u \<in> set U" if "reaches dir roots h" "narinfo_text dir h = Some c" "u \<in> set (narinfo_urls c)" for h c u
    using mark_exact [of dir queue urls] that by (auto simp: m roots)
  obtain r1 es where e: "sweep_entries (cf_remove faults) (doomed_narinfo live H cache_root) 0 (cd_root dir) = (r1, es)" by (rule prod.exhaust)
  have sweep: "(r, dir') = (case r1 of Inl err \<Rightarrow> (Inl err, dir \<lparr> cd_root := es \<rparr>)
      | Inr freed \<Rightarrow> (case cd_nar dir of None \<Rightarrow> (Inr freed, dir \<lparr> cd_root := es \<rparr>)
         | Some ns \<Rightarrow> (case sweep_entries (cf_remove faults) (doomed_nar live U cache_root) freed ns of
             (r, ns) \<Rightarrow> (r, dir \<lparr> cd_root := es, cd_nar := Some ns \<rparr>))))"
    using assms(1) [unfolded sweep_unreachable_blocking_def Let_def, folded live_def queue_def urls_def]
    by (cases r1) (auto simp: m e split: option.splits prod.splits)
  have root: "cd_root dir' = es" using sweep by (auto split: sum.splits option.splits prod.splits)
  show "map_of (cd_root dir') (h @ ''.narinfo'') = map_of (cd_root dir) (h @ ''.narinfo'')"
    if "reaches dir roots h" "to_ascii_lowercase h = h"
    unfolding root
    by (rule sweep_entries_map_of [OF e]) (use H [OF that(1)] that(2) in \<open>auto simp: doomed_narinfo_def strip_suffix_def ends_with_def\<close>)
  show "Option.bind (cd_nar dir') (\<lambda>es. map_of es f) = Option.bind (cd_nar dir) (\<lambda>es. map_of es f)"
    if h: "reaches dir roots h" "narinfo_text dir h = Some contents" "''nar/'' @ f \<in> set (narinfo_urls contents)"
  proof (cases "cd_nar dir")
    case None
    then show ?thesis using sweep by (auto split: sum.splits)
  next
    case (Some ns)
    have keep: "map_of ns' f = map_of ns f" if "sweep_entries (cf_remove faults) (doomed_nar live U cache_root) freed ns = (r2, ns')" for freed r2 ns'
      by (rule sweep_entries_map_of [OF that]) (use U [OF h] in \<open>auto simp: doomed_nar_def\<close>)
    from sweep Some show ?thesis by (auto split: sum.splits prod.splits dest: keep)
  qed
qed

lemma closure_visit_kept:
  assumes visit: "closure_visit ne dir cache_root key p (store_hash p @ ''.narinfo'') = Inr m"
    and sweep: "sweep_unreachable_blocking faults cache_root retained extra_roots dir = (swept, dir')"
    and roots: "roots = set (List.map_filter (\<lambda>a. store_path_hash (rf_store_path a)) retained @ List.map_filter store_path_hash extra_roots)"
    and reach: "reaches dir roots (store_hash p)" and valid: "validate_store_path p = Inr ()" and plain: "plain_references dir"
  shows "closure_visit ne dir' cache_root key p (store_hash p @ ''.narinfo'') = Inr m"
    and "r \<in> set (ni_references (cm_narinfo m)) \<Longrightarrow> validate_store_path r = Inr () \<and> reaches dir roots (store_hash r)"
proof -
  let ?f = "store_hash p @ ''.narinfo''"
  from visit obtain n fs ns fh where rec: "closure_record ne dir cache_root key p ?f = Inr (n, fs, ns, fh)"
    and pay: "closure_payload ne dir cache_root n fs fh = Inr (cm_nar_path m)" and n: "cm_narinfo m = n"
    by (auto simp: closure_visit_def result_simps)
  obtain raw n0 where raw: "read_safe_narinfo dir cache_root ?f = Inr raw" "parse_narinfo_strict raw = Inr n0"
    "n = n0 \<lparr> ni_references := sort (remdups (ni_references n0)) \<rparr>" "\<forall>r \<in> set (ni_references n). validate_store_path r = Inr ()"
    using closure_recordD [OF rec] by metis
  then have node: "map_of (cd_root dir) ?f = Some (Regular raw)" "utf8_ok raw" by (auto simp: read_safe_narinfo_ok)
  then have text_p: "narinfo_text dir (store_hash p) = Some raw" by (simp add: narinfo_text_def read_to_string_def)
  note keep = sweep_keeps_entries [OF sweep roots reach]
  have "map_of (cd_root dir') ?f = map_of (cd_root dir) ?f" by (rule keep(1)) (rule store_path_names(4) [OF valid])
  then have "read_safe_narinfo dir' cache_root ?f = read_safe_narinfo dir cache_root ?f" by (simp add: read_safe_narinfo_def)
  then have rec': "closure_record ne dir' cache_root key p ?f = Inr (n, fs, ns, fh)" using rec by (simp add: closure_record_def)
  from pay obtain x where "hash_safe_cache_member ne dir cache_root (ni_url n) = Inr x" by (auto simp: closure_payload_def result_simps)
  then obtain f where f: "validate_nar_url (ni_url n) = Inr f" by (auto simp: hash_safe_cache_member_def result_simps)
  have "''nar/'' @ f \<in> set (narinfo_urls raw)" by (rule record_url_marked [OF raw(2)]) (use f raw(3) in simp)
  then have "Option.bind (cd_nar dir') (\<lambda>es. map_of es f) = Option.bind (cd_nar dir) (\<lambda>es. map_of es f)" by (rule keep(2) [OF text_p])
  then have "hash_safe_cache_member ne dir' cache_root (ni_url n) = hash_safe_cache_member ne dir cache_root (ni_url n)"
    by (simp add: hash_safe_cache_member_def rbind_def f)
  then have "closure_payload ne dir' cache_root n fs fh = closure_payload ne dir cache_root n fs fh" by (simp add: closure_payload_def)
  with visit rec rec' show "closure_visit ne dir' cache_root key p ?f = Inr m" by (simp add: closure_visit_def rbind_def closure_err_def)
  assume r: "r \<in> set (ni_references (cm_narinfo m))"
  then have v: "validate_store_path r = Inr ()" using raw(4) n by simp
  have "plain_record raw" using plain map_of_SomeD [OF node(1)] by (force simp: plain_references_def list_all_iff)
  from record_reference_marked [OF raw(2) this _ v] r raw(3) n have "store_hash r \<in> set (reference_hashes raw)" by simp
  with v reaches_ref [OF reach text_p] show "validate_store_path r = Inr () \<and> reaches dir roots (store_hash r)" by blast
qed

lemma closure_walk_kept:
  assumes "sweep_unreachable_blocking faults cache_root retained extra_roots dir = (swept, dir')"
    and "roots = set (List.map_filter (\<lambda>a. store_path_hash (rf_store_path a)) retained @ List.map_filter store_path_hash extra_roots)"
    and "plain_references dir"
    and "closure_walk ne dir cache_root key queue visited members tf tn inspected = (Inr x, ins)"
    and "\<And>p. p \<in> set queue \<Longrightarrow> validate_store_path p = Inr () \<Longrightarrow> reaches dir roots (store_hash p)"
  shows "closure_walk ne dir' cache_root key queue visited members tf tn inspected = (Inr x, ins)"
  using assms
proof (induction ne dir cache_root key queue visited members tf tn inspected rule: closure_walk.induct)
  case (2 ne dir cache_root key p queue visited members tf tn inspected)
  have valid: "validate_store_path p = Inr ()"
    using 2(6) by (cases "validate_store_path p") (auto simp: with_context_def)
  note names = store_path_names(1) [OF valid]
  show ?case
  proof (cases "p \<in> set visited")
    case True
    with 2(1) [of "()"] 2(3-7) valid show ?thesis by (simp add: with_context_def)
  next
    case False
    with 2(6) valid names obtain m where
      visit: "closure_visit ne dir cache_root key p (store_hash p @ ''.narinfo'') = Inr m"
      by (cases "closure_visit ne dir cache_root key p (store_hash p @ ''.narinfo'')") (auto simp: with_context_def)
    note kept = closure_visit_kept [OF visit 2(3) 2(4) 2(7) [OF list.set_intros(1) valid] valid 2(5)]
    have reach: "q \<in> set (queue @ filter (\<lambda>r. r \<notin> set (p # visited)) (ni_references (cm_narinfo m))) \<Longrightarrow>
        validate_store_path q = Inr () \<Longrightarrow> reaches dir roots (store_hash q)" for q
      using kept(2) [of q] 2(7) [of q] by auto
    have small: "\<not> 2 ^ 64 \<le> tf + cm_file_size m" "\<not> 2 ^ 64 \<le> tn + cm_nar_size m"
      using 2(6) False valid names visit by (auto simp: with_context_def Let_def split: if_splits)
    have ctx: "with_context c (validate_store_path p) = Inr ()" for c using valid by (simp add: with_context_def)
    note IH = 2(2) [OF ctx False names refl visit small 2(3) 2(4) 2(5) _ reach]
    have "closure_walk ne dir cache_root key
        (queue @ filter (\<lambda>r. r \<notin> set (p # visited)) (ni_references (cm_narinfo m))) (p # visited) (members @ [m])
        (tf + cm_file_size m) (tn + cm_nar_size m) (inspected @ [path_join cache_root (store_hash p @ ''.narinfo'')]) = (Inr x, ins)"
      using 2(6) False ctx names visit small by (simp add: Let_def del: list.set set_append filter.simps)
    from IH [OF this] show ?thesis
      using False ctx names kept(1) small by (simp add: Let_def del: list.set set_append filter.simps)
  qed
qed simp

text \<open>C0: A sweep never breaks a closure that it should keep: when the closure of a store path verifies
  before the sweep, the path is a retained artifact or an extra root, and the records of the directory
  write their references as plain base names, then the closure verifies after the sweep with the same
  manifest, whatever files of the directory could not be removed and whether or not the sweep failed.\<close>

theorem sweep_keeps_verified_closure:
  assumes "sweep_unreachable_blocking faults cache_root retained extra_roots dir = (swept, dir')"
    and "build_closure_manifest ne env sha dir cache_root root drv key = (Inr v, inspected)"
    and "(\<exists>a \<in> set retained. rf_store_path a = root) \<or> root \<in> set extra_roots" and "plain_references dir"
  shows "build_closure_manifest ne env sha dir' cache_root root drv key = (Inr v, inspected)"
proof -
  define roots where "roots = set (List.map_filter (\<lambda>a. store_path_hash (rf_store_path a)) retained @ List.map_filter store_path_hash extra_roots)"
  have valid: "validate_store_path root = Inr ()"
    using assms(2) by (cases "validate_store_path root") (auto simp: build_closure_manifest_def with_context_def rbind_def)
  from assms(2) obtain x where walk: "closure_walk ne dir cache_root key [root] [] [] 0 0 [] = (Inr x, inspected)"
    unfolding build_closure_manifest_def by (auto simp del: closure_walk.simps split: sum.splits prod.splits)
  have "store_hash root \<in> roots"
    using assms(3) store_path_names(2) [OF valid] by (force simp: roots_def List.map_filter_def)
  then have "reaches dir roots (store_hash root)" by (rule reaches_root)
  with closure_walk_kept [OF assms(1) roots_def assms(4) walk]
  have "closure_walk ne dir' cache_root key [root] [] [] 0 0 [] = closure_walk ne dir cache_root key [root] [] [] 0 0 []"
    using walk by simp
  then show ?thesis using assms(2) unfolding build_closure_manifest_def by (simp only:)
qed

section \<open>Witnesses of the cache\<close>

definition demo_nix :: nix_env where
  "demo_nix = \<lparr> ne_b64_decode = (\<lambda>s. Some (if s = ''S'' then replicate 64 CHR ''s'' else replicate 32 CHR ''k'')),
     ne_hex_decode = (\<lambda>_. None), ne_key_from_bytes = (\<lambda>_. True), ne_key_is_weak = (\<lambda>_. False),
     ne_verify_strict = (\<lambda>_ _ _. True), ne_sha256 = (\<lambda>b. to_bytes (take 32 (b @ replicate 32 CHR ''k''))) \<rparr>"

definition demo_metadata :: json_env where
  "demo_metadata = \<lparr> je_to_string = (\<lambda>_. []), je_from_str = (\<lambda>_. Inl []), je_validate_build_spec = (\<lambda>_. None),
     je_validate_cache_metadata = (\<lambda>_. None) \<rparr>"

definition demo_name :: "char \<Rightarrow> str" where
  "demo_name c = replicate 32 c @ ''-p''"

definition demo_record :: "char \<Rightarrow> str \<Rightarrow> str" where
  "demo_record c references =
     ''StorePath: /nix/store/'' @ demo_name c @ [CHR 0x0A] @ ''URL: nar/'' @ [c] @ ''.nar'' @ [CHR 0x0A] @
     ''Compression: none'' @ [CHR 0x0A] @ ''FileHash: sha256-H'' @ [CHR 0x0A] @ ''FileSize: 2'' @ [CHR 0x0A] @
     ''NarHash: sha256-H'' @ [CHR 0x0A] @ ''NarSize: 5'' @ [CHR 0x0A] @ ''References: '' @ references @ [CHR 0x0A] @
     ''Sig: nest:S'' @ [CHR 0x0A]"

text \<open>Three records: the first refers to the second, and nothing refers to the third.\<close>

definition demo_dir :: cache_dir where
  "demo_dir =
     \<lparr> cd_root = [(replicate 32 CHR ''c'' @ ''.narinfo'', Regular (demo_record CHR ''c'' [])),
                  (replicate 32 CHR ''a'' @ ''.narinfo'', Regular (demo_record CHR ''a'' (demo_name CHR ''b''))),
                  (replicate 32 CHR ''b'' @ ''.narinfo'', Regular (demo_record CHR ''b'' []))],
       cd_nar = Some [(''a.nar'', Regular ''kk''), (''b.nar'', Regular ''kk''), (''c.nar'', Regular ''kk'')] \<rparr>"

definition demo_root :: str where "demo_root = ''/nix/store/'' @ demo_name CHR ''a''"

definition demo_faults :: cache_faults where
  "demo_faults = \<lparr> cf_remove = (\<lambda>_. None), cf_prepare = None, cf_unpublish = (\<lambda>_. None), cf_archive = (\<lambda>_. None) \<rparr>"

definition demo_closure :: "cache_dir \<Rightarrow> (closure_error + verified_closure) \<times> str list" where
  "demo_closure dir = build_closure_manifest demo_nix demo_metadata (\<lambda>_. ''0'') dir ''/cache'' demo_root None ''nest:K''"

text \<open>The signature check of the example accepts every fingerprint, so the base32 notation inside the
  fingerprint is left symbolic while the example is evaluated.\<close>

declare encode_nix_base32_sha256_def [code del]

lemma demo_closure_verifies: "is_ok (fst (demo_closure demo_dir))"
  by code_simp

declare encode_nix_base32_sha256_def [code]

theorem sweep_keeps_verified_closure_witness:
  "\<exists>v inspected. demo_closure demo_dir = (Inr v, inspected) \<and>
     (let dir' = snd (sweep_unreachable_blocking demo_faults ''/cache'' [] [demo_root] demo_dir)
      in length (cd_root dir') = 2 \<and> demo_closure dir' = (Inr v, inspected))"
proof -
  have "\<exists>v inspected. demo_closure demo_dir = (Inr v, inspected)"
    using demo_closure_verifies unfolding is_ok_iff by (metis prod.collapse)
  then obtain v inspected where v: "demo_closure demo_dir = (Inr v, inspected)" by blast
  obtain swept dir' where s: "sweep_unreachable_blocking demo_faults ''/cache'' [] [demo_root] demo_dir = (swept, dir')"
    by (rule prod.exhaust)
  have "demo_root \<in> set [demo_root]" by simp
  have "plain_references demo_dir" by code_simp
  then have "demo_closure dir' = (Inr v, inspected)" unfolding demo_closure_def
    by (rule sweep_keeps_verified_closure [OF s v [unfolded demo_closure_def] disjI2 [OF \<open>demo_root \<in> set [demo_root]\<close>]])
  moreover have "length (cd_root (snd (sweep_unreachable_blocking demo_faults ''/cache'' [] [demo_root] demo_dir))) = 2" by code_simp
  ultimately have "demo_closure demo_dir = (Inr v, inspected) \<and> length (cd_root dir') = 2 \<and> demo_closure dir' = (Inr v, inspected)"
    using v unfolding s snd_conv by (intro conjI)
  then show ?thesis unfolding s snd_conv Let_def by (intro exI)
qed

end
