(* ===== verification/Spec2Isabelle.thy ===== *)
theory Spec2Isabelle
  imports Nest_Boot_Routes Nest_Egress Nest_Report Nest_Cache
begin

text \<open>
  A verification library of Tiaris Nest, the boot and build appliance of \<^verbatim>\<open>src/\<close>.

  \<^bold>\<open>Parts.\<close> A workstation that boots from the network asks the boot routes for an iPXE script.
  The route records the machine in the store (\<^verbatim>\<open>db.rs\<close>), chooses a profile (\<^verbatim>\<open>boot.rs\<close>) and
  renders a script or a menu. Scripts refer to files that the asset server (\<^verbatim>\<open>assets.rs\<close>,
  \<^verbatim>\<open>routes/files.rs\<close>) hands out; the cache route counts what it serves (\<^verbatim>\<open>cache_egress.rs\<close>) and
  keeps its totals in a state file (\<^verbatim>\<open>state_files.rs\<close>). The store also holds the queue of builds and
  the inventory of the binary cache. An agent (\<^verbatim>\<open>manage.rs\<close>) talks to the managing service with
  signed requests: it fetches a configuration and writes it to the store, and it reports builds, cache
  artifacts and boot events page by page.

  \<^bold>\<open>Theories.\<close> Each definition has the name of the function, type or constant it models; a suffix or
  prefix is added where a name is taken. State is passed explicitly: an operation on the store is a
  function from the store to a result and the new store (\<^verbatim>\<open>Nest_Db\<close>), in the order of the source's
  statements; an error is the left summand of the result.

  \<^item> \<^verbatim>\<open>Nest_Prelude\<close>: fixed-width saturating arithmetic, fallible values, tables as row lists,
    reachability and the contract of a stateful component (locale \<^verbatim>\<open>invariant_system\<close>).
  \<^item> \<^verbatim>\<open>Nest_Str\<close>: the string operations of Rust's standard library the sources use, on UTF-8 byte
    lists.
  \<^item> \<^verbatim>\<open>Nest_Models\<close>: \<^verbatim>\<open>error.rs\<close> and \<^verbatim>\<open>models.rs\<close>.
  \<^item> \<^verbatim>\<open>Nest_Db\<close>: database code as state-passing functions with errors, transactions, and Hoare rules
    for it.
  \<^item> \<^verbatim>\<open>Nest_Store\<close>: devices, profiles and boot events of \<^verbatim>\<open>db.rs\<close>, each operation with its
    statements in order, the constraints of the migrations, and the store invariant.
  \<^item> \<^verbatim>\<open>Nest_Assets\<close>: \<^verbatim>\<open>assets.rs\<close> over a file system with symbolic links.
  \<^item> \<^verbatim>\<open>Nest_State_Files\<close>: \<^verbatim>\<open>state_files.rs\<close>, with a failure possible at each step of a write.
  \<^item> \<^verbatim>\<open>Nest_Egress\<close>: \<^verbatim>\<open>cache_egress.rs\<close> and \<^verbatim>\<open>routes/files.rs\<close>.
  \<^item> \<^verbatim>\<open>Nest_Boot\<close>: \<^verbatim>\<open>boot.rs\<close>. \<^verbatim>\<open>Nest_Ip\<close>: the addresses of the standard library.
    \<^verbatim>\<open>Nest_Boot_Routes\<close>: \<^verbatim>\<open>routes/boot.rs\<close> over the store, the choice and the scripts.
  \<^item> \<^verbatim>\<open>Nest_Redact\<close>: \<^verbatim>\<open>redact.rs\<close> and the password-hash scanner of \<^verbatim>\<open>protected_material.rs\<close>.
    \<^verbatim>\<open>Nest_Validate\<close>: the normalisers of build jobs and artifacts in \<^verbatim>\<open>db.rs\<close>.
  \<^item> \<^verbatim>\<open>Nest_Build_Queue\<close> and \<^verbatim>\<open>Nest_Artifacts\<close>: the build queue (locale \<^verbatim>\<open>worker_queue\<close>), quarantine,
    cache artifacts, protections and the inventory generation of \<^verbatim>\<open>db.rs\<close>.
  \<^item> \<^verbatim>\<open>Nest_Sync\<close>: \<^verbatim>\<open>apply_boot_config\<close> of \<^verbatim>\<open>manage.rs\<close>, with \<^verbatim>\<open>pxe_discovery.rs\<close>.
    \<^verbatim>\<open>Nest_Request\<close>: signed requests, bounded answers, protocol versions and pauses.
    \<^verbatim>\<open>Nest_Report\<close>: the Nest report and the boot report, with the locale \<^verbatim>\<open>paged_report\<close> of a
    report that goes through a list page by page.

  \<^bold>\<open>What is shown.\<close> Invariants: what holds of every store reachable through the interface
  (\<^verbatim>\<open>Nest_Store\<close>, \<^verbatim>\<open>Nest_Artifacts\<close>), kept by the boot routes and by an applied configuration.
  Behaviour: what each operation does on every branch, what it leaves alone and what a failure leaves
  behind. Safety: no path outside the served tree, no forged label in a menu, no password hash in
  redacted text, a signature that covers the request. Refinement: claims implement a queue.
  Equivalence: the selection in memory agrees with the order of the query. Bounds and termination of
  trimming. Liveness: accepted reports deliver the whole inventory and every event.

  \<^bold>\<open>Bounds.\<close> \<^verbatim>\<open>fs_resolve\<close> follows at most 40 links, the limit of the Linux path walk; running out is
  the error the kernel gives. Loops are recursion over the data, with termination proofs where it is
  not structural, or \<^verbatim>\<open>while\<close> with a proof that it ends. Counters and word arithmetic keep the
  width of the source; numbers of rows are unbounded integers.

  \<^bold>\<open>Parameters.\<close> JSON text, SHA-256, base64, signatures, the URL parser, UUID parsing, the clock,
  random numbers and the answers of the service are arguments of the definitions that use them;
  theorems name what they rely on.

  \<^bold>\<open>Not modelled.\<close> Processes the program starts (nix, udp-sender, systemd, partitioning tools), the
  HTTP transport, cryptography, SQLite itself and asynchronous scheduling: each store operation runs
  to its end before the next. The manifest names each module and the reason.
\<close>

end
